(* ===== verification/Mesh_Prelude.thy ===== *)
theory Mesh_Prelude
  imports Main "HOL-Library.Word" "HOL-Library.AList" "HOL-Library.Multiset"
begin

unbundle bit_operations_syntax

text \<open>
  Shared vocabulary of the development: the Python exceptions the code raises and the result
  type of an operation that may raise, byte strings and text, the big-endian integer reading of
  a byte string, \<open>int.bit_length\<close>, hexadecimal and UTF-8 conversion, the insertion-ordered
  dictionary, first-minimum selection and prefixes of a stable sort.

  A Python \<open>str\<close> is the list of its code points (\<open>pystr\<close>); \<open>u\<close> turns an Isabelle string
  literal into one. A Python \<open>bytes\<close> is a list of 8-bit words. A Python \<open>dict\<close> is an association
  list in insertion order, read with \<open>map_of\<close> and written with \<open>AList.update\<close> (which keeps the
  place of an existing key and appends a new one) and \<open>AList.delete\<close>.
\<close>

named_theorems res_simps \<open>rules that compute with the result type\<close>
named_theorems id_simps \<open>rules on byte strings read as node identifiers\<close>

section \<open>Exceptions and results\<close>

datatype pyexc =
    ValueError | JSONDecodeError | UnicodeDecodeError | UnicodeEncodeError
  | KeyError | IndexError | TypeError | AttributeError | OverflowError
  | PermissionError | FileNotFoundError | ConnectionError | TimeoutError | OSError
  | IncompleteReadError | StructError | RecursionError | CancelledError | BootstrapError | RuntimeError
  | ZeroDivisionError

type_synonym 'a res = "pyexc + 'a"

text \<open>\<open>except ValueError\<close> also catches its subclasses.\<close>

fun is_ValueError :: "pyexc \<Rightarrow> bool" where
  "is_ValueError ValueError = True"
| "is_ValueError JSONDecodeError = True"
| "is_ValueError UnicodeDecodeError = True"
| "is_ValueError UnicodeEncodeError = True"
| "is_ValueError _ = False"

text \<open>\<open>except OSError\<close> likewise; \<open>IncompleteReadError\<close> is an \<open>EOFError\<close> and not among them.\<close>

definition is_OSError :: "pyexc \<Rightarrow> bool" where
  "is_OSError e \<longleftrightarrow> e \<in> {OSError, ConnectionError, TimeoutError, PermissionError, FileNotFoundError}"

text \<open>Sequencing: an exception ends the computation.\<close>

definition and_then :: "'a res \<Rightarrow> ('a \<Rightarrow> 'b res) \<Rightarrow> 'b res" where
  "and_then r f = (case r of Inl e \<Rightarrow> Inl e | Inr x \<Rightarrow> f x)"

lemma and_then_simps [simp, res_simps]:
  "and_then (Inl e) f = Inl e"
  "and_then (Inr x) f = f x"
  by (simp_all add: and_then_def)

lemma and_then_Inr_iff [res_simps]:
  "and_then r f = Inr y \<longleftrightarrow> (\<exists>x. r = Inr x \<and> f x = Inr y)"
  by (cases r) auto

lemma and_then_Inl_iff [res_simps]:
  "and_then r f = Inl e \<longleftrightarrow> r = Inl e \<or> (\<exists>x. r = Inr x \<and> f x = Inl e)"
  by (cases r) auto

fun map_res :: "('a \<Rightarrow> 'b res) \<Rightarrow> 'a list \<Rightarrow> 'b list res" where
  "map_res f [] = Inr []"
| "map_res f (x # xs) = and_then (f x) (\<lambda>y. and_then (map_res f xs) (\<lambda>ys. Inr (y # ys)))"

lemma map_res_InrI: "(\<And>x. x \<in> set xs \<Longrightarrow> f x = Inr (g x)) \<Longrightarrow> map_res f xs = Inr (map g xs)"
  by (induction xs) auto

lemma map_res_Inr_iff: "map_res f xs = Inr ys \<longleftrightarrow> list_all2 (\<lambda>x y. f x = Inr y) xs ys"
  by (induction xs arbitrary: ys) (auto simp: res_simps list_all2_Cons1)

lemma map_res_raises: "map_res f xs = Inl e \<Longrightarrow> \<exists>x \<in> set xs. f x = Inl e"
  by (induction xs) (auto simp: res_simps)

lemma map_res_Inl_iff: "(\<exists>e. map_res f xs = Inl e) \<longleftrightarrow> (\<exists>x \<in> set xs. \<exists>e. f x = Inl e)"
proof (induction xs)
  case (Cons x xs)
  then show ?case by (cases "f x"; cases "map_res f xs") auto
qed simp

section \<open>Text and byte strings\<close>

type_synonym byte = "8 word"
type_synonym bytes = "byte list"
type_synonym pystr = "nat list"

definition u :: "string \<Rightarrow> pystr" where
  "u s = map of_char s"

lemma u_eq_iff [simp]: "u s = u t \<longleftrightarrow> s = t"
proof -
  have "inj (of_char :: char \<Rightarrow> nat)"
    by (metis char_of_char injI)
  then show ?thesis
    by (simp add: u_def inj_map_eq_map)
qed

lemma u_Nil_iff [simp]: "u s = [] \<longleftrightarrow> s = []" "[] = u s \<longleftrightarrow> s = []"
  by (auto simp: u_def)

text \<open>\<open>int.from_bytes(bs, "big")\<close>.\<close>

definition from_bytes_big :: "bytes \<Rightarrow> nat" where
  "from_bytes_big bs = foldl (\<lambda>n b. n * 256 + unat b) 0 bs"

lemma from_bytes_big_Nil [simp]: "from_bytes_big [] = 0"
  by (simp add: from_bytes_big_def)

lemma from_bytes_big_snoc [simp]: "from_bytes_big (bs @ [b]) = from_bytes_big bs * 256 + unat b"
  by (simp add: from_bytes_big_def)

lemma unat_byte_less [simp]: "unat (b :: byte) < 256"
proof -
  have "unat b < 2 ^ LENGTH(8)" by (rule unsigned_less)
  then show ?thesis by simp
qed

lemma from_bytes_big_bound: "from_bytes_big bs < 2 ^ (8 * length bs)"
proof (induction bs rule: rev_induct)
  case (snoc b bs)
  have "unat b < 256" by simp
  moreover have "(from_bytes_big bs + 1) * 256 \<le> 2 ^ (8 * length bs) * 256"
    using snoc by (intro mult_le_mono1) simp
  ultimately show ?case
    by (simp add: power_add del: unat_byte_less)
qed simp

lemma base256_eq_iff:
  assumes "m < 256" and "n < (256 :: nat)"
  shows "p * 256 + m = q * 256 + n \<longleftrightarrow> p = q \<and> m = n"
proof
  assume eq: "p * 256 + m = q * 256 + n"
  then have "(p * 256 + m) div 256 = (q * 256 + n) div 256"
    by simp
  with assms have "p = q" by simp
  with eq show "p = q \<and> m = n" by simp
qed simp

lemma from_bytes_big_inj [id_simps]:
  "length a = length b \<Longrightarrow> from_bytes_big a = from_bytes_big b \<longleftrightarrow> a = b"
proof (induction a arbitrary: b rule: rev_induct)
  case (snoc x xs)
  then obtain y ys where b: "b = ys @ [y]" and len: "length xs = length ys"
    by (cases b rule: rev_cases) auto
  have "p * 256 + unat x = q * 256 + unat y \<longleftrightarrow> p = q \<and> unat x = unat y" for p q
    by (rule base256_eq_iff) simp_all
  with snoc.IH [OF len] b show ?case
    by (auto simp: word_unat_eq_iff)
qed simp

text \<open>\<open>int.bit_length()\<close> of a non-negative integer.\<close>

fun bit_length :: "nat \<Rightarrow> nat" where
  "bit_length n = (if n = 0 then 0 else Suc (bit_length (n div 2)))"

declare bit_length.simps [simp del]

lemma bit_length_0 [simp]: "bit_length 0 = 0"
  by (simp add: bit_length.simps)

lemma bit_length_le_iff: "bit_length n \<le> k \<longleftrightarrow> n < 2 ^ k"
proof (induction n arbitrary: k rule: bit_length.induct)
  case (1 n)
  show ?case
  proof (cases "n = 0")
    case False
    then have unfold: "bit_length n = Suc (bit_length (n div 2))"
      by (subst bit_length.simps) simp
    show ?thesis
    proof (cases k)
      case (Suc j)
      have "bit_length n \<le> k \<longleftrightarrow> n div 2 < 2 ^ j"
        using "1.IH" [OF False] Suc unfold by simp
      also have "\<dots> \<longleftrightarrow> n < 2 ^ k"
        using Suc by (simp add: less_mult_imp_div_less) linarith
      finally show ?thesis .
    qed (use False unfold in simp)
  qed simp
qed

lemma bit_length_pos_iff [simp]: "0 < bit_length n \<longleftrightarrow> n \<noteq> 0"
  by (subst bit_length.simps) simp

lemma bit_length_range:
  assumes "n \<noteq> 0"
  shows "2 ^ (bit_length n - 1) \<le> n" and "n < 2 ^ bit_length n"
proof -
  show "n < 2 ^ bit_length n"
    using bit_length_le_iff [of n "bit_length n"] by simp
  have "\<not> bit_length n \<le> bit_length n - 1"
    using assms by (metis Suc_diff_1 Suc_n_not_le_n bit_length_pos_iff)
  then show "2 ^ (bit_length n - 1) \<le> n"
    by (simp add: bit_length_le_iff)
qed

section \<open>Hexadecimal\<close>

definition hexdig :: "nat \<Rightarrow> nat" where
  "hexdig n = (if n < 10 then 48 + n else 87 + n)"

definition hexval :: "nat \<Rightarrow> nat option" where
  "hexval c =
     (if 48 \<le> c \<and> c \<le> 57 then Some (c - 48)
      else if 97 \<le> c \<and> c \<le> 102 then Some (c - 87)
      else if 65 \<le> c \<and> c \<le> 70 then Some (c - 55)
      else None)"

definition is_space :: "nat \<Rightarrow> bool" where
  "is_space c \<longleftrightarrow> c = 32 \<or> (9 \<le> c \<and> c \<le> 13)"

text \<open>\<open>bytes.hex()\<close>: two lower-case digits per byte.\<close>

fun bytes_hex :: "bytes \<Rightarrow> pystr" where
  "bytes_hex [] = []"
| "bytes_hex (b # bs) = hexdig (unat b div 16) # hexdig (unat b mod 16) # bytes_hex bs"

text \<open>
  \<open>bytes.fromhex(s)\<close>: ASCII white space is skipped between bytes; the digits of either case;
  anything else, or half a byte, raises \<open>ValueError\<close>.
\<close>

fun fromhex :: "pystr \<Rightarrow> bytes res" where
  "fromhex [] = Inr []"
| "fromhex [c] = (if is_space c then Inr [] else Inl ValueError)"
| "fromhex (c # d # cs) =
     (if is_space c then fromhex (d # cs)
      else case (hexval c, hexval d) of
        (Some a, Some b) \<Rightarrow> and_then (fromhex cs) (\<lambda>r. Inr (of_nat (16 * a + b) # r))
      | _ \<Rightarrow> Inl ValueError)"

lemma hexval_hexdig [simp]: "n < 16 \<Longrightarrow> hexval (hexdig n) = Some n"
  by (auto simp: hexval_def hexdig_def)

lemma not_space_hexdig [simp]: "n < 16 \<Longrightarrow> \<not> is_space (hexdig n)"
  by (auto simp: is_space_def hexdig_def)

lemma length_bytes_hex [simp]: "length (bytes_hex bs) = 2 * length bs"
  by (induction bs) auto

lemma fromhex_bytes_hex [simp]: "fromhex (bytes_hex bs) = Inr bs"
proof (induction bs)
  case (Cons b bs)
  have "unat b div 16 < 16" and "unat b mod 16 < 16"
    using unat_byte_less [of b] by (auto simp: less_mult_imp_div_less simp del: unat_byte_less)
  with Cons show ?case
    by simp
qed simp

lemma bytes_hex_inj [simp]: "bytes_hex a = bytes_hex b \<longleftrightarrow> a = b"
  by (metis fromhex_bytes_hex sum.inject(2))

lemma fromhex_raises_only_ValueError: "fromhex s = Inl e \<Longrightarrow> e = ValueError"
  by (induction s rule: fromhex.induct) (auto split: if_splits option.splits simp: res_simps)

section \<open>Stable sorting and selection\<close>

lemma sort_key_map:
  assumes "\<And>x. k' (g x) = k x"
  shows "sort_key k' (map g xs) = map g (sort_key k xs)"
proof -
  have "insort_key k' (g x) (map g ys) = map g (insort_key k x ys)" for x ys
    by (induction ys) (simp_all add: assms)
  then show ?thesis
    by (induction xs) simp_all
qed

lemma sort_key_stable_twice: "sort_key k (sort_key k xs) = sort_key k xs"
  by (rule sort_key_id_if_sorted) simp

lemma sorted_take_le_drop:
  assumes "sorted (map f xs)" and "x \<in> set (take n xs)" and "y \<in> set (drop n xs)"
  shows "f x \<le> f y"
proof -
  have "sorted (map f (take n xs) @ map f (drop n xs))"
    using assms(1) by (simp flip: map_append)
  with assms(2,3) show ?thesis
    by (auto simp: sorted_append)
qed

text \<open>
  The prefix of a stable sort: the \<open>n\<close> chosen elements are among the input, in ascending order,
  and no element left out has a smaller key than a chosen one.
\<close>

lemma take_sort_key_minimal:
  assumes "x \<in> set (take n (sort_key f xs))"
    and "y \<in># mset xs - mset (take n (sort_key f xs))"
  shows "f x \<le> f y"
proof -
  have "mset xs = mset (take n (sort_key f xs)) + mset (drop n (sort_key f xs))"
    by (metis append_take_drop_id mset_append mset_sort)
  then have "y \<in> set (drop n (sort_key f xs))"
    using assms(2) by (simp add: in_multiset_in_set)
  with assms(1) show ?thesis
    by (intro sorted_take_le_drop [of f "sort_key f xs"]) auto
qed

lemma sorted_take_sort_key [simp]: "sorted (map f (take n (sort_key f xs)))"
  by (metis sorted_sort_key sorted_wrt_take take_map)

lemma set_take_sort_key: "set (take n (sort_key f xs)) \<subseteq> set xs"
  by (metis set_sort set_take_subset)

lemma sort_key_decorated: "map snd (sort_key fst (map (\<lambda>c. (f c, c)) cs)) = sort_key f cs"
proof -
  have "insort_key fst (f c, c) (map (\<lambda>c. (f c, c)) xs) = map (\<lambda>c. (f c, c)) (insort_key f c xs)" for c xs
    by (induction xs) auto
  then have "sort_key fst (map (\<lambda>c. (f c, c)) cs) = map (\<lambda>c. (f c, c)) (sort_key f cs)"
    by (induction cs) auto
  then show ?thesis by (simp add: comp_def)
qed

lemma distinct_take_sort_key:
  "distinct (map f cs) \<Longrightarrow> distinct (map f (take n (sort_key g cs)))"
proof -
  assume "distinct (map f cs)"
  then have "distinct (map f (sort_key g cs))"
    by (simp add: distinct_map)
  then show ?thesis
    by (metis distinct_take take_map)
qed

text \<open>\<open>min(xs, key=key)\<close> on a non-empty list: the first element no later one is below.\<close>

definition min_by :: "('k \<Rightarrow> 'k \<Rightarrow> bool) \<Rightarrow> ('a \<Rightarrow> 'k) \<Rightarrow> 'a \<Rightarrow> 'a list \<Rightarrow> 'a" where
  "min_by lt key x xs = foldl (\<lambda>best y. if lt (key y) (key best) then y else best) x xs"

lemma min_by_in: "min_by lt key x xs \<in> insert x (set xs)"
proof (induction xs arbitrary: x)
  case (Cons y ys)
  show ?case
    using Cons [of x] Cons [of y] by (auto simp: min_by_def)
qed (simp add: min_by_def)

section \<open>Association lists as dictionaries\<close>

lemma distinct_keys_map_of:
  "distinct (map fst kvs) \<Longrightarrow> (k, v) \<in> set kvs \<longleftrightarrow> map_of kvs k = Some v"
  by (metis map_of_eq_Some_iff)

lemma dom_map_of_keys: "dom (map_of kvs) = fst ` set kvs"
  by (simp add: dom_map_of_conv_image_fst)

lemma distinct_keys_delete: "distinct (map fst kvs) \<Longrightarrow> distinct (map fst (AList.delete k kvs))"
  by (simp add: distinct_delete)

lemma set_update_subset: "set (AList.update k v kvs) \<subseteq> insert (k, v) (set kvs)"
  by (induction kvs) auto

lemma set_delete_subset: "set (AList.delete k kvs) \<subseteq> set kvs"
  by (induction kvs) auto

end
