(* ===== verification/Py_Float.thy ===== *)
theory Py_Float
  imports Mesh_Prelude Complex_Main
begin

text \<open>
  Python floats: IEEE 754 binary64 values with their comparisons, the subtraction and doubling the
  program performs on times, and the conversion of integers. A finite non-zero value or positive
  zero is \<open>FFin q\<close> with the rational it denotes; \<open>round64\<close> rounds a rational to the nearest double,
  ties to even, with subnormals and overflow to infinity, so every arithmetic operation below is
  the correctly rounded one.
\<close>

datatype pyfloat = FFin rat | FNegZero | FInf | FNegInf | FNaN

section \<open>Rounding\<close>

definition round_half_even :: "rat \<Rightarrow> int" where
  "round_half_even x =
     (let f = \<lfloor>x\<rfloor>; d = x - of_int f
      in if d < 1 / 2 then f else if d > 1 / 2 then f + 1 else if even f then f else f + 1)"

text \<open>\<open>2 ^ e\<close> for an integer exponent.\<close>

definition pow2 :: "int \<Rightarrow> rat" where
  "pow2 e = (if 0 \<le> e then 2 ^ nat e else 1 / 2 ^ nat (- e))"

text \<open>The binary exponent: the \<open>e\<close> with \<open>2 ^ e \<le> \<bar>q\<bar> < 2 ^ (e + 1)\<close>, for \<open>q \<noteq> 0\<close>.\<close>

definition float_exp :: "rat \<Rightarrow> int" where
  "float_exp q =
     (let (n, d) = quotient_of \<bar>q\<bar>;
          k = int (bit_length (nat n)) - int (bit_length (nat d))
      in if pow2 k \<le> \<bar>q\<bar> then k else k - 1)"

definition round64 :: "rat \<Rightarrow> pyfloat" where
  "round64 q =
     (if q = 0 then FFin 0
      else let e = max (float_exp q - 52) (- 1074);
               v = of_int (round_half_even (q / pow2 e)) * pow2 e
           in if v \<ge> 2 ^ 1024 then FInf
              else if v \<le> - (2 ^ 1024) then FNegInf
              else if v = 0 \<and> q < 0 then FNegZero
              else FFin v)"

section \<open>Comparison and arithmetic\<close>

definition fval :: "pyfloat \<Rightarrow> rat" where
  "fval x = (case x of FFin q \<Rightarrow> q | _ \<Rightarrow> 0)"

fun fle :: "pyfloat \<Rightarrow> pyfloat \<Rightarrow> bool" where
  "fle FNaN _ = False"
| "fle _ FNaN = False"
| "fle FNegInf _ = True"
| "fle _ FInf = True"
| "fle FInf _ = False"
| "fle _ FNegInf = False"
| "fle x y = (fval x \<le> fval y)"

fun flt :: "pyfloat \<Rightarrow> pyfloat \<Rightarrow> bool" where
  "flt FNaN _ = False"
| "flt _ FNaN = False"
| "flt x y = (\<not> fle y x)"

fun fsub :: "pyfloat \<Rightarrow> pyfloat \<Rightarrow> pyfloat" where
  "fsub FNaN _ = FNaN"
| "fsub _ FNaN = FNaN"
| "fsub FInf FInf = FNaN"
| "fsub FNegInf FNegInf = FNaN"
| "fsub FInf _ = FInf"
| "fsub FNegInf _ = FNegInf"
| "fsub _ FInf = FNegInf"
| "fsub _ FNegInf = FInf"
| "fsub FNegZero (FFin q) = (if q = 0 then FNegZero else round64 (- q))"
| "fsub x y = round64 (fval x - fval y)"

fun fdouble :: "pyfloat \<Rightarrow> pyfloat" where
  "fdouble (FFin q) = round64 (2 * q)"
| "fdouble x = x"

text \<open>\<open>float(n)\<close> of an integer: correctly rounded, \<open>OverflowError\<close> beyond the range.\<close>

definition float_of_int :: "int \<Rightarrow> pyfloat res" where
  "float_of_int n =
     (case round64 (of_int n) of FInf \<Rightarrow> Inl OverflowError | FNegInf \<Rightarrow> Inl OverflowError | x \<Rightarrow> Inr x)"

section \<open>Order\<close>

definition is_nan :: "pyfloat \<Rightarrow> bool" where
  "is_nan x \<longleftrightarrow> x = FNaN"

lemma fle_refl: "\<not> is_nan x \<Longrightarrow> fle x x"
  by (cases x) (auto simp: is_nan_def)

lemma fle_total: "\<not> is_nan x \<Longrightarrow> \<not> is_nan y \<Longrightarrow> fle x y \<or> fle y x"
  by (cases x; cases y) (auto simp: is_nan_def fval_def)

lemma fle_trans: "fle x y \<Longrightarrow> fle y z \<Longrightarrow> fle x z"
  by (cases x; cases y; cases z) (auto simp: fval_def)

lemma flt_iff: "flt x y \<longleftrightarrow> \<not> is_nan x \<and> \<not> is_nan y \<and> \<not> fle y x"
  by (cases x; cases y) (auto simp: is_nan_def)

lemma not_flt_iff: "\<not> is_nan x \<Longrightarrow> \<not> is_nan y \<Longrightarrow> \<not> flt x y \<longleftrightarrow> fle y x"
  by (auto simp: flt_iff)

lemma flt_trans:
  assumes "flt x y" and "flt y z"
  shows "flt x z"
proof -
  have "fle x y"
    using assms(1) fle_total [of x y] by (auto simp: flt_iff)
  then have "\<not> fle z x"
    using assms(2) fle_trans [of z x y] by (auto simp: flt_iff)
  with assms show ?thesis by (auto simp: flt_iff)
qed

lemma fle_nan [simp]: "\<not> fle x FNaN"
  by (cases x) simp_all

lemma fle_not_nan: "fle x y \<Longrightarrow> \<not> is_nan x \<and> \<not> is_nan y"
  unfolding is_nan_def by (metis fle.simps(1) fle_nan)

section \<open>Exactness of rounding on small values\<close>

lemma pow2_pos [simp]: "0 < pow2 e"
  by (simp add: pow2_def)

lemma pow2_neq_0 [simp]: "pow2 e \<noteq> 0"
  using pow2_pos [of e] by linarith

lemma pow2_eq_powr: "pow2 e = 2 powi e"
  by (simp add: pow2_def power_int_def power_one_over inverse_eq_divide)

lemma pow2_add: "pow2 (a + b) = pow2 a * pow2 b"
  by (simp add: pow2_eq_powr power_int_add)

lemma round_half_even_of_int [simp]: "round_half_even (of_int n) = n"
  by (simp add: round_half_even_def)

lemma round_half_even_mono:
  assumes "x \<le> y"
  shows "round_half_even x \<le> round_half_even y"
proof -
  show ?thesis
  proof (cases "\<lfloor>x\<rfloor> = \<lfloor>y\<rfloor>")
    case True
    with assms show ?thesis
      by (auto simp: round_half_even_def Let_def)
  next
    case False
    with assms have "\<lfloor>x\<rfloor> + 1 \<le> \<lfloor>y\<rfloor>"
      using floor_mono [OF assms] by linarith
    moreover have "round_half_even x \<le> \<lfloor>x\<rfloor> + 1" and "\<lfloor>y\<rfloor> \<le> round_half_even y"
      by (auto simp: round_half_even_def Let_def)
    ultimately show ?thesis by linarith
  qed
qed

lemma round_half_even_minus: "round_half_even (- x) = - round_half_even x"
proof (cases "x = of_int \<lfloor>x\<rfloor>")
  case True
  then show ?thesis
    by (metis of_int_minus round_half_even_of_int)
next
  case False
  have "of_int \<lfloor>x\<rfloor> < x" and "x < of_int \<lfloor>x\<rfloor> + 1"
    using False of_int_floor_le [of x] by linarith+
  then have "\<lfloor>- x\<rfloor> = - \<lfloor>x\<rfloor> - 1"
    by (intro floor_unique) auto
  then show ?thesis
    by (auto simp: round_half_even_def Let_def)
qed

lemma pow2_less_iff [simp]: "pow2 a < pow2 b \<longleftrightarrow> a < b"
proof -
  have "pow2 m < pow2 n" if "m < n" for m n
    using power_int_strict_increasing [OF that, of "2 :: rat"] by (simp add: pow2_eq_powr)
  then show ?thesis
    by (metis less_asym linorder_neqE)
qed

lemma pow2_le_iff [simp]: "pow2 a \<le> pow2 b \<longleftrightarrow> a \<le> b"
  by (simp flip: not_less)

lemma pow2_nat: "pow2 (int n) = 2 ^ n"
  by (simp add: pow2_def)

lemma bit_length_pow2:
  assumes "0 < n"
  shows "pow2 (int (bit_length (nat n)) - 1) \<le> of_int n" and "of_int n < pow2 (int (bit_length (nat n)))"
proof -
  let ?b = "bit_length (nat n)"
  have "2 ^ (?b - 1) \<le> nat n" and "nat n < 2 ^ ?b" and b: "0 < ?b"
    using bit_length_range [of "nat n"] assms by auto
  then have "(2 :: int) ^ (?b - 1) \<le> n" and "n < 2 ^ ?b"
    using assms by (simp_all add: le_nat_iff nat_less_iff)
  then have "(2 :: rat) ^ (?b - 1) \<le> of_int n" and "(of_int n :: rat) < 2 ^ ?b"
    by (metis of_int_le_iff of_int_numeral of_int_power, metis of_int_less_iff of_int_numeral of_int_power)
  moreover have "int ?b - 1 = int (?b - 1)"
    using b by linarith
  ultimately show "pow2 (int ?b - 1) \<le> of_int n" and "of_int n < pow2 (int ?b)"
    by (simp_all only: pow2_nat)
qed

lemma float_exp_range:
  assumes "q \<noteq> 0"
  shows "pow2 (float_exp q) \<le> \<bar>q\<bar>" and "\<bar>q\<bar> < pow2 (float_exp q + 1)"
proof -
  obtain n d where nd: "quotient_of \<bar>q\<bar> = (n, d)"
    by fastforce
  have d: "0 < d" and q: "\<bar>q\<bar> = of_int n / of_int d"
    using quotient_of_denom_pos [OF nd] quotient_of_div [OF nd] by auto
  have n: "0 < n"
    using assms q d by (metis of_int_0_less_iff zero_less_abs_iff zero_less_divide_iff not_less_iff_gr_or_eq)
  define k where "k = int (bit_length (nat n)) - int (bit_length (nat d))"
  have "\<bar>q\<bar> < pow2 (int (bit_length (nat n))) / pow2 (int (bit_length (nat d)) - 1)"
    unfolding q using bit_length_pow2 [OF n] bit_length_pow2 [OF d] d n
    by (intro frac_less) auto
  also have "\<dots> = pow2 (k + 1)"
    by (simp add: k_def divide_eq_eq flip: pow2_add)
  finally have hi: "\<bar>q\<bar> < pow2 (k + 1)" .
  have "pow2 (int (bit_length (nat n)) - 1) / pow2 (int (bit_length (nat d))) \<le> \<bar>q\<bar>"
    unfolding q using bit_length_pow2 [OF n] bit_length_pow2 [OF d] d n
    by (intro frac_le) auto
  moreover have "pow2 (int (bit_length (nat n)) - 1) / pow2 (int (bit_length (nat d))) = pow2 (k - 1)"
    by (simp add: k_def divide_eq_eq flip: pow2_add)
  ultimately have lo: "pow2 (k - 1) \<le> \<bar>q\<bar>"
    by simp
  have fe: "float_exp q = (if pow2 k \<le> \<bar>q\<bar> then k else k - 1)"
    by (simp add: float_exp_def nd k_def Let_def)
  show "pow2 (float_exp q) \<le> \<bar>q\<bar>" and "\<bar>q\<bar> < pow2 (float_exp q + 1)"
    using fe hi lo by (auto split: if_splits)
qed

lemma float_exp_minus [simp]: "float_exp (- q) = float_exp q"
  by (simp add: float_exp_def)

lemma float_exp_mono: "0 < q \<Longrightarrow> q \<le> r \<Longrightarrow> float_exp q \<le> float_exp r"
proof -
  assume "0 < q" "q \<le> r"
  then have "pow2 (float_exp q) < pow2 (float_exp r + 1)"
    using float_exp_range(1) [of q] float_exp_range(2) [of r] by linarith
  then show ?thesis by simp
qed

text \<open>The rounded value before the range check, and its sign symmetry.\<close>

definition rnd_exp :: "rat \<Rightarrow> int" where
  "rnd_exp q = max (float_exp q - 52) (- 1074)"

definition rnd :: "rat \<Rightarrow> rat" where
  "rnd q = (if q = 0 then 0 else of_int (round_half_even (q / pow2 (rnd_exp q))) * pow2 (rnd_exp q))"

lemma rnd_minus: "rnd (- q) = - rnd q"
  by (simp add: rnd_def rnd_exp_def round_half_even_minus)

lemma round64_rnd:
  "round64 q = (if rnd q \<ge> 2 ^ 1024 then FInf else if rnd q \<le> - (2 ^ 1024) then FNegInf
     else if rnd q = 0 \<and> q < 0 then FNegZero else FFin (rnd q))"
  by (simp add: round64_def rnd_def rnd_exp_def Let_def)

lemma pow2_of_int: "pow2 52 = of_int (2 ^ 52)" "pow2 53 = of_int (2 ^ 53)"
  by (simp_all add: pow2_def)

lemma rnd_mono_pos:
  assumes "0 < q" and "q \<le> r"
  shows "rnd q \<le> rnd r"
proof (cases "rnd_exp q = rnd_exp r")
  case True
  have "q / pow2 (rnd_exp r) \<le> r / pow2 (rnd_exp r)"
    using assms by (simp add: divide_right_mono less_imp_le)
  with True show ?thesis
    using assms by (simp add: rnd_def round_half_even_mono)
next
  case False
  then have lt: "rnd_exp q < rnd_exp r" and er: "rnd_exp r = float_exp r - 52"
    using float_exp_mono [OF assms] by (auto simp: rnd_exp_def)
  have "q / pow2 (rnd_exp q) \<le> pow2 53"
  proof -
    have "q < pow2 (float_exp q + 1)"
      using float_exp_range(2) [of q] assms by simp
    also have "\<dots> \<le> pow2 (53 + rnd_exp q)"
      by (simp add: rnd_exp_def)
    finally show ?thesis
      by (simp add: pow2_add divide_le_eq)
  qed
  then have "round_half_even (q / pow2 (rnd_exp q)) \<le> 2 ^ 53"
    using round_half_even_mono [of "q / pow2 (rnd_exp q)" "of_int (2 ^ 53)"]
    unfolding pow2_of_int round_half_even_of_int by simp
  then have "of_int (round_half_even (q / pow2 (rnd_exp q))) \<le> pow2 53"
    unfolding pow2_of_int by (simp only: of_int_le_iff)
  then have "rnd q \<le> pow2 53 * pow2 (rnd_exp q)"
    using assms by (simp add: rnd_def)
  also have "\<dots> \<le> pow2 52 * pow2 (rnd_exp r)"
    using lt by (simp flip: pow2_add)
  also have "\<dots> \<le> rnd r"
  proof -
    have "pow2 (52 + rnd_exp r) \<le> r"
      using float_exp_range(1) [of r] assms er by simp
    then have "pow2 52 \<le> r / pow2 (rnd_exp r)"
      by (simp add: pow2_add le_divide_eq)
    then have "2 ^ 52 \<le> round_half_even (r / pow2 (rnd_exp r))"
      using round_half_even_mono [of "of_int (2 ^ 52)" "r / pow2 (rnd_exp r)"]
      unfolding pow2_of_int round_half_even_of_int by simp
    then have "pow2 52 \<le> of_int (round_half_even (r / pow2 (rnd_exp r)))"
      unfolding pow2_of_int by (simp only: of_int_le_iff)
    then show ?thesis
      using assms by (simp add: rnd_def)
  qed
  finally show ?thesis .
qed

lemma rnd_nonneg: "0 \<le> q \<Longrightarrow> 0 \<le> rnd q"
  using round_half_even_mono [of 0 "q / pow2 (rnd_exp q)"] round_half_even_of_int [of 0]
  by (simp add: rnd_def less_imp_le)

lemma rnd_mono: "q \<le> r \<Longrightarrow> rnd q \<le> rnd r"
proof -
  assume le: "q \<le> r"
  consider "0 < q" | "q \<le> 0" "0 \<le> r" | "r < 0"
    using le by linarith
  then show ?thesis
  proof cases
    case 1
    then show ?thesis using rnd_mono_pos le by blast
  next
    case 2
    then have "0 \<le> rnd (- q)" and "0 \<le> rnd r"
      by (simp_all add: rnd_nonneg)
    then show ?thesis by (simp add: rnd_minus)
  next
    case 3
    then have "rnd (- r) \<le> rnd (- q)"
      using rnd_mono_pos [of "- r" "- q"] le by simp
    then show ?thesis by (simp add: rnd_minus)
  qed
qed

text \<open>Rounding keeps the order, so a comparison of a rounded difference with a double is exact enough.\<close>

lemma round64_mono: "q \<le> r \<Longrightarrow> fle (round64 q) (round64 r)"
  using rnd_mono [of q r] by (auto simp: round64_rnd fval_def)

lemma round64_not_nan [simp]: "\<not> is_nan (round64 q)"
  by (simp add: round64_rnd is_nan_def)

text \<open>Integers below \<open>2 ^ 53\<close> are doubles.\<close>

lemma rnd_of_int:
  assumes "\<bar>n\<bar> < 2 ^ 53"
  shows "rnd (of_int n) = of_int n"
proof (cases "n = 0")
  case False
  let ?q = "of_int n :: rat" and ?e = "rnd_exp (of_int n)"
  have "pow2 (float_exp ?q) \<le> \<bar>?q\<bar>"
    using float_exp_range(1) [of ?q] False by simp
  also have "\<bar>?q\<bar> < pow2 53"
    using assms unfolding pow2_of_int by (simp flip: of_int_abs)
  finally have "float_exp ?q \<le> 52" by simp
  then have "?e \<le> 0" by (simp add: rnd_exp_def)
  then have "?q / pow2 ?e = of_int (n * 2 ^ nat (- ?e))"
    by (simp add: pow2_def)
  then have "round_half_even (?q / pow2 ?e) = n * 2 ^ nat (- ?e)"
    by (simp only: round_half_even_of_int)
  with \<open>?e \<le> 0\<close> False show ?thesis
    by (simp add: rnd_def pow2_def)
qed (simp add: rnd_def)

lemma round64_of_int:
  assumes "\<bar>n\<bar> < 2 ^ 53"
  shows "round64 (of_int n) = FFin (of_int n)"
proof -
  have "\<bar>of_int n :: rat\<bar> < of_int (2 ^ 53)"
    using assms by (simp only: of_int_less_iff flip: of_int_abs)
  then have "\<bar>of_int n :: rat\<bar> < 2 ^ 1024" by simp
  then show ?thesis
    by (auto simp: round64_rnd rnd_of_int [OF assms])
qed

lemma fsub_of_int: "\<bar>m - n\<bar> < 2 ^ 53 \<Longrightarrow> fsub (FFin (of_int m)) (FFin (of_int n)) = FFin (of_int (m - n))"
  using round64_of_int [of "m - n"] by (simp add: fval_def)

section \<open>Doubles\<close>

lemma round_half_even_near:
  assumes "\<bar>x - of_int n\<bar> < 1 / 2"
  shows "round_half_even x = n"
proof (cases "of_int n \<le> x")
  case True
  then have "\<lfloor>x\<rfloor> = n"
    using assms by (intro floor_unique) linarith+
  with True assms show ?thesis
    by (simp add: round_half_even_def)
next
  case False
  then have "\<lfloor>x\<rfloor> = n - 1"
    using assms by (intro floor_unique) (simp_all add: abs_if split: if_splits)
  with False assms show ?thesis
    by (simp add: round_half_even_def)
qed

lemma round_half_even_error: "\<bar>of_int (round_half_even x) - x\<bar> \<le> 1 / 2"
proof -
  have "of_int \<lfloor>x\<rfloor> \<le> x" "x < of_int \<lfloor>x\<rfloor> + 1" by linarith+
  then show ?thesis
    by (auto simp: round_half_even_def Let_def abs_le_iff)
qed

lemma rnd_near:
  assumes "x \<noteq> 0" and "q = of_int n * pow2 (rnd_exp x)" and "\<bar>x - q\<bar> < pow2 (rnd_exp x) / 2"
  shows "rnd x = q"
proof -
  let ?p = "pow2 (rnd_exp x)"
  have "x / ?p - of_int n = (x - q) / ?p"
    using assms(2) by (simp add: diff_divide_distrib)
  then have "\<bar>x / ?p - of_int n\<bar> = \<bar>x - q\<bar> / ?p"
    by (simp add: abs_of_pos)
  also have "\<dots> < 1 / 2"
    using assms(3) by (simp add: divide_less_eq)
  finally show ?thesis
    using assms(1,2) by (simp add: rnd_def round_half_even_near)
qed

lemma float_exp_eq:
  assumes "pow2 e \<le> q" and "q < pow2 (e + 1)"
  shows "float_exp q = e"
proof -
  have "0 < q" using assms(1) pow2_pos [of e] by linarith
  then have "pow2 (float_exp q) \<le> q" "q < pow2 (float_exp q + 1)"
    using float_exp_range [of q] by simp_all
  then have "pow2 (float_exp q) < pow2 (e + 1)" "pow2 e < pow2 (float_exp q + 1)"
    using assms by linarith+
  then show ?thesis by simp
qed

text \<open>Powers of two are doubles.\<close>

lemma rnd_pow2:
  assumes "- 1022 \<le> e"
  shows "rnd (pow2 e) = pow2 e"
proof -
  have e: "float_exp (pow2 e) = e"
    by (rule float_exp_eq) simp_all
  have "rnd_exp (pow2 e) = e - 52"
    using assms by (simp add: rnd_exp_def e)
  moreover have "pow2 e = of_int (2 ^ 52) * pow2 (e - 52)"
    unfolding pow2_of_int(1) [symmetric] by (simp flip: pow2_add)
  ultimately show ?thesis
    by (intro rnd_near) simp_all
qed

text \<open>A double is what a number rounds to when it differs from it by at most half a unit of its 17th digit.\<close>

lemma rnd_close:
  assumes pos: "0 < q" and double: "rnd q = q" and close: "\<bar>x - q\<bar> \<le> q / (2 * 10 ^ 16)"
  shows "rnd x = q"
proof -
  define fe E P where "fe = float_exp q" and "E = rnd_exp q" and "P = pow2 E"
  define n where "n = round_half_even (q / P)"
  have P: "0 < P" by (simp add: P_def)
  have n: "q = of_int n * P"
    using double pos by (simp add: rnd_def n_def P_def E_def)
  have E: "fe - 52 \<le> E" "- 1074 \<le> E" "E = fe - 52 \<or> E = - 1074"
    by (auto simp: E_def fe_def rnd_exp_def)
  have q: "pow2 fe \<le> q" "q < pow2 (fe + 1)"
    using float_exp_range [of q] pos by (simp_all add: fe_def)
  have P53: "pow2 (53 + E) = 2 ^ 53 * P"
    by (simp add: pow2_add P_def) (simp add: pow2_def)
  have "q < 2 ^ 53 * P"
    using q(2) E(1) pow2_le_iff [of "fe + 1" "53 + E"] P53 by linarith
  then have "of_int n < (of_int (2 ^ 53) :: rat)"
    using P by (simp add: n)
  then have n53: "n \<le> 2 ^ 53 - 1"
    unfolding of_int_less_iff by linarith
  then have "of_int n * P \<le> of_int (2 ^ 53 - 1) * P"
    using P by (intro mult_right_mono) (simp_all only: of_int_le_iff less_imp_le)
  then have q53: "q \<le> (2 ^ 53 - 1) * P"
    by (simp add: n)
  have err: "\<bar>x - q\<bar> < P / 2"
    using close q53 P by (simp add: field_simps)
  have x: "x < pow2 (53 + E)" "0 < x" "pow2 (fe - 1) < x"
  proof -
    show "x < pow2 (53 + E)"
    proof -
      have "x - q < P / 2" using err by linarith
      then show ?thesis
        using q53 P unfolding P53 by (simp add: algebra_simps)
    qed
    have half: "q / 2 < x"
    proof -
      have "q - x \<le> q / (2 * 10 ^ 16)" using close by linarith
      also have "\<dots> < q / 2" using pos by simp
      finally show ?thesis by linarith
    qed
    then show "0 < x" using pos by linarith
    have "pow2 fe = 2 * pow2 (fe - 1)"
      using pow2_add [of 1 "fe - 1"] by (simp add: pow2_def [of 1])
    then show "pow2 (fe - 1) < x"
      using half q(1) by linarith
  qed
  have fx: "pow2 (float_exp x) \<le> x" "x < pow2 (float_exp x + 1)"
    using float_exp_range [of x] x(2) by simp_all
  have "float_exp x < 53 + E"
    using fx(1) x(1) pow2_less_iff by (metis le_less_trans)
  then have le: "rnd_exp x \<le> E"
    using E(2) by (simp add: rnd_exp_def)
  have ge: "fe - 1 < float_exp x + 1"
    using fx(2) x(3) pow2_less_iff by (metis less_trans)
  show ?thesis
  proof (cases "rnd_exp x = E")
    case True
    then show ?thesis
      using rnd_near [of x q n] x(2) n err by (simp add: P_def)
  next
    case False
    then have exps: "float_exp x = fe - 1" "E = fe - 52" "rnd_exp x = E - 1"
      using le ge E by (auto simp: rnd_exp_def)
    have half: "P = 2 * pow2 (E - 1)"
      using pow2_add [of 1 "E - 1"] by (simp add: P_def pow2_def [of 1])
    have P52: "pow2 fe = 2 ^ 52 * P"
      using pow2_add [of 52 E] exps(2) by (simp add: P_def pow2_def [of 52])
    have "x < 2 ^ 52 * P"
      using fx(2) by (simp add: exps(1) P52)
    then have "of_int n * P < (2 ^ 52 + 1) * P"
    proof -
      have "q - x < P / 2" using err by linarith
      with \<open>x < 2 ^ 52 * P\<close> P show ?thesis
        unfolding n [symmetric] by (simp add: algebra_simps)
    qed
    then have "of_int n < (of_int (2 ^ 52 + 1) :: rat)"
      using P by simp
    then have "n \<le> 2 ^ 52"
      unfolding of_int_less_iff by linarith
    then have "of_int n * P \<le> of_int (2 ^ 52) * P"
      using P by (intro mult_right_mono) (simp_all only: of_int_le_iff less_imp_le)
    then have "q = 2 ^ 52 * P"
      using q(1) by (simp add: n P52)
    then have qR: "q = of_int (2 ^ 53) * pow2 (rnd_exp x)"
      by (simp add: half exps(3))
    have "\<bar>x - q\<bar> \<le> 2 ^ 53 * pow2 (rnd_exp x) / (2 * 10 ^ 16)"
      using close by (simp add: qR)
    also have "\<dots> < pow2 (rnd_exp x) / 2"
      using pow2_pos [of "rnd_exp x"] by (simp add: field_simps)
    finally have "\<bar>x - q\<bar> < pow2 (rnd_exp x) / 2" .
    with qR show ?thesis
      using rnd_near [of x q "2 ^ 53"] x(2) by simp
  qed
qed

text \<open>Rounding gives a double: a value that rounds to itself.\<close>

lemma rnd_multiple:
  assumes "- 1074 \<le> e" and "\<bar>n\<bar> \<le> 2 ^ 53"
  shows "rnd (of_int n * pow2 e) = of_int n * pow2 e"
proof (cases "n = 0")
  case False
  define v where "v = of_int n * pow2 e"
  have v: "v \<noteq> 0" "\<bar>v\<bar> = of_int \<bar>n\<bar> * pow2 e"
    using False by (simp_all add: v_def abs_mult abs_of_pos)
  have fixed: "rnd v = v" if "v = of_int m * pow2 (rnd_exp v)" for m
    using rnd_near [OF v(1) that] by simp
  show ?thesis
  proof (cases "rnd_exp v \<le> e")
    case True
    then have "pow2 e = 2 ^ nat (e - rnd_exp v) * pow2 (rnd_exp v)"
      using pow2_add [of "e - rnd_exp v" "rnd_exp v"] by (simp add: pow2_def [of "e - rnd_exp v"])
    then have "v = of_int (n * 2 ^ nat (e - rnd_exp v)) * pow2 (rnd_exp v)"
      by (simp add: v_def)
    from fixed [OF this] show ?thesis
      by (simp only: v_def)
  next
    case False
    then have "e + 53 \<le> float_exp v"
      using assms(1) by (simp add: rnd_exp_def)
    then have "pow2 (e + 53) \<le> \<bar>v\<bar>"
      using float_exp_range(1) [OF v(1)] pow2_le_iff by (meson order_trans)
    moreover have e53: "pow2 (e + 53) = of_int (2 ^ 53) * pow2 e"
      by (simp add: pow2_add pow2_def [of 53])
    ultimately have "of_int (2 ^ 53) \<le> (of_int \<bar>n\<bar> :: rat)"
      unfolding v(2) by simp
    then have n: "\<bar>n\<bar> = 2 ^ 53"
      using assms(2) unfolding of_int_le_iff by simp
    then have "\<bar>v\<bar> = pow2 (e + 53)"
      unfolding v(2) e53 by simp
    then have "float_exp \<bar>v\<bar> = e + 53"
      by (intro float_exp_eq) simp_all
    then have "float_exp v = e + 53"
      by (cases "0 \<le> v") simp_all
    then have "rnd_exp v = e + 1"
      using assms(1) by (simp add: rnd_exp_def)
    moreover have "pow2 (e + 1) = 2 * pow2 e"
      by (simp add: pow2_add pow2_def [of 1])
    moreover obtain m where "n = 2 * m"
    proof -
      have "even \<bar>n\<bar>" by (simp add: n)
      then show ?thesis using that by (auto elim: evenE)
    qed
    ultimately have "v = of_int m * pow2 (rnd_exp v)"
      by (simp add: v_def)
    from fixed [OF this] show ?thesis
      by (simp only: v_def)
  qed
qed (simp add: rnd_def)

lemma rnd_idem: "rnd (rnd q) = rnd q"
proof (cases "q = 0")
  case False
  let ?x = "q / pow2 (rnd_exp q)"
  have "\<bar>q\<bar> < pow2 (float_exp q + 1)"
    using float_exp_range(2) [OF False] .
  also have "\<dots> \<le> pow2 (53 + rnd_exp q)"
    by (simp add: rnd_exp_def)
  finally have "\<bar>q\<bar> \<le> 2 ^ 53 * pow2 (rnd_exp q)"
    by (simp add: pow2_add pow2_def [of 53])
  then have "\<bar>?x\<bar> \<le> of_int (2 ^ 53)"
    by (simp add: abs_divide abs_of_pos divide_le_eq)
  then have "- of_int (2 ^ 53) \<le> ?x" "?x \<le> of_int (2 ^ 53)"
    unfolding abs_le_iff by simp_all
  then have "round_half_even (of_int (- (2 ^ 53))) \<le> round_half_even ?x" "round_half_even ?x \<le> round_half_even (of_int (2 ^ 53))"
    by (intro round_half_even_mono; simp)+
  then have "\<bar>round_half_even ?x\<bar> \<le> 2 ^ 53"
    unfolding round_half_even_of_int by simp
  then show ?thesis
    using rnd_multiple [of "rnd_exp q" "round_half_even ?x"] False by (simp add: rnd_def [of q] rnd_exp_def)
qed (simp add: rnd_def)

text \<open>The values a Python float has: those \<open>round64\<close> gives.\<close>

definition float_ok :: "pyfloat \<Rightarrow> bool" where
  "float_ok x = (case x of FFin q \<Rightarrow> rnd q = q \<and> \<bar>q\<bar> < 2 ^ 1024 | _ \<Rightarrow> True)"

lemma float_ok_round64 [simp]: "float_ok (round64 q)"
  by (auto simp: float_ok_def round64_rnd rnd_idem abs_less_iff)

lemma float_ok_of_int: "\<bar>n\<bar> < 2 ^ 53 \<Longrightarrow> float_ok (FFin (of_int n))"
  using float_ok_round64 [of "of_int n"] by (simp add: round64_of_int)

lemma float_ok_fsub: "float_ok x \<Longrightarrow> float_ok y \<Longrightarrow> float_ok (fsub x y)"
  by (cases "(x, y)" rule: fsub.cases) (simp_all add: float_ok_def [of FNegZero] float_ok_def [of FNaN] float_ok_def [of FInf] float_ok_def [of FNegInf])

end
