(* ===== verification/Py_Text.thy ===== *)
theory Py_Text
  imports Mesh_Prelude
begin

text \<open>
  The text encodings the program goes through: \<open>str.encode("utf-8")\<close>, \<open>bytes.decode("utf-8")\<close>
  (strict: no overlong form, no surrogate, nothing above U+10FFFF) and the ASCII codec, with the
  lemma that decoding undoes encoding.
\<close>

section \<open>UTF-8\<close>

definition is_surrogate :: "nat \<Rightarrow> bool" where
  "is_surrogate c \<longleftrightarrow> 0xD800 \<le> c \<and> c \<le> 0xDFFF"

definition byte_of :: "nat \<Rightarrow> byte" where
  "byte_of n = of_nat n"

definition utf8_char :: "nat \<Rightarrow> bytes res" where
  "utf8_char c =
     (if c < 0x80 then Inr [byte_of c]
      else if c < 0x800 then Inr [byte_of (0xC0 + c div 64), byte_of (0x80 + c mod 64)]
      else if is_surrogate c then Inl UnicodeEncodeError
      else if c < 0x10000 then
        Inr [byte_of (0xE0 + c div 4096), byte_of (0x80 + c div 64 mod 64), byte_of (0x80 + c mod 64)]
      else if c < 0x110000 then
        Inr [byte_of (0xF0 + c div 262144), byte_of (0x80 + c div 4096 mod 64),
             byte_of (0x80 + c div 64 mod 64), byte_of (0x80 + c mod 64)]
      else Inl UnicodeEncodeError)"

fun utf8_encode :: "pystr \<Rightarrow> bytes res" where
  "utf8_encode [] = Inr []"
| "utf8_encode (c # cs) =
     and_then (utf8_char c) (\<lambda>bs. and_then (utf8_encode cs) (\<lambda>r. Inr (bs @ r)))"

definition is_cont :: "byte \<Rightarrow> bool" where
  "is_cont b \<longleftrightarrow> 0x80 \<le> unat b \<and> unat b < 0xC0"

text \<open>One character off the front of a byte string: its code point and what follows it.\<close>

fun utf8_next :: "bytes \<Rightarrow> (nat \<times> bytes) res" where
  "utf8_next [] = Inl UnicodeDecodeError"
| "utf8_next (b # bs) =
     (let n = unat b in
      if n < 0x80 then Inr (n, bs)
      else if 0xC0 \<le> n \<and> n < 0xE0 then
        (case bs of
           b1 # r \<Rightarrow>
             (let c = (n - 0xC0) * 64 + (unat b1 - 0x80) in
              if is_cont b1 \<and> 0x80 \<le> c then Inr (c, r) else Inl UnicodeDecodeError)
         | _ \<Rightarrow> Inl UnicodeDecodeError)
      else if 0xE0 \<le> n \<and> n < 0xF0 then
        (case bs of
           b1 # b2 # r \<Rightarrow>
             (let c = (n - 0xE0) * 4096 + (unat b1 - 0x80) * 64 + (unat b2 - 0x80) in
              if is_cont b1 \<and> is_cont b2 \<and> 0x800 \<le> c \<and> \<not> is_surrogate c
              then Inr (c, r) else Inl UnicodeDecodeError)
         | _ \<Rightarrow> Inl UnicodeDecodeError)
      else if 0xF0 \<le> n \<and> n < 0xF8 then
        (case bs of
           b1 # b2 # b3 # r \<Rightarrow>
             (let c = (n - 0xF0) * 262144 + (unat b1 - 0x80) * 4096
                        + (unat b2 - 0x80) * 64 + (unat b3 - 0x80) in
              if is_cont b1 \<and> is_cont b2 \<and> is_cont b3 \<and> 0x10000 \<le> c \<and> c < 0x110000
              then Inr (c, r) else Inl UnicodeDecodeError)
         | _ \<Rightarrow> Inl UnicodeDecodeError)
      else Inl UnicodeDecodeError)"

lemma utf8_next_shorter: "utf8_next bs = Inr (c, r) \<Longrightarrow> length r < length bs"
  by (induction bs rule: utf8_next.induct)
     (auto simp: Let_def split: if_splits list.splits)

function utf8_decode :: "bytes \<Rightarrow> pystr res" where
  "utf8_decode bs =
     (if bs = [] then Inr []
      else case utf8_next bs of
        Inl e \<Rightarrow> Inl e
      | Inr (c, r) \<Rightarrow> and_then (utf8_decode r) (\<lambda>cs. Inr (c # cs)))"
  by pat_completeness auto
termination
  by (relation "measure length") (auto intro: utf8_next_shorter)

declare utf8_decode.simps [simp del]

lemma utf8_decode_Nil [simp]: "utf8_decode [] = Inr []"
  by (simp add: utf8_decode.simps)

lemma utf8_decode_next:
  "utf8_next bs = Inr (c, r) \<Longrightarrow>
   utf8_decode bs = and_then (utf8_decode r) (\<lambda>cs. Inr (c # cs))"
  by (subst utf8_decode.simps) auto

lemma unat_byte_of [simp]: "n < 256 \<Longrightarrow> unat (byte_of n) = n"
  by (simp add: byte_of_def unat_of_nat)

lemma utf8_next_2:
  assumes "x < 32" and "y < 64" and "0x80 \<le> x * 64 + y"
  shows "utf8_next (byte_of (0xC0 + x) # byte_of (0x80 + y) # r) = Inr (x * 64 + y, r)"
  using assms by (simp add: is_cont_def)

lemma utf8_next_3:
  assumes "x < 16" and "y < 64" and "z < 64"
    and "0x800 \<le> x * 4096 + y * 64 + z" and "\<not> is_surrogate (x * 4096 + y * 64 + z)"
  shows "utf8_next (byte_of (0xE0 + x) # byte_of (0x80 + y) # byte_of (0x80 + z) # r)
         = Inr (x * 4096 + y * 64 + z, r)"
  using assms by (simp add: is_cont_def)

lemma utf8_next_4:
  assumes "x < 8" and "y < 64" and "z < 64" and "t < 64"
    and "0x10000 \<le> x * 262144 + y * 4096 + z * 64 + t"
    and "x * 262144 + y * 4096 + z * 64 + t < 0x110000"
  shows "utf8_next (byte_of (0xF0 + x) # byte_of (0x80 + y) # byte_of (0x80 + z)
           # byte_of (0x80 + t) # r)
         = Inr (x * 262144 + y * 4096 + z * 64 + t, r)"
  using assms by (simp add: is_cont_def)

lemma digits64:
  "(c :: nat) div 64 * 64 + c mod 64 = c"
  "c div 4096 * 4096 + c div 64 mod 64 * 64 + c mod 64 = c"
  "c div 262144 * 262144 + c div 4096 mod 64 * 4096 + c div 64 mod 64 * 64 + c mod 64 = c"
proof -
  define p q r where "p = c div 64" and "q = p div 64" and "r = q div 64"
  have c: "c = p * 64 + c mod 64" and p: "p = q * 64 + p mod 64" and q: "q = r * 64 + q mod 64"
    unfolding p_def q_def r_def by simp_all
  have div: "c div 4096 = q" "c div 262144 = r"
    unfolding p_def q_def r_def by (simp_all flip: div_mult2_eq)
  show "c div 64 * 64 + c mod 64 = c"
    by simp
  from c p q show "c div 4096 * 4096 + c div 64 mod 64 * 64 + c mod 64 = c"
    and "c div 262144 * 262144 + c div 4096 mod 64 * 4096 + c div 64 mod 64 * 64 + c mod 64 = c"
    unfolding div p_def [symmetric] by linarith+
qed

lemma utf8_next_char:
  assumes enc: "utf8_char c = Inr bs"
  shows "utf8_next (bs @ r) = Inr (c, r)"
proof -
  consider "c < 0x80" | "0x80 \<le> c" "c < 0x800" | "0x800 \<le> c" "c < 0x10000" "\<not> is_surrogate c"
    | "0x10000 \<le> c" "c < 0x110000"
    using enc by (force simp: utf8_char_def split: if_splits)
  then show ?thesis
  proof cases
    case 1
    with enc show ?thesis by (auto simp: utf8_char_def)
  next
    case 2
    then have "c div 64 < 32"
      by (simp add: less_mult_imp_div_less)
    with 2 enc utf8_next_2 [of "c div 64" "c mod 64" r] show ?thesis
      by (auto simp: utf8_char_def simp del: utf8_next.simps)
  next
    case 3
    then have "c div 4096 < 16"
      by (simp add: less_mult_imp_div_less)
    with 3 enc utf8_next_3 [of "c div 4096" "c div 64 mod 64" "c mod 64" r] show ?thesis
      by (auto simp: utf8_char_def digits64 simp del: utf8_next.simps)
  next
    case 4
    then have "c div 262144 < 8" and "\<not> is_surrogate c"
      by (simp_all add: less_mult_imp_div_less is_surrogate_def)
    with 4 enc utf8_next_4 [of "c div 262144" "c div 4096 mod 64" "c div 64 mod 64" "c mod 64" r]
    show ?thesis
      by (auto simp: utf8_char_def digits64 simp del: utf8_next.simps)
  qed
qed

lemma utf8_decode_encode: "utf8_encode s = Inr bs \<Longrightarrow> utf8_decode bs = Inr s"
proof (induction s arbitrary: bs)
  case (Cons c s)
  then obtain cb r where "utf8_char c = Inr cb" and "utf8_encode s = Inr r" and "bs = cb @ r"
    by (auto simp: res_simps)
  with Cons.IH show ?case
    by (simp add: utf8_decode_next [OF utf8_next_char])
qed simp

text \<open>Text within ASCII is one byte per character.\<close>

lemma utf8_encode_ascii: "\<forall>c \<in> set s. c < 0x80 \<Longrightarrow> utf8_encode s = Inr (map byte_of s)"
  by (induction s) (auto simp: utf8_char_def)

lemma u_ascii [simp]: "\<forall>c \<in> set s. of_char c < (128 :: nat) \<Longrightarrow> utf8_encode (u s) = Inr (map byte_of (u s))"
  by (rule utf8_encode_ascii) (auto simp: u_def)

lemma utf8_encode_raises: "utf8_encode s = Inl e \<Longrightarrow> e = UnicodeEncodeError"
  by (induction s) (auto simp: res_simps utf8_char_def split: if_splits)

lemma utf8_decode_raises: "utf8_decode bs = Inl e \<Longrightarrow> e = UnicodeDecodeError"
proof (induction bs rule: utf8_decode.induct)
  case (1 bs)
  have next_raises: "utf8_next bs = Inl e \<Longrightarrow> e = UnicodeDecodeError" for e
    by (cases bs) (auto simp: Let_def split: if_splits list.splits)
  from "1.prems" have "bs \<noteq> []"
    by auto
  then have "utf8_next bs = Inl e \<or>
      (\<exists>c r. utf8_next bs = Inr (c, r) \<and> utf8_decode r = Inl e)"
    using "1.prems" by (simp add: utf8_decode.simps [of bs] res_simps split: sum.splits prod.splits)
  then show ?case
    using next_raises "1.IH" [OF \<open>bs \<noteq> []\<close>] by blast
qed

end
