(* ===== verification/Json_Number.thy ===== *)
theory Json_Number
  imports Py_Float Py_Text
begin

text \<open>
  Numbers in JSON text as CPython's \<open>json\<close> module writes and reads them: decimal integers,
  \<open>float.__repr__\<close> (the shortest digits that read back as the same double, in positional or
  exponent form) and the scanner's number matcher. The lemmas show that what is written is read
  back.
\<close>

section \<open>Decimal digits\<close>

fun dec_digits :: "nat \<Rightarrow> nat list" where
  "dec_digits n = (if n < 10 then [n] else dec_digits (n div 10) @ [n mod 10])"

declare dec_digits.simps [simp del]

definition dec_val :: "nat list \<Rightarrow> nat" where
  "dec_val ds = foldl (\<lambda>a d. a * 10 + d) 0 ds"

definition digit_text :: "nat list \<Rightarrow> pystr" where
  "digit_text ds = map (\<lambda>d. 48 + d) ds"

definition is_digit :: "nat \<Rightarrow> bool" where
  "is_digit c \<longleftrightarrow> 48 \<le> c \<and> c \<le> 57"

fun span_digits :: "pystr \<Rightarrow> nat list \<times> pystr" where
  "span_digits [] = ([], [])"
| "span_digits (c # cs) =
     (if is_digit c then (let (ds, r) = span_digits cs in ((c - 48) # ds, r)) else ([], c # cs))"

definition pow10 :: "int \<Rightarrow> rat" where
  "pow10 e = (if 0 \<le> e then 10 ^ nat e else 1 / 10 ^ nat (- e))"

section \<open>Reading\<close>

text \<open>The matched parts: sign, integer digits, fraction digits, exponent; and the rest.\<close>

type_synonym number_match = "bool \<times> nat list \<times> nat list \<times> int option"

definition match_sign :: "pystr \<Rightarrow> bool \<times> pystr" where
  "match_sign s = (case s of c # cs \<Rightarrow> if c = 45 then (True, cs) else (False, s) | [] \<Rightarrow> (False, s))"

definition match_int :: "pystr \<Rightarrow> (nat list \<times> pystr) option" where
  "match_int s =
     (case s of
        [] \<Rightarrow> None
      | c # cs \<Rightarrow> if c = 48 then Some ([0], cs)
                  else if is_digit c then Some (span_digits s) else None)"

definition match_frac :: "pystr \<Rightarrow> nat list \<times> pystr" where
  "match_frac s =
     (case s of c # d # cs \<Rightarrow> if c = 46 \<and> is_digit d then span_digits (d # cs) else ([], s) | _ \<Rightarrow> ([], s))"

definition match_exp :: "pystr \<Rightarrow> int option \<times> pystr" where
  "match_exp s =
     (case s of
        c # cs \<Rightarrow>
          if c = 101 \<or> c = 69 then
            (let (neg, t) = (case cs of d # ds \<Rightarrow> if d = 45 then (True, ds) else if d = 43 then (False, ds) else (False, cs)
                             | [] \<Rightarrow> (False, cs));
                 (ds, r) = span_digits t
             in if ds = [] then (None, s)
                else (Some (if neg then - int (dec_val ds) else int (dec_val ds)), r))
          else (None, s)
      | [] \<Rightarrow> (None, s))"

definition match_number :: "pystr \<Rightarrow> (number_match \<times> pystr) option" where
  "match_number s =
     (let (neg, s1) = match_sign s in
      case match_int s1 of
        None \<Rightarrow> None
      | Some (ds, s2) \<Rightarrow>
          (let (fs, s3) = match_frac s2; (ex, s4) = match_exp s3
           in Some ((neg, ds, fs, ex), s4)))"

text \<open>\<open>float(text)\<close> of a matched number: correctly rounded, \<open>-0.0\<close> keeps its sign.\<close>

definition float_of_match :: "bool \<Rightarrow> nat list \<Rightarrow> nat list \<Rightarrow> int \<Rightarrow> pyfloat" where
  "float_of_match neg ds fs e =
     (let m = dec_val (ds @ fs); q = of_nat m * pow10 (e - int (length fs))
      in if neg then (if m = 0 then FNegZero else round64 (- q)) else round64 q)"

section \<open>Writing\<close>

definition exp_text :: "int \<Rightarrow> pystr" where
  "exp_text e =
     (let n = nat \<bar>e\<bar> in
      101 # (if e < 0 then 45 else 43) # digit_text (if n < 10 then [0, n] else dec_digits n))"

definition num_text :: "number_match \<Rightarrow> pystr" where
  "num_text m = (case m of (neg, ds, fs, ex) \<Rightarrow>
     (if neg then [45] else []) @ digit_text ds @ (if fs = [] then [] else 46 # digit_text fs) @
     (case ex of None \<Rightarrow> [] | Some e \<Rightarrow> exp_text e))"

definition int_repr :: "int \<Rightarrow> pystr" where
  "int_repr i = (if i < 0 then [45] else []) @ digit_text (dec_digits (nat \<bar>i\<bar>))"

text \<open>The decimal point position of \<open>q > 0\<close>: the \<open>e\<close> with \<open>10 ^ (e - 1) \<le> q < 10 ^ e\<close>.\<close>

definition dec_point :: "rat \<Rightarrow> int" where
  "dec_point q =
     (if q \<ge> 1 then int (length (dec_digits (nat \<lfloor>q\<rfloor>)))
      else 1 - int (length (dec_digits (nat \<lceil>1 / q\<rceil> - 1))))"

text \<open>
  Candidates \<open>(m, k)\<close> for \<open>m * 10 ^ k\<close> with \<open>nd\<close> digits, the nearest first, then its neighbour on
  the other side.
\<close>

definition repr_candidates :: "rat \<Rightarrow> nat \<Rightarrow> (nat \<times> int) list" where
  "repr_candidates q nd =
     (let k = dec_point q - int nd; x = q / pow10 k; near = round_half_even x;
          other = (if near = \<lfloor>x\<rfloor> then near + 1 else \<lfloor>x\<rfloor>)
      in [(nat near, k), (nat other, k)])"

definition reads_back :: "rat \<Rightarrow> nat \<times> int \<Rightarrow> bool" where
  "reads_back q c \<longleftrightarrow> 0 < fst c \<and> round64 (of_nat (fst c) * pow10 (snd c)) = FFin q"

definition shortest :: "rat \<Rightarrow> nat \<times> int" where
  "shortest q =
     (case find (reads_back q) (concat (map (repr_candidates q) [1..<18])) of
        Some c \<Rightarrow> c
      | None \<Rightarrow> hd (repr_candidates q 17))"

fun strip_zeros :: "nat \<Rightarrow> nat \<times> nat" where
  "strip_zeros m = (if m \<noteq> 0 \<and> m mod 10 = 0 then (let (r, z) = strip_zeros (m div 10) in (r, Suc z)) else (m, 0))"

declare strip_zeros.simps [simp del]

text \<open>Positional form for a decimal point in \<open>-3..16\<close>, exponent form otherwise.\<close>

definition float_match :: "bool \<Rightarrow> nat list \<Rightarrow> int \<Rightarrow> number_match" where
  "float_match neg ds decpt =
     (if - 4 < decpt \<and> decpt \<le> 16 then
        (if decpt \<le> 0 then (neg, [0], replicate (nat (- decpt)) 0 @ ds, None)
         else if decpt < int (length ds) then (neg, take (nat decpt) ds, drop (nat decpt) ds, None)
         else (neg, ds @ replicate (nat decpt - length ds) 0, [0], None))
      else (neg, take 1 ds, drop 1 ds, Some (decpt - 1)))"

definition float_repr_pos :: "bool \<Rightarrow> rat \<Rightarrow> pystr" where
  "float_repr_pos neg q =
     (let (m, k) = shortest q; (r, z) = strip_zeros m; ds = dec_digits r
      in num_text (float_match neg ds (k + int z + int (length ds))))"

definition float_repr :: "pyfloat \<Rightarrow> pystr" where
  "float_repr x =
     (case x of
        FNaN \<Rightarrow> u ''NaN''
      | FInf \<Rightarrow> u ''Infinity''
      | FNegInf \<Rightarrow> u ''-Infinity''
      | FNegZero \<Rightarrow> u ''-0.0''
      | FFin q \<Rightarrow> if q = 0 then u ''0.0'' else float_repr_pos (q < 0) \<bar>q\<bar>)"

section \<open>What is written is read back\<close>

lemma dec_digits_bound: "d \<in> set (dec_digits n) \<Longrightarrow> d < 10"
proof (induction n arbitrary: d rule: dec_digits.induct)
  case (1 n)
  then show ?case by (subst (asm) (2) dec_digits.simps) (auto split: if_splits)
qed

lemma dec_digits_nonempty [simp]: "dec_digits n \<noteq> []"
  by (subst dec_digits.simps) simp

lemma dec_val_snoc [simp]: "dec_val (ds @ [d]) = dec_val ds * 10 + d"
  by (simp add: dec_val_def)

lemma dec_val_Nil [simp]: "dec_val [] = 0"
  by (simp add: dec_val_def)

lemma dec_val_single [simp]: "dec_val [d] = d"
  by (simp add: dec_val_def)

lemma dec_val_dec_digits [simp]: "dec_val (dec_digits n) = n"
proof (induction n rule: dec_digits.induct)
  case (1 n)
  then show ?case
    by (subst dec_digits.simps) (auto simp: dec_val_def)
qed

lemma hd_dec_digits: "n \<noteq> 0 \<Longrightarrow> hd (dec_digits n) \<noteq> 0"
proof (induction n rule: dec_digits.induct)
  case (1 n)
  then show ?case
    by (subst dec_digits.simps) auto
qed

lemma dec_val_zero_Cons [simp]: "dec_val (0 # ds) = dec_val ds"
  by (simp add: dec_val_def)

lemma dec_val_zeros [simp]: "dec_val (replicate n 0 @ ds) = dec_val ds"
  by (induction n) simp_all

lemma dec_val_append_zeros: "dec_val (ds @ replicate n 0) = dec_val ds * 10 ^ n"
proof (induction n)
  case (Suc n)
  have "dec_val (ds @ replicate (Suc n) 0) = dec_val ((ds @ replicate n 0) @ [0])"
    by (simp flip: replicate_append_same)
  then show ?case
    unfolding dec_val_snoc using Suc by simp
qed simp

lemma span_digits_digit_text:
  assumes "\<forall>d \<in> set ds. d < 10" and "r = [] \<or> \<not> is_digit (hd r)"
  shows "span_digits (digit_text ds @ r) = (ds, r)"
  using assms
proof (induction ds)
  case Nil
  then show ?case by (cases r) (auto simp: digit_text_def)
next
  case (Cons d ds)
  then show ?case by (simp add: digit_text_def is_digit_def)
qed

text \<open>What may follow a number: the end of the text, a comma or a closing bracket.\<close>

definition ends_number :: "pystr \<Rightarrow> bool" where
  "ends_number r \<longleftrightarrow> r = [] \<or> hd r \<in> {44, 93, 125}"

definition num_ok :: "number_match \<Rightarrow> bool" where
  "num_ok m \<longleftrightarrow> (case m of (neg, ds, fs, ex) \<Rightarrow>
     ds \<noteq> [] \<and> (\<forall>d \<in> set ds. d < 10) \<and> (ds = [0] \<or> hd ds \<noteq> 0) \<and> (\<forall>d \<in> set fs. d < 10))"

lemma match_exp_text:
  assumes "ends_number r"
  shows "match_exp (exp_text e @ r) = (Some e, r)"
proof -
  define ds where "ds = (if nat \<bar>e\<bar> < 10 then [0, nat \<bar>e\<bar>] else dec_digits (nat \<bar>e\<bar>))"
  have ds: "\<forall>d \<in> set ds. d < 10" "ds \<noteq> []" "dec_val ds = nat \<bar>e\<bar>"
    by (auto simp: ds_def dest: dec_digits_bound)
  have "span_digits (digit_text ds @ r) = (ds, r)"
    using assms ds by (intro span_digits_digit_text) (auto simp: ends_number_def is_digit_def)
  then show ?thesis
    using ds(2,3) by (auto simp: exp_text_def match_exp_def Let_def simp flip: ds_def)
qed

lemma match_exp_none: "r = [] \<or> hd r \<notin> {69, 101} \<Longrightarrow> match_exp r = (None, r)"
  by (auto simp: match_exp_def split: list.splits)

lemma match_frac_text:
  assumes "fs \<noteq> []" and "\<forall>d \<in> set fs. d < 10" and "r = [] \<or> \<not> is_digit (hd r)"
  shows "match_frac (46 # digit_text fs @ r) = (fs, r)"
proof -
  obtain f fs' where "fs = f # fs'"
    using assms(1) by (cases fs) auto
  then show ?thesis
    using span_digits_digit_text [OF assms(2,3)] assms(2)
    by (simp add: match_frac_def digit_text_def is_digit_def)
qed

lemma match_frac_none: "r = [] \<or> hd r \<noteq> 46 \<Longrightarrow> match_frac r = ([], r)"
  by (auto simp: match_frac_def split: list.splits)

lemma match_int_text:
  assumes "ds \<noteq> []" and "\<forall>d \<in> set ds. d < 10" and "ds = [0] \<or> hd ds \<noteq> 0"
    and "r = [] \<or> \<not> is_digit (hd r)"
  shows "match_int (digit_text ds @ r) = Some (ds, r)"
proof (cases "ds = [0]")
  case True
  then show ?thesis by (simp add: match_int_def digit_text_def)
next
  case False
  then obtain d ds' where "ds = d # ds'" "d \<noteq> 0" "d < 10"
    using assms(1-3) by (cases ds) auto
  then show ?thesis
    using span_digits_digit_text [OF assms(2,4)]
    by (simp add: match_int_def digit_text_def is_digit_def)
qed

lemma match_number_num_text:
  assumes "num_ok m" and "ends_number r"
  shows "match_number (num_text m @ r) = Some (m, r)"
proof -
  obtain neg ds fs ex where m: "m = (neg, ds, fs, ex)"
    by (cases m)
  have ds: "ds \<noteq> []" "\<forall>d \<in> set ds. d < 10" "ds = [0] \<or> hd ds \<noteq> 0" and fs: "\<forall>d \<in> set fs. d < 10"
    using assms(1) by (auto simp: m num_ok_def)
  define et where "et = (case ex of None \<Rightarrow> [] | Some e \<Rightarrow> exp_text e)"
  have et: "match_exp (et @ r) = (ex, r)"
    using assms(2) by (auto simp: et_def match_exp_text ends_number_def intro!: match_exp_none split: option.split)
  have stop: "et @ r = [] \<or> \<not> is_digit (hd (et @ r))" "et @ r = [] \<or> hd (et @ r) \<noteq> 46"
    using assms(2) by (auto simp: et_def exp_text_def ends_number_def is_digit_def Let_def split: option.split)
  define ft where "ft = (if fs = [] then [] else 46 # digit_text fs)"
  have ft: "match_frac (ft @ et @ r) = (fs, et @ r)"
    using fs stop by (auto simp: ft_def intro: match_frac_none match_frac_text)
  have "ft @ et @ r = [] \<or> \<not> is_digit (hd (ft @ et @ r))"
    using stop(1) by (auto simp: ft_def is_digit_def)
  then have it: "match_int (digit_text ds @ ft @ et @ r) = Some (ds, ft @ et @ r)"
    using ds by (intro match_int_text)
  have "match_sign (num_text m @ r) = (neg, digit_text ds @ ft @ et @ r)"
    using ds(1,2) by (cases ds) (auto simp: m num_text_def match_sign_def ft_def et_def digit_text_def)
  with it ft et show ?thesis
    by (simp add: match_number_def m)
qed

lemma int_repr_num_text: "int_repr i = num_text (i < 0, dec_digits (nat \<bar>i\<bar>), [], None)"
  by (simp add: int_repr_def num_text_def)

lemma num_ok_int: "num_ok (neg, dec_digits n, [], None)"
proof (cases "n = 0")
  case True
  then show ?thesis by (simp add: num_ok_def dec_digits.simps)
next
  case False
  then show ?thesis by (auto simp: num_ok_def hd_dec_digits dest: dec_digits_bound)
qed

section \<open>Floats\<close>

lemma pow10_powi: "pow10 e = 10 powi e"
  by (simp add: pow10_def power_int_def power_one_over inverse_eq_divide)

lemma pow10_add: "pow10 (a + b) = pow10 a * pow10 b"
  by (simp add: pow10_powi power_int_add)

lemma pow10_nat: "pow10 (int n) = 10 ^ n"
  by (simp add: pow10_def)

lemma pow10_pos [simp]: "0 < pow10 e"
  by (simp add: pow10_powi)

lemma pow10_neq_0 [simp]: "pow10 e \<noteq> 0"
  using pow10_pos [of e] by linarith

lemma strip_zeros_spec:
  assumes "strip_zeros m = (r, z)"
  shows "m = r * 10 ^ z"
  using assms
proof (induction m arbitrary: r z rule: strip_zeros.induct)
  case (1 m)
  show ?case
  proof (cases "m \<noteq> 0 \<and> m mod 10 = 0")
    case True
    obtain r' z' where rec: "strip_zeros (m div 10) = (r', z')"
      by fastforce
    have "strip_zeros m = (r', Suc z')"
      using True rec by (subst strip_zeros.simps) simp
    moreover have "m div 10 = r' * 10 ^ z'"
      using "1.IH" True rec by simp
    moreover have "m = 10 * (m div 10)"
      using True by presburger
    ultimately show ?thesis
      using "1.prems" by simp
  next
    case False
    have "strip_zeros m = (m, 0)"
      using False by (subst strip_zeros.simps) auto
    with "1.prems" show ?thesis by simp
  qed
qed

lemma num_ok_float_match:
  assumes "ds \<noteq> []" and "\<forall>d \<in> set ds. d < 10" and "hd ds \<noteq> 0"
  shows "num_ok (float_match neg ds decpt)"
  using assms
  by (auto simp: num_ok_def float_match_def dest: in_set_takeD in_set_dropD split: prod.splits if_splits)

text \<open>The text denotes the digits scaled to the decimal point.\<close>

lemma float_match_value:
  assumes "float_match neg ds decpt = (n, ids, fs, ex)" and "ds \<noteq> []"
  shows "n = neg" and "fs \<noteq> [] \<or> ex \<noteq> None"
    and "of_nat (dec_val (ids @ fs)) * pow10 ((case ex of None \<Rightarrow> 0 | Some e \<Rightarrow> e) - int (length fs))
         = of_nat (dec_val ds) * pow10 (decpt - int (length ds))"
proof -
  show "n = neg"
    using assms(1) by (auto simp: float_match_def split: if_splits)
  show "fs \<noteq> [] \<or> ex \<noteq> None"
    using assms by (auto simp: float_match_def split: if_splits)
  consider (pre) "- 4 < decpt" "decpt \<le> 0" | (mid) "0 < decpt" "decpt \<le> 16" "decpt < int (length ds)"
    | (post) "0 < decpt" "decpt \<le> 16" "int (length ds) \<le> decpt" | (exp) "decpt \<le> - 4 \<or> 16 < decpt"
    by linarith
  then show "of_nat (dec_val (ids @ fs)) * pow10 ((case ex of None \<Rightarrow> 0 | Some e \<Rightarrow> e) - int (length fs))
      = of_nat (dec_val ds) * pow10 (decpt - int (length ds))"
  proof cases
    case pre
    with assms show ?thesis
      by (auto simp: float_match_def)
  next
    case mid
    with assms show ?thesis
      by (auto simp: float_match_def of_nat_diff)
  next
    case post
    define j where "j = nat decpt - length ds"
    have "ids @ fs = ds @ replicate (Suc j) 0" "ex = None" "length fs = 1"
      using assms post by (auto simp: float_match_def j_def replicate_append_same)
    moreover have "decpt - int (length ds) = int j"
      using post by (simp add: j_def)
    ultimately show ?thesis
      by (simp add: dec_val_append_zeros pow10_nat pow10_def del: replicate.simps)
  next
    case exp
    with assms show ?thesis
      by (cases ds) (auto simp: float_match_def algebra_simps)
  qed
qed

lemma dec_digits_range:
  shows "n < 10 ^ length (dec_digits n)" and "0 < n \<Longrightarrow> 10 ^ (length (dec_digits n) - 1) \<le> n"
proof (induction n rule: dec_digits.induct)
  case (1 n)
  {
    case 1
    then show ?case
      using "1.IH"(1) by (subst dec_digits.simps) (auto simp: less_mult_imp_div_less)
  next
    case 2
    show ?case
    proof (cases "n < 10")
      case False
      obtain l where l: "length (dec_digits (n div 10)) = Suc l"
        by (cases "dec_digits (n div 10)") simp_all
      have "10 ^ l \<le> n div 10"
        using "1.IH"(2) [OF False] False by (simp add: l)
      then have "10 ^ Suc l \<le> n" by (simp add: mult.commute less_eq_div_iff_mult_less_eq)
      with False show ?thesis
        by (subst dec_digits.simps) (simp add: l)
    qed (use 2 in \<open>subst dec_digits.simps, simp\<close>)
  }
qed

lemma pow10_diff: "pow10 (a - b) = pow10 a / pow10 b"
  using pow10_add [of "a - b" b] by (simp add: field_simps)

lemma dec_point_range:
  assumes "0 < q"
  shows "pow10 (dec_point q - 1) \<le> q" and "q < pow10 (dec_point q)"
proof -
  have "pow10 (dec_point q - 1) \<le> q \<and> q < pow10 (dec_point q)"
  proof (cases "1 \<le> q")
    case True
    define c l where "c = nat \<lfloor>q\<rfloor>" and "l = length (dec_digits c)"
    have l: "0 < l" by (simp add: l_def)
    have c: "0 < c" "of_nat c \<le> q" "q < of_nat c + 1"
      using True by (simp_all add: c_def) linarith
    have r: "10 ^ (l - 1) \<le> c" "c + 1 \<le> 10 ^ l"
      using dec_digits_range [of c] c(1) by (simp_all add: l_def Suc_le_eq)
    have "of_nat (10 ^ (l - 1)) \<le> (of_nat c :: rat)" "of_nat (c + 1) \<le> (of_nat (10 ^ l) :: rat)"
      using r by (simp_all only: of_nat_le_iff)
    then have "10 ^ (l - 1) \<le> (of_nat c :: rat)" "of_nat c + 1 \<le> (10 ^ l :: rat)"
      by (simp_all only: of_nat_power of_nat_numeral of_nat_add of_nat_1)
    then have "10 ^ (l - 1) \<le> q" "q < 10 ^ l"
      using c(2,3) by linarith+
    moreover have "dec_point q = int l"
      using True by (simp add: dec_point_def l_def c_def)
    ultimately show ?thesis
      using l pow10_nat [of l] pow10_nat [of "l - 1"] by (simp add: of_nat_diff)
  next
    case False
    define c l where "c = nat \<lceil>1 / q\<rceil> - 1" and "l = length (dec_digits c)"
    have q1: "1 < 1 / q" using False assms by simp
    then have "1 < \<lceil>1 / q\<rceil>" by linarith
    then have c: "0 < c" "of_nat c < 1 / q" "1 / q \<le> of_nat c + 1"
      by (simp_all add: c_def of_nat_diff) linarith+
    have r: "10 ^ (l - 1) \<le> c" "c + 1 \<le> 10 ^ l" and l: "0 < l"
      using dec_digits_range [of c] c(1) by (simp_all add: l_def Suc_le_eq)
    have "of_nat (10 ^ (l - 1)) \<le> (of_nat c :: rat)" "of_nat (c + 1) \<le> (of_nat (10 ^ l) :: rat)"
      using r by (simp_all only: of_nat_le_iff)
    then have "10 ^ (l - 1) \<le> (of_nat c :: rat)" "of_nat c + 1 \<le> (10 ^ l :: rat)"
      by (simp_all only: of_nat_power of_nat_numeral of_nat_add of_nat_1)
    then have "10 ^ (l - 1) < 1 / q" "1 / q \<le> 10 ^ l"
      using c(2,3) by linarith+
    then have "pow10 (int (l - 1)) < 1 / q" "1 / q \<le> pow10 (int l)"
      by (simp_all only: pow10_nat)
    then have "q < 1 / pow10 (int l - 1)" "1 / pow10 (int l) \<le> q"
      using assms l by (simp_all add: of_nat_diff field_simps)
    moreover have "dec_point q = 1 - int l"
      using False by (simp add: dec_point_def l_def c_def)
    moreover have "pow10 0 = 1" by (simp add: pow10_def)
    ultimately show ?thesis
      using pow10_diff [of 0 "int l - 1"] pow10_diff [of 0 "int l"] by simp
  qed
  then show "pow10 (dec_point q - 1) \<le> q" "q < pow10 (dec_point q)" by blast+
qed

text \<open>Seventeen digits identify a double.\<close>

lemma seventeen_digits:
  assumes "0 < q" and "rnd q = q" and "q < 2 ^ 1024"
  shows "reads_back q (hd (repr_candidates q 17))"
proof -
  define k where "k = dec_point q - 17"
  define m where "m = round_half_even (q / pow10 k)"
  have "pow10 (dec_point q - 1) = 10 ^ 16 * pow10 k"
    using pow10_add [of 16 k] by (simp add: k_def pow10_def [of 16])
  then have big: "10 ^ 16 * pow10 k \<le> q"
    using dec_point_range(1) [OF assms(1)] by simp
  then have "of_int (10 ^ 16) \<le> q / pow10 k"
    by (simp add: le_divide_eq)
  then have m: "10 ^ 16 \<le> m"
    using round_half_even_mono [of "of_int (10 ^ 16)" "q / pow10 k"] by (simp only: round_half_even_of_int m_def)
  then have m0: "0 < m" by simp
  have "of_int m * pow10 k - q = (of_int m - q / pow10 k) * pow10 k"
    by (simp add: algebra_simps)
  then have "\<bar>of_int m * pow10 k - q\<bar> \<le> 1 / 2 * pow10 k"
    using round_half_even_error [of "q / pow10 k"] by (simp add: m_def abs_mult abs_of_pos)
  also have "\<dots> \<le> q / (2 * 10 ^ 16)"
    using big by (simp add: field_simps)
  finally have "rnd (of_int m * pow10 k) = q"
    by (rule rnd_close [OF assms(1,2)])
  then have "round64 (of_int m * pow10 k) = FFin q"
    using assms m0 by (simp add: round64_rnd)
  then show ?thesis
    using m0 by (simp add: reads_back_def repr_candidates_def Let_def k_def [symmetric] m_def [symmetric])
qed

lemma shortest_reads_back:
  assumes "0 < q" and "rnd q = q" and "q < 2 ^ 1024"
  shows "reads_back q (shortest q)"
proof -
  have "hd (repr_candidates q 17) \<in> set (concat (map (repr_candidates q) [1..<18]))"
    by (force simp: repr_candidates_def Let_def)
  then have "find (reads_back q) (concat (map (repr_candidates q) [1..<18])) \<noteq> None"
    using seventeen_digits [OF assms] unfolding find_None_iff by blast
  then obtain c where c: "find (reads_back q) (concat (map (repr_candidates q) [1..<18])) = Some c" by blast
  then have "reads_back q c"
    unfolding find_Some_iff by blast
  with c show ?thesis
    by (simp only: shortest_def option.case)
qed

lemma float_ok_reads_back:
  assumes "float_ok (FFin q)" and "q \<noteq> 0"
  shows "reads_back \<bar>q\<bar> (shortest \<bar>q\<bar>)"
proof (rule shortest_reads_back)
  show "rnd \<bar>q\<bar> = \<bar>q\<bar>"
    using assms(1) by (cases "0 \<le> q") (simp_all add: float_ok_def rnd_minus)
qed (use assms in \<open>simp_all add: float_ok_def\<close>)

lemma round64_uminus_FFin: "round64 q = FFin v \<Longrightarrow> 0 < v \<Longrightarrow> round64 (- q) = FFin (- v)"
  by (auto simp: round64_rnd rnd_minus split: if_splits)

lemma float_repr_num_text:
  assumes "float_ok (FFin q)" and "q \<noteq> 0"
  shows "\<exists>m. float_repr (FFin q) = num_text m \<and> num_ok m"
proof -
  obtain m k where mk: "shortest \<bar>q\<bar> = (m, k)" by fastforce
  obtain t z where tz: "strip_zeros m = (t, z)" by fastforce
  have "t \<noteq> 0"
    using strip_zeros_spec [OF tz] float_ok_reads_back [OF assms] by (auto simp: reads_back_def mk)
  then have ok: "num_ok (float_match (q < 0) (dec_digits t) decpt)" for decpt
    by (intro num_ok_float_match) (auto simp: hd_dec_digits dest: dec_digits_bound)
  have "float_repr (FFin q) = num_text (float_match (q < 0) (dec_digits t) (k + int z + int (length (dec_digits t))))"
    using assms(2) by (simp add: float_repr_def float_repr_pos_def mk tz Let_def)
  with ok show ?thesis by blast
qed

lemma float_repr_match:
  assumes "float_ok (FFin q)" and "q \<noteq> 0" and "ends_number r"
  obtains neg ids fs ex where "match_number (float_repr (FFin q) @ r) = Some ((neg, ids, fs, ex), r)"
    and "fs \<noteq> [] \<or> ex \<noteq> None"
    and "float_of_match neg ids fs (case ex of None \<Rightarrow> 0 | Some e \<Rightarrow> e) = FFin q"
proof -
  obtain m k where mk: "shortest \<bar>q\<bar> = (m, k)" by fastforce
  obtain t z where tz: "strip_zeros m = (t, z)" by fastforce
  define ds where "ds = dec_digits t"
  define decpt where "decpt = k + int z + int (length ds)"
  obtain neg ids fs ex where fm: "float_match (q < 0) ds decpt = (neg, ids, fs, ex)"
    by (metis prod.exhaust)
  have rb: "0 < m" "round64 (of_nat m * pow10 k) = FFin \<bar>q\<bar>"
    using float_ok_reads_back [OF assms(1,2)] by (auto simp: reads_back_def mk)
  have m: "m = t * 10 ^ z"
    by (rule strip_zeros_spec [OF tz])
  then have t: "t \<noteq> 0"
    using rb(1) by (cases "t = 0") auto
  have ds: "ds \<noteq> []" "\<forall>d \<in> set ds. d < 10" "hd ds \<noteq> 0"
    using t by (auto simp: ds_def hd_dec_digits dest: dec_digits_bound)
  have repr: "float_repr (FFin q) = num_text (neg, ids, fs, ex)"
    using assms(2) fm by (simp add: float_repr_def float_repr_pos_def mk tz ds_def decpt_def)
  have "num_ok (neg, ids, fs, ex)"
    using num_ok_float_match [OF ds] fm by metis
  note val = float_match_value [OF fm ds(1)]
  let ?e = "case ex of None \<Rightarrow> 0 | Some e \<Rightarrow> e"
  have "of_nat (dec_val (ids @ fs)) * pow10 (?e - int (length fs)) = of_nat t * pow10 (k + int z)"
    unfolding val(3) by (simp add: ds_def decpt_def)
  also have "\<dots> = of_nat m * pow10 k"
    by (simp add: m pow10_add pow10_nat)
  finally have q: "of_nat (dec_val (ids @ fs)) * pow10 (?e - int (length fs)) = of_nat m * pow10 k" .
  moreover have "of_nat m * pow10 k \<noteq> 0"
    using rb(1) pow10_pos [of k] by simp
  ultimately have "dec_val (ids @ fs) \<noteq> 0"
    by (intro notI) simp
  then have "float_of_match neg ids fs ?e = (if neg then round64 (- (of_nat m * pow10 k)) else round64 (of_nat m * pow10 k))"
    by (simp only: float_of_match_def Let_def q if_False)
  also have "\<dots> = FFin q"
    using rb(2) round64_uminus_FFin [OF rb(2)] assms(2) by (simp add: val(1) abs_if)
  finally have "float_of_match neg ids fs ?e = FFin q" .
  then show ?thesis
    using that [OF _ val(2)] match_number_num_text [OF \<open>num_ok (neg, ids, fs, ex)\<close> assms(3)] repr by auto
qed

end
