(* ===== verification/Json_String.thy ===== *)
theory Json_String
  imports Py_Text
begin

text \<open>
  String literals in JSON text as CPython's \<open>json\<close> module writes them with \<open>ensure_ascii\<close> (every
  character outside the printable ASCII range as \<open>\uXXXX\<close>, characters above U+FFFF as a surrogate
  pair) and reads them in strict mode (control characters refused, surrogate pairs joined).
\<close>

section \<open>Writing\<close>

definition hex4_text :: "nat \<Rightarrow> pystr" where
  "hex4_text n = [hexdig (n div 4096 mod 16), hexdig (n div 256 mod 16),
                  hexdig (n div 16 mod 16), hexdig (n mod 16)]"

definition u_escape :: "nat \<Rightarrow> pystr" where
  "u_escape n = 92 # 117 # hex4_text n"

definition escape_char :: "nat \<Rightarrow> pystr" where
  "escape_char c =
     (if c = 34 then [92, 34] else if c = 92 then [92, 92]
      else if c = 10 then [92, 110] else if c = 13 then [92, 114] else if c = 9 then [92, 116]
      else if c = 12 then [92, 102] else if c = 8 then [92, 98]
      else if 32 \<le> c \<and> c \<le> 126 then [c]
      else if c < 0x10000 then u_escape c
      else u_escape (0xD800 + (c - 0x10000) div 1024) @ u_escape (0xDC00 + (c - 0x10000) mod 1024))"

definition escape_str :: "pystr \<Rightarrow> pystr" where
  "escape_str s = concat (map escape_char s)"

section \<open>Reading\<close>

definition hex4 :: "pystr \<Rightarrow> (nat \<times> pystr) option" where
  "hex4 s =
     (case s of
        a # b # c # d # r \<Rightarrow>
          (case (hexval a, hexval b, hexval c, hexval d) of
             (Some w, Some x, Some y, Some z) \<Rightarrow> Some (w * 4096 + x * 256 + y * 16 + z, r)
           | _ \<Rightarrow> None)
      | _ \<Rightarrow> None)"

definition is_high :: "nat \<Rightarrow> bool" where
  "is_high c \<longleftrightarrow> 0xD800 \<le> c \<and> c \<le> 0xDBFF"

definition is_low :: "nat \<Rightarrow> bool" where
  "is_low c \<longleftrightarrow> 0xDC00 \<le> c \<and> c \<le> 0xDFFF"

definition simple_escape :: "nat \<Rightarrow> nat option" where
  "simple_escape c = map_of [(34, 34), (92, 92), (47, 47), (98, 8), (102, 12), (110, 10), (114, 13), (116, 9)] c"

text \<open>The character a \<open>\uXXXX\<close> escape (its text after the \<open>\u\<close>) stands for, and what follows it.\<close>

definition unescape_u :: "pystr \<Rightarrow> (nat \<times> pystr) option" where
  "unescape_u s =
     (case hex4 s of
        None \<Rightarrow> None
      | Some (c, r) \<Rightarrow>
          if is_high c then
            (case r of
               a # b # r' \<Rightarrow>
                 if a = 92 \<and> b = 117 then
                   (case hex4 r' of
                      None \<Rightarrow> None
                    | Some (c2, r2) \<Rightarrow>
                        if is_low c2 then Some (0x10000 + (c - 0xD800) * 1024 + (c2 - 0xDC00), r2)
                        else Some (c, r))
                 else Some (c, r)
             | _ \<Rightarrow> Some (c, r))
          else Some (c, r))"

lemma hex4_shorter: "hex4 s = Some (n, r) \<Longrightarrow> length r < length s"
  by (auto simp: hex4_def split: list.splits option.splits)

lemma unescape_u_shorter: "unescape_u s = Some (n, r) \<Longrightarrow> length r < length s"
proof -
  assume u: "unescape_u s = Some (n, r)"
  then obtain c t where t: "hex4 s = Some (c, t)"
    by (auto simp: unescape_u_def split: option.splits)
  have "length r \<le> length t"
    using u t hex4_shorter less_imp_le
    by (fastforce simp: unescape_u_def split: option.splits if_splits list.splits)
  then show ?thesis
    using hex4_shorter [OF t] by simp
qed

text \<open>The literal after its opening quote: its characters and the text after the closing quote.\<close>

function parse_string :: "pystr \<Rightarrow> (pystr \<times> pystr) res" where
  "parse_string [] = Inl JSONDecodeError"
| "parse_string (c # cs) =
     (if c = 34 then Inr ([], cs)
      else if c = 92 then
        (case cs of
           [] \<Rightarrow> Inl JSONDecodeError
         | e # es \<Rightarrow>
             if e = 117 then
               (case unescape_u es of
                  None \<Rightarrow> Inl JSONDecodeError
                | Some (d, r) \<Rightarrow> and_then (parse_string r) (\<lambda>(s, t). Inr (d # s, t)))
             else
               (case simple_escape e of
                  None \<Rightarrow> Inl JSONDecodeError
                | Some d \<Rightarrow> and_then (parse_string es) (\<lambda>(s, t). Inr (d # s, t))))
      else if c < 32 then Inl JSONDecodeError
      else and_then (parse_string cs) (\<lambda>(s, t). Inr (c # s, t)))"
  by pat_completeness auto
termination
  by (relation "measure length") (auto dest: unescape_u_shorter)

section \<open>What is written is read back\<close>

text \<open>
  Strings that survive: code points, and no high surrogate directly before a low one (Python reads
  the escapes of such a pair as one character).
\<close>

fun str_ok :: "pystr \<Rightarrow> bool" where
  "str_ok [] = True"
| "str_ok [c] = (c < 0x110000)"
| "str_ok (c # d # s) = (c < 0x110000 \<and> \<not> (is_high c \<and> is_low d) \<and> str_ok (d # s))"

lemma str_ok_Cons: "str_ok (c # s) \<longleftrightarrow> c < 0x110000 \<and> \<not> (is_high c \<and> s \<noteq> [] \<and> is_low (hd s)) \<and> str_ok s"
  by (cases s) auto

lemma str_ok_small: "\<forall>c \<in> set s. c < 0xD800 \<Longrightarrow> str_ok s"
  by (induction s) (auto simp: str_ok_Cons is_high_def)

lemma str_ok_u [simp]: "str_ok (u s)"
proof (rule str_ok_small, rule ballI)
  fix c
  assume "c \<in> set (u s)"
  then obtain x where "c = of_char x" by (auto simp: u_def)
  then have "c < 256" by simp
  then show "c < 0xD800" by (rule order_less_trans) simp
qed

lemma hex4_digits: "n < 0x10000 \<Longrightarrow> hex4 (hex4_text n @ r) = Some (n, r)"
proof -
  assume n: "n < 0x10000"
  have d: "n div 16 div 16 = n div 256" "n div 256 div 16 = n div 4096" "n div 4096 < 16" "n div 4096 mod 16 = n div 4096"
    using n by (simp_all add: less_mult_imp_div_less flip: div_mult2_eq)
  have "n div 4096 mod 16 * 4096 + n div 256 mod 16 * 256 + n div 16 mod 16 * 16 + n mod 16 = n"
    using d div_mult_mod_eq [of n 16] div_mult_mod_eq [of "n div 16" 16] div_mult_mod_eq [of "n div 256" 16]
    by linarith
  then show ?thesis
    using d by (simp add: hex4_def hex4_text_def)
qed

text \<open>No literal text continues with the escape of a low surrogate unless the string does.\<close>

lemma escape_not_low:
  assumes "str_ok s" and "s = [] \<or> \<not> is_low (hd s)" and "escape_str s @ 34 # r = 92 # 117 # t"
  obtains c2 t2 where "hex4 t = Some (c2, t2)" and "\<not> is_low c2"
proof -
  obtain d s' where s: "s = d # s'" and d: "d < 0x110000" "\<not> is_low d"
    using assms by (cases s) (auto simp: escape_str_def str_ok_Cons)
  have "hex4 t = Some (if d < 0x10000 then d else 0xD800 + (d - 0x10000) div 1024,
      (if d < 0x10000 then [] else u_escape (0xDC00 + (d - 0x10000) mod 1024)) @ escape_str s' @ 34 # r)"
  proof (cases "d < 0x10000")
    case True
    then have "t = hex4_text d @ escape_str s' @ 34 # r"
      using assms(3) by (auto simp: s escape_str_def escape_char_def u_escape_def split: if_splits)
    with True show ?thesis by (simp add: hex4_digits)
  next
    case False
    then have "t = hex4_text (0xD800 + (d - 0x10000) div 1024)
        @ u_escape (0xDC00 + (d - 0x10000) mod 1024) @ escape_str s' @ 34 # r"
      using assms(3) by (auto simp: s escape_str_def escape_char_def u_escape_def)
    moreover have "0xD800 + (d - 0x10000) div 1024 < 0x10000"
      using d(1) by (simp add: less_mult_imp_div_less)
    ultimately show ?thesis using False by (simp add: hex4_digits)
  qed
  moreover have "\<not> is_low (if d < 0x10000 then d else 0xD800 + (d - 0x10000) div 1024)"
  proof -
    have "(d - 0x10000) div 1024 < 1024"
      using d(1) by (simp add: less_mult_imp_div_less)
    then show ?thesis using d(2) by (auto simp: is_low_def)
  qed
  ultimately show ?thesis using that by blast
qed

lemma unescape_u_single:
  assumes "c < 0x10000" and "str_ok (c # s)"
  shows "unescape_u (hex4_text c @ escape_str s @ 34 # r) = Some (c, escape_str s @ 34 # r)"
proof (cases "is_high c")
  case False
  with assms(1) show ?thesis by (simp add: unescape_u_def hex4_digits)
next
  case True
  let ?r = "escape_str s @ 34 # r"
  have s: "str_ok s" "s = [] \<or> \<not> is_low (hd s)"
    using assms(2) True by (auto simp: str_ok_Cons)
  show ?thesis
  proof (cases "\<exists>t. ?r = 92 # 117 # t")
    case True
    then obtain t where t: "?r = 92 # 117 # t" ..
    obtain c2 t2 where "hex4 t = Some (c2, t2)" "\<not> is_low c2"
      using escape_not_low [OF s t] .
    with t assms(1) \<open>is_high c\<close> show ?thesis
      by (simp add: unescape_u_def hex4_digits)
  next
    case False
    with assms(1) \<open>is_high c\<close> show ?thesis
      by (auto simp: unescape_u_def hex4_digits split: list.splits)
  qed
qed

lemma unescape_u_pair:
  assumes "0x10000 \<le> c" and "c < 0x110000"
  shows "unescape_u (hex4_text (0xD800 + (c - 0x10000) div 1024)
      @ u_escape (0xDC00 + (c - 0x10000) mod 1024) @ r) = Some (c, r)"
proof -
  let ?h = "0xD800 + (c - 0x10000) div 1024" and ?l = "0xDC00 + (c - 0x10000) mod 1024"
  have "(c - 0x10000) div 1024 < 1024"
    using assms by (simp add: less_mult_imp_div_less)
  then have "is_high ?h" "?h < 0x10000" "?l < 0x10000" "is_low ?l"
    by (auto simp: is_high_def is_low_def)
  moreover have "0x10000 + (?h - 0xD800) * 1024 + (?l - 0xDC00) = c"
    using assms by simp
  ultimately show ?thesis
    by (simp add: unescape_u_def hex4_digits u_escape_def)
qed

lemma escape_char_cases:
  "(\<exists>e. escape_char c = [92, e] \<and> e \<noteq> 117 \<and> simple_escape e = Some c) \<or>
   (escape_char c = [c] \<and> c \<noteq> 34 \<and> c \<noteq> 92 \<and> \<not> c < 32) \<or>
   (escape_char c = u_escape c \<and> c < 0x10000) \<or>
   (escape_char c = u_escape (0xD800 + (c - 0x10000) div 1024) @ u_escape (0xDC00 + (c - 0x10000) mod 1024) \<and>
    0x10000 \<le> c)"
  by (simp add: escape_char_def simple_escape_def)

lemma parse_escape_str: "str_ok s \<Longrightarrow> parse_string (escape_str s @ 34 # r) = Inr (s, r)"
proof (induction s)
  case Nil
  then show ?case by (simp add: escape_str_def)
next
  case (Cons c s)
  then have IH: "parse_string (escape_str s @ 34 # r) = Inr (s, r)" and c: "c < 0x110000"
    by (auto simp: str_ok_Cons)
  have split: "escape_str (c # s) @ 34 # r = escape_char c @ escape_str s @ 34 # r"
    by (simp add: escape_str_def)
  consider (simple) "\<exists>e. escape_char c = [92, e] \<and> e \<noteq> 117 \<and> simple_escape e = Some c"
    | (plain) "escape_char c = [c]" "c \<noteq> 34" "c \<noteq> 92" "\<not> c < 32"
    | (one) "escape_char c = u_escape c" "c < 0x10000"
    | (two) "escape_char c = u_escape (0xD800 + (c - 0x10000) div 1024) @ u_escape (0xDC00 + (c - 0x10000) mod 1024)"
        "0x10000 \<le> c"
    using escape_char_cases [of c] by blast
  then show ?case
  proof cases
    case simple
    with IH show ?thesis by (auto simp: split)
  next
    case plain
    with IH show ?thesis by (simp add: split)
  next
    case one
    then show ?thesis
      using IH unescape_u_single [OF one(2) Cons.prems] by (simp add: split u_escape_def)
  next
    case two
    then show ?thesis
      using IH unescape_u_pair [OF two(2) c, of "escape_str s @ 34 # r"]
      by (simp add: split u_escape_def)
  qed
qed

lemma parse_string_shorter: "parse_string s = Inr (t, r) \<Longrightarrow> length r < length s"
proof (induction s arbitrary: t r rule: parse_string.induct)
  case (2 c cs)
  then show ?case
    by (fastforce simp: res_simps split: if_splits list.splits option.splits dest: unescape_u_shorter)
qed simp

lemma parse_string_raises: "parse_string s = Inl e \<Longrightarrow> e = JSONDecodeError"
proof (induction s arbitrary: e rule: parse_string.induct)
  case (2 c cs)
  then show ?case
    by (auto simp: res_simps split: if_splits list.splits option.splits)
qed simp

lemma hexdig_ascii [simp]: "n < 16 \<Longrightarrow> hexdig n < 128"
  by (auto simp: hexdig_def)

lemma escape_str_ascii: "d \<in> set (escape_str s) \<Longrightarrow> d < 128"
proof -
  have "d \<in> set (u_escape n) \<Longrightarrow> d < 128" for n
    by (auto simp: u_escape_def hex4_text_def)
  then have "d \<in> set (escape_char c) \<Longrightarrow> d < 128" for c
    by (auto simp: escape_char_def split: if_splits)
  then show "d \<in> set (escape_str s) \<Longrightarrow> d < 128"
    by (auto simp: escape_str_def)
qed

end
