(* ===== verification/Json.thy ===== *)
theory Json
  imports Json_Number Json_String Py_Value "HOL-Library.List_Lexorder"
begin

text \<open>
  The \<open>json\<close> module's \<open>dumps\<close> (compact separators,
  sorted keys, ASCII) and \<open>loads\<close>. The reader recurses on fuel, one unit per nested call; twice the
  length of the text is enough (\<open>parse_step_ok\<close>), so the exception that stands for fuel
  running out, \<open>RecursionError\<close>, is never raised by \<open>json_loads\<close>. The main lemma is that \<open>json_loads\<close>
  reads back what \<open>json_dumps\<close> writes, with the keys of every dictionary sorted.
\<close>

section \<open>Writing\<close>

fun join_comma :: "pystr list \<Rightarrow> pystr" where
  "join_comma [] = []"
| "join_comma [t] = t"
| "join_comma (t # ts) = t @ 44 # join_comma ts"

definition str_text :: "pystr \<Rightarrow> pystr" where
  "str_text s = 34 # escape_str s @ [34]"

definition member_text :: "pystr \<times> pystr \<Rightarrow> pystr" where
  "member_text kt = str_text (fst kt) @ 58 # snd kt"

primrec json_dumps :: "pyval \<Rightarrow> pystr" where
  "json_dumps PNone = u ''null''"
| "json_dumps (PBool b) = (if b then u ''true'' else u ''false'')"
| "json_dumps (PInt i) = int_repr i"
| "json_dumps (PFloat x) = float_repr x"
| "json_dumps (PStr s) = str_text s"
| "json_dumps (PList vs) = 91 # join_comma (map json_dumps vs) @ [93]"
| "json_dumps (PDict kvs) =
     123 # join_comma (map member_text (sort_key fst (map (map_prod id json_dumps) kvs))) @ [125]"

section \<open>Reading\<close>

fun skip_ws :: "pystr \<Rightarrow> pystr" where
  "skip_ws [] = []"
| "skip_ws (c # cs) = (if c \<in> {32, 9, 10, 13} then skip_ws cs else c # cs)"

definition strip_prefix :: "pystr \<Rightarrow> pystr \<Rightarrow> pystr option" where
  "strip_prefix p s = (if take (length p) s = p then Some (drop (length p) s) else None)"

fun first_prefix :: "(pystr \<times> pyval) list \<Rightarrow> pystr \<Rightarrow> (pyval \<times> pystr) option" where
  "first_prefix [] s = None"
| "first_prefix ((p, v) # ps) s =
     (case strip_prefix p s of Some r \<Rightarrow> Some (v, r) | None \<Rightarrow> first_prefix ps s)"

definition json_constants :: "(pystr \<times> pyval) list" where
  "json_constants =
     [(u ''null'', PNone), (u ''true'', PBool True), (u ''false'', PBool False), (u ''NaN'', PFloat FNaN),
      (u ''Infinity'', PFloat FInf), (u ''-Infinity'', PFloat FNegInf)]"

definition number_value :: "number_match \<Rightarrow> pyval" where
  "number_value m = (case m of (neg, ds, fs, ex) \<Rightarrow>
     if fs = [] \<and> ex = None then PInt (if neg then - int (dec_val ds) else int (dec_val ds))
     else PFloat (float_of_match neg ds fs (case ex of None \<Rightarrow> 0 | Some e \<Rightarrow> e)))"

definition parse_atom :: "pystr \<Rightarrow> (pyval \<times> pystr) res" where
  "parse_atom s =
     (case first_prefix json_constants s of
        Some vr \<Rightarrow> Inr vr
      | None \<Rightarrow>
          (case match_number s of
             Some (m, r) \<Rightarrow> Inr (number_value m, r)
           | None \<Rightarrow> Inl JSONDecodeError))"

fun parse_value :: "nat \<Rightarrow> pystr \<Rightarrow> (pyval \<times> pystr) res"
  and parse_elems :: "nat \<Rightarrow> pystr \<Rightarrow> (pyval list \<times> pystr) res"
  and parse_members :: "nat \<Rightarrow> (pystr \<times> pyval) list \<Rightarrow> pystr \<Rightarrow> ((pystr \<times> pyval) list \<times> pystr) res"
where
  "parse_value 0 s = Inl RecursionError"
| "parse_value (Suc n) s =
     (case s of
        [] \<Rightarrow> Inl JSONDecodeError
      | c # cs \<Rightarrow>
          if c = 34 then and_then (parse_string cs) (\<lambda>(t, r). Inr (PStr t, r))
          else if c = 123 then
            (case skip_ws cs of
               [] \<Rightarrow> Inl JSONDecodeError
             | d # ds \<Rightarrow>
                 if d = 125 then Inr (PDict [], ds)
                 else and_then (parse_members n [] (d # ds)) (\<lambda>(kvs, r). Inr (PDict kvs, r)))
          else if c = 91 then
            (case skip_ws cs of
               [] \<Rightarrow> Inl JSONDecodeError
             | d # ds \<Rightarrow>
                 if d = 93 then Inr (PList [], ds)
                 else and_then (parse_elems n (d # ds)) (\<lambda>(vs, r). Inr (PList vs, r)))
          else parse_atom s)"
| "parse_elems 0 s = Inl RecursionError"
| "parse_elems (Suc n) s =
     and_then (parse_value n s) (\<lambda>(v, r).
       case skip_ws r of
         [] \<Rightarrow> Inl JSONDecodeError
       | d # ds \<Rightarrow>
           if d = 93 then Inr ([v], ds)
           else if d = 44 then and_then (parse_elems n (skip_ws ds)) (\<lambda>(vs, r'). Inr (v # vs, r'))
           else Inl JSONDecodeError)"
| "parse_members 0 acc s = Inl RecursionError"
| "parse_members (Suc n) acc s =
     (case s of
        [] \<Rightarrow> Inl JSONDecodeError
      | c # cs \<Rightarrow>
          if c \<noteq> 34 then Inl JSONDecodeError
          else and_then (parse_string cs) (\<lambda>(k, r).
            case skip_ws r of
              [] \<Rightarrow> Inl JSONDecodeError
            | d # ds \<Rightarrow>
                if d \<noteq> 58 then Inl JSONDecodeError
                else and_then (parse_value n (skip_ws ds)) (\<lambda>(v, r').
                  case skip_ws r' of
                    [] \<Rightarrow> Inl JSONDecodeError
                  | e # es \<Rightarrow>
                      if e = 125 then Inr (AList.update k v acc, es)
                      else if e = 44 then parse_members n (AList.update k v acc) (skip_ws es)
                      else Inl JSONDecodeError)))"

declare parse_value.simps [simp del] parse_elems.simps [simp del] parse_members.simps [simp del]

definition json_loads :: "pystr \<Rightarrow> pyval res" where
  "json_loads s =
     (if s \<noteq> [] \<and> hd s = 0xFEFF then Inl JSONDecodeError
      else and_then (parse_value (2 * length s + 1) (skip_ws s)) (\<lambda>(v, r).
             if skip_ws r = [] then Inr v else Inl JSONDecodeError))"

section \<open>Fuel\<close>

lemma length_skip_ws: "length (skip_ws s) \<le> length s"
  by (induction s) auto

lemma skip_ws_Cons_shorter: "skip_ws s = c # r \<Longrightarrow> length r < length s"
  using length_skip_ws [of s] by simp

lemma span_digits_shorter: "length (snd (span_digits s)) \<le> length s"
  by (induction s) (auto split: prod.splits)

lemma match_int_shorter: "match_int s = Some (ds, r) \<Longrightarrow> length r < length s"
  using span_digits_shorter [of "tl s"]
  by (cases s) (auto simp: match_int_def split: if_splits prod.splits)

lemma match_frac_shorter: "match_frac s = (fs, r) \<Longrightarrow> length r \<le> length s"
  using span_digits_shorter [of "tl s"] by (auto simp: match_frac_def split: list.splits if_splits)

lemma match_exp_shorter: "match_exp s = (ex, r) \<Longrightarrow> length r \<le> length s"
  using span_digits_shorter [of "tl s"] span_digits_shorter [of "tl (tl s)"]
  by (auto simp: match_exp_def split: list.splits if_splits prod.splits)

lemma match_number_shorter:
  assumes "match_number s = Some (m, r)"
  shows "length r < length s"
proof -
  obtain neg s1 where s1: "match_sign s = (neg, s1)" by fastforce
  then have "length s1 \<le> length s"
    by (auto simp: match_sign_def split: list.splits if_splits)
  then show ?thesis
    using assms s1
    by (auto simp: match_number_def split: option.splits prod.splits
        dest!: match_int_shorter match_frac_shorter match_exp_shorter)
qed

lemma first_prefix_constants_shorter: "first_prefix json_constants s = Some (v, r) \<Longrightarrow> length r < length s"
  by (cases s) (auto simp: json_constants_def strip_prefix_def u_def split: if_splits)

lemma parse_atom_shorter: "parse_atom s = Inr (v, r) \<Longrightarrow> length r < length s"
  by (auto simp: parse_atom_def split: option.splits prod.splits
      dest: match_number_shorter first_prefix_constants_shorter)

lemmas parse_simps = parse_value.simps parse_elems.simps parse_members.simps

lemmas shorter = parse_atom_shorter parse_string_shorter skip_ws_Cons_shorter

text \<open>
  What one call of the reader may do on a text of length \<open>len\<close>: leave a strictly shorter rest, raise
  \<open>JSONDecodeError\<close>, or run out of fuel when it did not have enough.
\<close>

definition step_ok :: "bool \<Rightarrow> nat \<Rightarrow> ('a \<times> pystr) res \<Rightarrow> bool" where
  "step_ok enough len res \<longleftrightarrow>
     (case res of Inl e \<Rightarrow> e = JSONDecodeError \<or> (\<not> enough \<and> e = RecursionError) | Inr vr \<Rightarrow> length (snd vr) < len)"

lemma step_ok_JSONDecodeError [simp]: "step_ok en len (Inl JSONDecodeError)"
  by (simp add: step_ok_def)

lemma step_ok_Inr [simp]: "step_ok en len (Inr (v, r)) \<longleftrightarrow> length r < len"
  by (simp add: step_ok_def)

lemma step_ok_mono: "step_ok en len m \<Longrightarrow> (en' \<Longrightarrow> en) \<Longrightarrow> len \<le> len' \<Longrightarrow> step_ok en' len' m"
  by (auto simp: step_ok_def split: sum.splits)

lemma step_ok_and_then:
  assumes "step_ok en len m" and "en' \<Longrightarrow> en" and "\<And>x r. length r < len \<Longrightarrow> step_ok en' len' (f (x, r))"
  shows "step_ok en' len' (and_then m f)"
proof (cases m)
  case (Inl e)
  with assms(1,2) show ?thesis by (auto simp: step_ok_def)
next
  case (Inr vr)
  then have "length (snd vr) < len"
    using assms(1) by (simp add: step_ok_def)
  with Inr assms(3) [of "snd vr" "fst vr"] show ?thesis by simp
qed

lemma step_ok_parse_string: "step_ok True (length s) (parse_string s)"
  by (auto simp: step_ok_def split: sum.splits dest: parse_string_shorter parse_string_raises)

lemma step_ok_parse_atom: "step_ok True (length s) (parse_atom s)"
proof (cases "parse_atom s")
  case (Inl e)
  then show ?thesis by (auto simp: parse_atom_def split: option.splits)
next
  case (Inr vr)
  then show ?thesis by (cases vr) (auto dest: parse_atom_shorter)
qed

lemma step_ok_parse_value:
  assumes elems: "\<And>s. step_ok (2 * length s + 1 < n) (length s) (parse_elems n s)"
    and members: "\<And>acc s. step_ok (2 * length s + 1 < n) (length s) (parse_members n acc s)"
  shows "step_ok (2 * length s < Suc n) (length s) (parse_value (Suc n) s)"
proof (cases s)
  case (Cons c cs)
  have ws: "skip_ws cs = d # ds \<Longrightarrow> length ds < length cs" for d ds
    by (rule skip_ws_Cons_shorter)
  have "step_ok (2 * length s < Suc n) (length s) (and_then (parse_string cs) (\<lambda>(t, r). Inr (PStr t, r)))"
    by (rule step_ok_and_then [OF step_ok_parse_string]) (auto simp: Cons)
  moreover have "step_ok (2 * length s < Suc n) (length s) (parse_atom s)"
    by (rule step_ok_mono [OF step_ok_parse_atom]) auto
  moreover have "step_ok (2 * length s < Suc n) (length s)
      (and_then (parse_elems n (d # ds)) (\<lambda>(vs, r). Inr (PList vs, r)))" if "skip_ws cs = d # ds" for d ds
    by (rule step_ok_and_then [OF elems]) (use ws [OF that] in \<open>auto simp: Cons\<close>)
  moreover have "step_ok (2 * length s < Suc n) (length s)
      (and_then (parse_members n [] (d # ds)) (\<lambda>(kvs, r). Inr (PDict kvs, r)))" if "skip_ws cs = d # ds" for d ds
    by (rule step_ok_and_then [OF members]) (use ws [OF that] in \<open>auto simp: Cons\<close>)
  ultimately show ?thesis
    using ws by (auto simp: Cons parse_value.simps less_SucI split: list.split)
qed (simp add: parse_value.simps)

lemma step_ok_parse_elems:
  assumes val: "\<And>s. step_ok (2 * length s < n) (length s) (parse_value n s)"
    and elems: "\<And>s. step_ok (2 * length s + 1 < n) (length s) (parse_elems n s)"
  shows "step_ok (2 * length s + 1 < Suc n) (length s) (parse_elems (Suc n) s)"
  unfolding parse_elems.simps
proof (rule step_ok_and_then [OF val])
  fix v and r :: pystr
  assume r: "length r < length s"
  have "step_ok (2 * length s + 1 < Suc n) (length s)
      (and_then (parse_elems n (skip_ws ds)) (\<lambda>(vs, r'). Inr (v # vs, r')))" if "skip_ws r = d # ds" for d ds
    by (rule step_ok_and_then [OF elems])
      (use r skip_ws_Cons_shorter [OF that] length_skip_ws [of ds] in auto)
  then show "step_ok (2 * length s + 1 < Suc n) (length s) (case (v, r) of (v, r) \<Rightarrow>
      case skip_ws r of [] \<Rightarrow> Inl JSONDecodeError
      | d # ds \<Rightarrow> if d = 93 then Inr ([v], ds)
                  else if d = 44 then and_then (parse_elems n (skip_ws ds)) (\<lambda>(vs, r'). Inr (v # vs, r'))
                  else Inl JSONDecodeError)"
    using r skip_ws_Cons_shorter [of r] by (auto split: list.split)
qed auto

lemma step_ok_parse_members:
  assumes val: "\<And>s. step_ok (2 * length s < n) (length s) (parse_value n s)"
    and members: "\<And>acc s. step_ok (2 * length s + 1 < n) (length s) (parse_members n acc s)"
  shows "step_ok (2 * length s + 1 < Suc n) (length s) (parse_members (Suc n) acc s)"
proof (cases s)
  case (Cons c cs)
  let ?en = "2 * length s + 1 < Suc n"
  have last: "step_ok ?en (length s) (parse_members n (AList.update k v acc) (skip_ws es))"
    if "skip_ws r = e # es" "length r < length cs" for k v r e es
    by (rule step_ok_mono [OF members])
      (use that skip_ws_Cons_shorter [OF that(1)] length_skip_ws [of es] in \<open>auto simp: Cons\<close>)
  have mid: "step_ok ?en (length s) (and_then (parse_value n (skip_ws ds)) (\<lambda>(v, r').
      case skip_ws r' of [] \<Rightarrow> Inl JSONDecodeError
      | e # es \<Rightarrow> if e = 125 then Inr (AList.update k v acc, es)
                  else if e = 44 then parse_members n (AList.update k v acc) (skip_ws es)
                  else Inl JSONDecodeError))"
    if ds: "skip_ws r = d # ds" "length r < length cs" for k r d ds
  proof (rule step_ok_and_then [OF val])
    have short: "length (skip_ws ds) < length cs"
      using ds skip_ws_Cons_shorter [OF ds(1)] length_skip_ws [of ds] by simp
    then show "?en \<Longrightarrow> 2 * length (skip_ws ds) < n"
      by (simp add: Cons)
    fix v and r' :: pystr
    assume "length r' < length (skip_ws ds)"
    with short have "length r' < length cs" by simp
    with last [of r'] skip_ws_Cons_shorter [of r'] show "step_ok ?en (length s) (case (v, r') of (v, r') \<Rightarrow>
        case skip_ws r' of [] \<Rightarrow> Inl JSONDecodeError
        | e # es \<Rightarrow> if e = 125 then Inr (AList.update k v acc, es)
                    else if e = 44 then parse_members n (AList.update k v acc) (skip_ws es)
                    else Inl JSONDecodeError)"
      by (auto simp: Cons less_SucI split: list.split)
  qed
  show ?thesis
    unfolding parse_members.simps Cons list.case
    by (auto intro!: step_ok_and_then [OF step_ok_parse_string] simp: mid [unfolded Cons, simplified] split: list.split)
qed (simp add: parse_members.simps)

lemma parse_step_ok:
  "(\<forall>s. step_ok (2 * length s < n) (length s) (parse_value n s)) \<and>
   (\<forall>s. step_ok (2 * length s + 1 < n) (length s) (parse_elems n s)) \<and>
   (\<forall>acc s. step_ok (2 * length s + 1 < n) (length s) (parse_members n acc s))"
proof (induction n)
  case 0
  then show ?case by (simp add: parse_simps step_ok_def)
next
  case (Suc n)
  then show ?case
    by (intro conjI allI step_ok_parse_value step_ok_parse_elems step_ok_parse_members) blast+
qed

lemma json_loads_raises: "json_loads s = Inl e \<Longrightarrow> e = JSONDecodeError"
proof -
  assume "json_loads s = Inl e"
  moreover have "step_ok True (length (skip_ws s)) (parse_value (2 * length s + 1) (skip_ws s))"
    using length_skip_ws [of s]
    by (intro step_ok_mono [OF conjunct1 [OF parse_step_ok, rule_format]]) auto
  ultimately show ?thesis
    by (auto simp: json_loads_def step_ok_def res_simps split: if_splits)
qed

section \<open>What is written is read back\<close>

text \<open>The value read back: the same value with the keys of every dictionary in order.\<close>

primrec jnorm :: "pyval \<Rightarrow> pyval" where
  "jnorm PNone = PNone"
| "jnorm (PBool b) = PBool b"
| "jnorm (PInt i) = PInt i"
| "jnorm (PFloat x) = PFloat x"
| "jnorm (PStr s) = PStr s"
| "jnorm (PList vs) = PList (map jnorm vs)"
| "jnorm (PDict kvs) = PDict (sort_key fst (map (map_prod id jnorm) kvs))"

primrec val_ok :: "pyval \<Rightarrow> bool" where
  "val_ok PNone = True"
| "val_ok (PBool b) = True"
| "val_ok (PInt i) = True"
| "val_ok (PFloat x) = float_ok x"
| "val_ok (PStr s) = str_ok s"
| "val_ok (PList vs) = list_all id (map val_ok vs)"
| "val_ok (PDict kvs) = (distinct (map fst kvs) \<and> list_all (\<lambda>kb. str_ok (fst kb) \<and> snd kb) (map (map_prod id val_ok) kvs))"

lemma sort_key_map_prod: "sort_key fst (map (map_prod id f) kvs) = map (map_prod id f) (sort_key fst kvs)"
  by (rule sort_key_map) simp

lemma dumps_PDict:
  "json_dumps (PDict kvs) = 123 # join_comma (map (\<lambda>kv. member_text (fst kv, json_dumps (snd kv))) (sort_key fst kvs)) @ [125]"
  by (simp add: sort_key_map_prod member_text_def comp_def)

lemma jnorm_PDict: "jnorm (PDict kvs) = PDict (map (map_prod id jnorm) (sort_key fst kvs))"
  by (simp add: sort_key_map_prod)

lemma val_ok_PDict:
  "val_ok (PDict kvs) \<longleftrightarrow> distinct (map fst kvs) \<and> (\<forall>kv \<in> set kvs. str_ok (fst kv) \<and> val_ok (snd kv))"
  by (auto simp: list_all_iff)

lemma val_ok_PList: "val_ok (PList vs) \<longleftrightarrow> (\<forall>v \<in> set vs. val_ok v)"
  by (auto simp: list_all_iff)

lemma skip_ws_id: "s = [] \<or> hd s \<notin> {32, 9, 10, 13} \<Longrightarrow> skip_ws s = s"
  by (cases s) auto

lemma u_simps [simp]: "u [] = []" "u (c # cs) = of_char c # u cs"
  by (simp_all add: u_def)

lemma constants_text:
  "first_prefix json_constants (u ''null'' @ r) = Some (PNone, r)"
  "first_prefix json_constants (u ''true'' @ r) = Some (PBool True, r)"
  "first_prefix json_constants (u ''false'' @ r) = Some (PBool False, r)"
  "first_prefix json_constants (u ''NaN'' @ r) = Some (PFloat FNaN, r)"
  "first_prefix json_constants (u ''Infinity'' @ r) = Some (PFloat FInf, r)"
  "first_prefix json_constants (u ''-Infinity'' @ r) = Some (PFloat FNegInf, r)"
  by (simp_all add: json_constants_def strip_prefix_def)

lemma no_constant:
  "s = [] \<or> hd s \<notin> {110, 116, 102, 78, 73, 45} \<Longrightarrow> first_prefix json_constants s = None"
  "s = 45 # t \<Longrightarrow> t = [] \<or> hd t \<noteq> 73 \<Longrightarrow> first_prefix json_constants s = None"
  by (cases s; cases t; auto simp: json_constants_def strip_prefix_def)+

lemma num_text_no_constant:
  assumes "num_ok m"
  shows "first_prefix json_constants (num_text m @ r) = None"
    and "num_text m \<noteq> []" and "hd (num_text m) = 45 \<or> is_digit (hd (num_text m))"
proof -
  obtain neg d ds fs ex where m: "m = (neg, d # ds, fs, ex)" and d: "d < 10"
    using assms by (cases m; cases "fst (snd m)") (auto simp: num_ok_def)
  show "num_text m \<noteq> []" and "hd (num_text m) = 45 \<or> is_digit (hd (num_text m))"
    using d by (auto simp: m num_text_def digit_text_def is_digit_def)
  show "first_prefix json_constants (num_text m @ r) = None"
  proof (cases neg)
    case True
    with d show ?thesis
      by (intro no_constant(2)) (auto simp: m num_text_def digit_text_def)
  next
    case False
    with d show ?thesis
      by (intro no_constant(1)) (auto simp: m num_text_def digit_text_def)
  qed
qed

lemma parse_num_text:
  assumes "num_ok m" and "ends_number r"
  shows "parse_atom (num_text m @ r) = Inr (number_value m, r)"
  using num_text_no_constant(1) [OF assms(1)] match_number_num_text [OF assms]
  by (simp add: parse_atom_def)

lemma parse_value_atom:
  assumes "s \<noteq> []" and "hd s \<notin> {34, 123, 91}"
  shows "parse_value (Suc n) s = parse_atom s"
  using assms by (cases s) (simp_all add: parse_value.simps)

lemma float_repr_special:
  "float_repr FNegZero = num_text (True, [0], [0], None)" "float_repr (FFin 0) = num_text (False, [0], [0], None)"
  by (simp_all add: float_repr_def num_text_def digit_text_def)

text \<open>Every number the writer produces is read back by the atom reader.\<close>

lemma parse_int_repr: "ends_number r \<Longrightarrow> parse_atom (int_repr i @ r) = Inr (PInt i, r)"
  by (simp add: int_repr_num_text parse_num_text num_ok_int number_value_def)

lemma parse_float_repr:
  assumes "float_ok x" and "ends_number r"
  shows "parse_atom (float_repr x @ r) = Inr (PFloat x, r)"
proof (cases x)
  case (FFin q)
  show ?thesis
  proof (cases "q = 0")
    case True
    have "num_ok (False, [0], [0], None)" by (simp add: num_ok_def)
    from parse_num_text [OF this assms(2)] show ?thesis
      by (simp add: FFin True float_repr_special number_value_def float_of_match_def round64_def)
  next
    case False
    obtain neg ids fs ex where m: "match_number (float_repr (FFin q) @ r) = Some ((neg, ids, fs, ex), r)"
      "fs \<noteq> [] \<or> ex \<noteq> None" "float_of_match neg ids fs (case ex of None \<Rightarrow> 0 | Some e \<Rightarrow> e) = FFin q"
      using float_repr_match [OF _ False assms(2)] assms(1) FFin by metis
    have "first_prefix json_constants (float_repr (FFin q) @ r) = None"
      using float_repr_num_text [OF _ False] assms(1) FFin num_text_no_constant(1) by metis
    with m show ?thesis
      by (auto simp: FFin parse_atom_def number_value_def)
  qed
next
  case FNegZero
  have "num_ok (True, [0], [0], None)" by (simp add: num_ok_def)
  from parse_num_text [OF this assms(2)] show ?thesis
    by (simp add: FNegZero float_repr_special number_value_def float_of_match_def)
qed (simp_all add: parse_atom_def float_repr_def constants_text [simplified])

lemma float_repr_head:
  assumes "float_ok x"
  shows "float_repr x \<noteq> [] \<and> hd (float_repr x) \<notin> {34, 123, 91, 93, 125, 44, 32, 9, 10, 13}"
proof (cases "\<exists>q. x = FFin q \<and> q \<noteq> 0")
  case True
  then obtain m where "float_repr x = num_text m" "num_ok m"
    using float_repr_num_text assms by blast
  with num_text_no_constant(2,3) [of m] show ?thesis
    by (auto simp: is_digit_def)
next
  case False
  then show ?thesis
    by (cases x) (auto simp: float_repr_def)
qed

lemma dumps_head:
  assumes "val_ok v"
  shows "json_dumps v \<noteq> [] \<and> hd (json_dumps v) \<notin> {93, 125, 44, 32, 9, 10, 13}"
proof (cases v)
  case (PInt i)
  then show ?thesis
    using num_text_no_constant(2,3) [OF num_ok_int, of "i < 0" "nat \<bar>i\<bar>"]
    by (auto simp: int_repr_num_text is_digit_def)
next
  case (PFloat x)
  then show ?thesis
    using float_repr_head [of x] assms by auto
qed (auto simp: str_text_def)

lemma skip_ws_dumps: "val_ok v \<Longrightarrow> skip_ws (json_dumps v @ r) = json_dumps v @ r"
  using dumps_head [of v] by (intro skip_ws_id) (auto simp: hd_append)

lemma parse_dumped_elems:
  assumes "\<And>v n r. v \<in> set vs \<Longrightarrow> length (json_dumps v) \<le> n \<Longrightarrow> ends_number r \<Longrightarrow>
      parse_value n (json_dumps v @ r) = Inr (jnorm v, r)"
    and "\<forall>v \<in> set vs. val_ok v" and "vs \<noteq> []" and "length (join_comma (map json_dumps vs)) < n"
  shows "parse_elems n (join_comma (map json_dumps vs) @ 93 # r) = Inr (map jnorm vs, r)"
  using assms
proof (induction vs arbitrary: n)
  case (Cons v vs)
  then obtain m where n: "n = Suc m" by (cases n) auto
  show ?case
  proof (cases vs)
    case Nil
    have "parse_value m (json_dumps v @ 93 # r) = Inr (jnorm v, 93 # r)"
      using Cons.prems(4) by (intro Cons.prems(1)) (auto simp: n Nil ends_number_def)
    then show ?thesis by (simp add: n Nil parse_elems.simps)
  next
    case (Cons w ws)
    let ?rest = "join_comma (map json_dumps vs) @ 93 # r"
    have "parse_value m (json_dumps v @ 44 # ?rest) = Inr (jnorm v, 44 # ?rest)"
      using Cons.prems(4) by (intro Cons.prems(1)) (auto simp: n Cons ends_number_def)
    moreover have "skip_ws ?rest = ?rest"
      using dumps_head [of w] Cons.prems(2) by (intro skip_ws_id) (cases ws; auto simp: Cons hd_append)
    moreover have "parse_elems m ?rest = Inr (map jnorm vs, r)"
      using Cons.prems by (intro Cons.IH) (auto simp: n Cons)
    ultimately show ?thesis
      by (simp add: n Cons parse_elems.simps)
  qed
qed simp

lemma AList_update_new: "k \<notin> fst ` set kvs \<Longrightarrow> AList.update k v kvs = kvs @ [(k, v)]"
  by (induction kvs) auto

lemma parse_dumped_members:
  assumes "\<And>kv n r. kv \<in> set kvs \<Longrightarrow> length (json_dumps (snd kv)) \<le> n \<Longrightarrow> ends_number r \<Longrightarrow>
      parse_value n (json_dumps (snd kv) @ r) = Inr (jnorm (snd kv), r)"
    and "\<forall>kv \<in> set kvs. str_ok (fst kv) \<and> val_ok (snd kv)" and "kvs \<noteq> []"
    and "distinct (map fst (acc @ kvs))"
    and "length (join_comma (map (\<lambda>kv. member_text (fst kv, json_dumps (snd kv))) kvs)) < n"
  shows "parse_members n acc (join_comma (map (\<lambda>kv. member_text (fst kv, json_dumps (snd kv))) kvs) @ 125 # r)
         = Inr (acc @ map (map_prod id jnorm) kvs, r)"
  using assms
proof (induction kvs arbitrary: n acc)
  case (Cons kv kvs)
  obtain k v where kv: "kv = (k, v)" by fastforce
  obtain m where n: "n = Suc m"
    using Cons.prems(5) by (cases n) auto
  have ok: "str_ok k" "val_ok v" and new: "k \<notin> fst ` set acc"
    using Cons.prems(2,4) by (auto simp: kv)
  have val: "parse_value m (json_dumps v @ r') = Inr (jnorm v, r')"
    if "length (json_dumps v) \<le> m" "ends_number r'" for r'
    using Cons.prems(1) [of kv m r'] that by (simp add: kv)
  show ?case
  proof (cases kvs)
    case Nil
    then show ?thesis
      using Cons.prems(5) val [of "125 # r"] new
      by (simp add: kv n parse_members.simps member_text_def str_text_def parse_escape_str [OF ok(1)]
          skip_ws_dumps [OF ok(2)] AList_update_new ends_number_def)
  next
    case (Cons kw ws)
    let ?rest = "join_comma (map (\<lambda>kv. member_text (fst kv, json_dumps (snd kv))) kvs) @ 125 # r"
    have "skip_ws ?rest = ?rest"
      by (intro skip_ws_id) (cases ws; simp add: Cons member_text_def str_text_def)
    moreover have "parse_members m (acc @ [(k, jnorm v)]) ?rest
        = Inr ((acc @ [(k, jnorm v)]) @ map (map_prod id jnorm) kvs, r)"
      using Cons.prems by (intro Cons.IH) (auto simp: n kv Cons)
    ultimately show ?thesis
      using Cons.prems(5) val [of "44 # ?rest"] new
      by (simp add: kv n Cons parse_members.simps member_text_def str_text_def parse_escape_str [OF ok(1)]
          skip_ws_dumps [OF ok(2)] AList_update_new ends_number_def id_def)
  qed
qed simp

lemma join_comma_Nil_iff: "\<forall>t \<in> set ts. t \<noteq> [] \<Longrightarrow> join_comma ts = [] \<longleftrightarrow> ts = []"
  by (cases ts rule: join_comma.cases) auto

lemma hd_join_comma: "ts \<noteq> [] \<Longrightarrow> hd ts \<noteq> [] \<Longrightarrow> hd (join_comma ts @ r) = hd (hd ts) \<and> join_comma ts \<noteq> []"
  by (cases ts rule: join_comma.cases) auto

text \<open>Reading the opening bracket of a text that is not empty inside.\<close>

lemma parse_value_bracket:
  assumes "t \<noteq> []" and "hd t \<notin> {93, 125, 32, 9, 10, 13}"
  shows "parse_value (Suc n) (91 # t) = and_then (parse_elems n t) (\<lambda>(vs, r). Inr (PList vs, r))"
    and "parse_value (Suc n) (123 # t) = and_then (parse_members n [] t) (\<lambda>(kvs, r). Inr (PDict kvs, r))"
  using assms by (cases t; simp add: parse_value.simps)+

lemma parse_dumps:
  "val_ok v \<Longrightarrow> length (json_dumps v) \<le> n \<Longrightarrow> ends_number r \<Longrightarrow>
   parse_value n (json_dumps v @ r) = Inr (jnorm v, r)"
proof (induction v arbitrary: n r)
  case (PInt i)
  note head = num_text_no_constant(2,3) [OF num_ok_int, of "i < 0" "nat \<bar>i\<bar>"]
  then obtain m where n: "n = Suc m"
    using PInt.prems(2) by (cases n) (auto simp: int_repr_num_text)
  have "parse_value n (int_repr i @ r) = parse_atom (int_repr i @ r)"
    using head unfolding n by (intro parse_value_atom) (auto simp: int_repr_num_text hd_append is_digit_def)
  with parse_int_repr PInt.prems(3) show ?case by simp
next
  case (PFloat x)
  note head = float_repr_head [of x]
  then obtain m where n: "n = Suc m"
    using PFloat.prems(1,2) by (cases n) auto
  have "parse_value n (float_repr x @ r) = parse_atom (float_repr x @ r)"
    using head PFloat.prems(1) unfolding n by (intro parse_value_atom) (auto simp: hd_append)
  with parse_float_repr PFloat.prems show ?case by simp
next
  case (PStr s)
  then obtain m where n: "n = Suc m" by (cases n) (auto simp: str_text_def)
  then show ?case
    using PStr.prems by (simp add: str_text_def parse_value.simps parse_escape_str)
next
  case (PList vs)
  then obtain m where n: "n = Suc m" by (cases n) auto
  show ?case
  proof (cases "vs = []")
    case True
    then show ?thesis by (simp add: n parse_value.simps)
  next
    case False
    have ok: "\<forall>v \<in> set vs. val_ok v"
      using PList.prems(1) val_ok_PList by blast
    have "parse_elems m (join_comma (map json_dumps vs) @ 93 # r) = Inr (map jnorm vs, r)"
      using PList.prems(2) ok False by (intro parse_dumped_elems PList.IH) (auto simp: n)
    moreover have "hd (join_comma (map json_dumps vs) @ 93 # r) \<notin> {93, 125, 32, 9, 10, 13}"
      using hd_join_comma [of "map json_dumps vs" "93 # r"] dumps_head [of "hd vs"] ok False
      by (auto simp: hd_map)
    ultimately show ?thesis
      by (simp add: n parse_value_bracket)
  qed
next
  case (PDict kvs)
  then obtain m where n: "n = Suc m" by (cases n) auto
  let ?kvs = "sort_key fst kvs" and ?f = "\<lambda>kv. member_text (fst kv, json_dumps (snd kv))"
  show ?case
  proof (cases "kvs = []")
    case True
    then show ?thesis by (simp add: n parse_value.simps)
  next
    case False
    have ok: "distinct (map fst ([] @ ?kvs))" "\<forall>kv \<in> set ?kvs. str_ok (fst kv) \<and> val_ok (snd kv)"
      using PDict.prems(1) unfolding val_ok_PDict by (auto simp: distinct_map)
    have ne: "?kvs \<noteq> []"
      using False by (metis set_empty set_sort)
    have "parse_members m [] (join_comma (map ?f ?kvs) @ 125 # r) = Inr ([] @ map (map_prod id jnorm) ?kvs, r)"
    proof (rule parse_dumped_members [OF _ ok(2) ne ok(1)])
      show "length (join_comma (map ?f ?kvs)) < m"
        using PDict.prems(2) unfolding dumps_PDict by (simp add: n)
      fix kv n' r'
      assume kv: "kv \<in> set ?kvs" and fits: "length (json_dumps (snd kv)) \<le> n'" "ends_number r'"
      show "parse_value n' (json_dumps (snd kv) @ r') = Inr (jnorm (snd kv), r')"
        using kv ok(2) fits by (intro PDict.IH [of kv]) (auto simp: snds.simps)
    qed
    moreover have "hd (join_comma (map ?f ?kvs) @ 125 # r) \<notin> {93, 125, 32, 9, 10, 13}"
      using hd_join_comma [of "map ?f ?kvs" "125 # r"] ne
      by (auto simp: hd_map member_text_def str_text_def)
    ultimately show ?thesis
      unfolding dumps_PDict jnorm_PDict by (simp add: n parse_value_bracket)
  qed
next
  case PNone
  then obtain m where "n = Suc m" by (cases n) auto
  then show ?case by (simp add: parse_value_atom parse_atom_def constants_text [simplified])
next
  case (PBool b)
  then obtain m where "n = Suc m" by (cases n) (auto split: if_splits)
  then show ?case by (simp add: parse_value_atom parse_atom_def constants_text [simplified])
qed

text \<open>The text is ASCII, whatever the value.\<close>

lemma digit_text_ascii: "\<forall>d \<in> set ds. d < 10 \<Longrightarrow> c \<in> set (digit_text ds) \<Longrightarrow> c < 128"
  by (auto simp: digit_text_def)

lemma num_text_ascii:
  assumes "\<forall>d \<in> set ds. d < 10" and "\<forall>d \<in> set fs. d < 10" and "c \<in> set (num_text (neg, ds, fs, ex))"
  shows "c < 128"
proof -
  have "c \<in> set (exp_text e) \<Longrightarrow> c < 128" for e
    by (auto simp: exp_text_def Let_def dest!: digit_text_ascii [rotated] dest: dec_digits_bound split: if_splits)
  with assms show ?thesis
    by (auto simp: num_text_def dest: digit_text_ascii split: if_splits option.splits)
qed

lemma float_match_digits:
  assumes "float_match neg ds decpt = (n, is', fs, ex)" and "\<forall>d \<in> set ds. d < 10"
  shows "\<forall>d \<in> set is'. d < 10" and "\<forall>d \<in> set fs. d < 10"
  using assms by (auto simp: float_match_def split: if_splits dest: in_set_takeD in_set_dropD)

lemma float_repr_ascii: "c \<in> set (float_repr x) \<Longrightarrow> c < 128"
proof -
  have pos: "c \<in> set (float_repr_pos neg q) \<Longrightarrow> c < 128" for neg q
  proof -
    assume "c \<in> set (float_repr_pos neg q)"
    then obtain t decpt where "c \<in> set (num_text (float_match neg (dec_digits t) decpt))"
      by (auto simp: float_repr_pos_def Let_def split: prod.splits)
    moreover obtain n' ids fs ex where "float_match neg (dec_digits t) decpt = (n', ids, fs, ex)"
      by (metis prod.exhaust)
    ultimately show "c < 128"
      using float_match_digits num_text_ascii dec_digits_bound by metis
  qed
  assume "c \<in> set (float_repr x)"
  with pos show "c < 128"
    by (auto simp: float_repr_def split: pyfloat.splits if_splits)
qed

lemma join_comma_ascii: "c \<in> set (join_comma ts) \<Longrightarrow> c = 44 \<or> (\<exists>t \<in> set ts. c \<in> set t)"
  by (induction ts rule: join_comma.induct) auto

lemma str_text_ascii: "c \<in> set (str_text s) \<Longrightarrow> c < 128"
  by (auto simp: str_text_def dest: escape_str_ascii)

lemma json_dumps_ascii: "c \<in> set (json_dumps v) \<Longrightarrow> c < 128"
proof (induction v arbitrary: c)
  case (PInt i)
  then show ?case
    using num_text_ascii [of "dec_digits (nat \<bar>i\<bar>)" "[]" c] by (auto simp: int_repr_num_text dest: dec_digits_bound)
next
  case (PDict kvs)
  then show ?case
    unfolding dumps_PDict
    by (fastforce simp: member_text_def snds.simps dest!: join_comma_ascii dest: str_text_ascii)
qed (auto dest: float_repr_ascii str_text_ascii dest!: join_comma_ascii split: if_splits)

lemma json_loads_dumps:
  assumes "val_ok v"
  shows "json_loads (json_dumps v) = Inr (jnorm v)"
proof -
  have "hd (json_dumps v) < 128"
    using json_dumps_ascii [of "hd (json_dumps v)" v] dumps_head [OF assms] by simp
  then show ?thesis
    using skip_ws_dumps [OF assms, of "[]"] parse_dumps [OF assms, of _ "[]"]
    by (auto simp: json_loads_def ends_number_def)
qed

lemma json_dumps_all_ascii: "\<forall>c \<in> set (json_dumps v). c < 128"
  by (intro ballI json_dumps_ascii)

text \<open>The text depends on the value up to the order of keys only, and determines it up to that order.\<close>

lemma json_dumps_jnorm: "json_dumps (jnorm v) = json_dumps v"
proof (induction v)
  case (PDict kvs)
  have "json_dumps (snd (map_prod id jnorm kv)) = json_dumps (snd kv)" if "kv \<in> set (sort_key fst kvs)" for kv
    using PDict that by (auto simp: snds.simps)
  moreover have "sort_key fst (map (map_prod id jnorm) (sort_key fst kvs)) = map (map_prod id jnorm) (sort_key fst kvs)"
    by (simp add: sort_key_map_prod sort_key_stable_twice)
  ultimately show ?case
    unfolding jnorm_PDict dumps_PDict
    by (intro arg_cong [of _ _ "\<lambda>ts. 123 # join_comma ts @ [125]"]) (simp cong: map_cong)
qed (simp_all add: comp_def cong: map_cong)

lemma json_dumps_eq_iff:
  assumes "val_ok v" and "val_ok w"
  shows "json_dumps v = json_dumps w \<longleftrightarrow> jnorm v = jnorm w"
  using json_loads_dumps [OF assms(1)] json_loads_dumps [OF assms(2)] json_dumps_jnorm
  by (metis sum.inject(2))

declare u_simps [simp del]

end
