(* ===== verification/Py_Convert.thy ===== *)
theory Py_Convert
  imports Json
begin

text \<open>
  The built-in conversions of the values a message can carry. \<open>float(x)\<close>: integers (correctly rounded,
  \<open>OverflowError\<close> out of range), Booleans, floats, and strings with CPython's grammar (surrounding white
  space, Unicode decimal digits, underscores between digits, \<open>inf\<close>, \<open>infinity\<close> and \<open>nan\<close> in any case,
  an optional fraction and exponent). \<open>int(x)\<close>: floats are truncated (\<open>ValueError\<close> for a NaN,
  \<open>OverflowError\<close> for an infinity), strings are decimal numerals. Other values raise \<open>TypeError\<close>.
\<close>

section \<open>The text of a float\<close>

text \<open>The code points of the zeros of the decimal digit blocks, and the spaces, beyond ASCII.\<close>

definition digit_zeros :: "nat list" where
  "digit_zeros =
    [1632, 1776, 1984, 2406, 2534, 2662, 2790, 2918, 3046, 3174, 3302, 3430, 3558, 3664, 3792, 3872, 4160,
     4240, 6112, 6160, 6470, 6608, 6784, 6800, 6992, 7088, 7232, 7248, 42528, 43216, 43264, 43472, 43504,
     43600, 44016, 65296, 66720, 68912, 69734, 69872, 69942, 70096, 70384, 70736, 70864, 71248, 71360,
     71472, 71904, 72016, 72784, 73040, 73120, 92768, 92864, 93008, 120782, 120792, 120802, 120812,
     120822, 123200, 123632, 125264, 130032]"

definition unicode_spaces :: "nat list" where
  "unicode_spaces =
    [133, 160, 5760, 8192, 8193, 8194, 8195, 8196, 8197, 8198, 8199, 8200, 8201, 8202, 8232, 8233, 8239,
     8287, 12288]"

text \<open>A character in ASCII: a space for a space, a digit for a digit, a question mark otherwise.\<close>

definition ascii_of :: "nat \<Rightarrow> nat" where
  "ascii_of c =
     (if c < 127 then c
      else if c \<in> set unicode_spaces then 32
      else case find (\<lambda>z. z \<le> c \<and> c \<le> z + 9) digit_zeros of Some z \<Rightarrow> 48 + (c - z) | None \<Rightarrow> 63)"

definition strip_spaces :: "pystr \<Rightarrow> pystr" where
  "strip_spaces s = rev (dropWhile is_space (rev (dropWhile is_space s)))"

text \<open>Underscores are dropped when each stands between two digits.\<close>

fun drop_underscores :: "bool \<Rightarrow> pystr \<Rightarrow> pystr option" where
  "drop_underscores after_digit [] = Some []"
| "drop_underscores after_digit (c # cs) =
     (if c = 95 then
        (case cs of
           d # _ \<Rightarrow> if after_digit \<and> is_digit d then drop_underscores False cs else None
         | [] \<Rightarrow> None)
      else map_option (\<lambda>r. c # r) (drop_underscores (is_digit c) cs))"

definition lower_ascii :: "nat \<Rightarrow> nat" where
  "lower_ascii c = (if 65 \<le> c \<and> c \<le> 90 then c + 32 else c)"

definition match_float_sign :: "pystr \<Rightarrow> bool \<times> pystr" where
  "match_float_sign s =
     (case s of c # cs \<Rightarrow> if c = 45 then (True, cs) else if c = 43 then (False, cs) else (False, s)
      | [] \<Rightarrow> (False, s))"

definition float_literal :: "pystr \<Rightarrow> pyfloat option" where
  "float_literal s =
     (let (neg, t) = match_float_sign s; w = map lower_ascii t in
      if w = u ''inf'' \<or> w = u ''infinity'' then Some (if neg then FNegInf else FInf)
      else if w = u ''nan'' then Some FNaN
      else
        (let (ds, r) = span_digits t;
             (fs, r2) = (case r of c # cs \<Rightarrow> if c = 46 then span_digits cs else ([], r) | [] \<Rightarrow> ([], r));
             (ex, r3) = match_exp r2
         in if ds = [] \<and> fs = [] \<or> r3 \<noteq> [] then None
            else Some (float_of_match neg ds fs (case ex of None \<Rightarrow> 0 | Some e \<Rightarrow> e))))"

definition float_of_str :: "pystr \<Rightarrow> pyfloat res" where
  "float_of_str s =
     (case drop_underscores False (strip_spaces (map ascii_of s)) of
        None \<Rightarrow> Inl ValueError
      | Some t \<Rightarrow> (case float_literal t of None \<Rightarrow> Inl ValueError | Some x \<Rightarrow> Inr x))"

definition py_float :: "pyval \<Rightarrow> pyfloat res" where
  "py_float v =
     (case v of
        PFloat x \<Rightarrow> Inr x
      | PInt i \<Rightarrow> float_of_int i
      | PBool b \<Rightarrow> Inr (FFin (if b then 1 else 0))
      | PStr s \<Rightarrow> float_of_str s
      | _ \<Rightarrow> Inl TypeError)"

lemma float_of_str_raises: "float_of_str s = Inl e \<Longrightarrow> e = ValueError"
  by (auto simp: float_of_str_def split: option.splits)

lemma py_float_raises: "py_float v = Inl e \<Longrightarrow> e \<in> {ValueError, TypeError, OverflowError}"
  by (auto simp: py_float_def float_of_int_def dest: float_of_str_raises split: pyval.splits pyfloat.splits)

section \<open>Integers\<close>

definition int_of_str :: "pystr \<Rightarrow> int res" where
  "int_of_str s =
     (let (neg, t) = match_float_sign (strip_spaces (map ascii_of s)) in
      case drop_underscores False t of
        None \<Rightarrow> Inl ValueError
      | Some r \<Rightarrow>
          (case span_digits r of (ds, rest) \<Rightarrow>
             if ds = [] \<or> rest \<noteq> [] then Inl ValueError
             else Inr (if neg then - int (dec_val ds) else int (dec_val ds))))"

definition truncate :: "rat \<Rightarrow> int" where
  "truncate q = (if q < 0 then - \<lfloor>- q\<rfloor> else \<lfloor>q\<rfloor>)"

definition py_int :: "pyval \<Rightarrow> int res" where
  "py_int v =
     (case v of
        PInt i \<Rightarrow> Inr i
      | PBool b \<Rightarrow> Inr (if b then 1 else 0)
      | PFloat x \<Rightarrow> (case x of FFin q \<Rightarrow> Inr (truncate q) | FNegZero \<Rightarrow> Inr 0 | FNaN \<Rightarrow> Inl ValueError
                     | _ \<Rightarrow> Inl OverflowError)
      | PStr s \<Rightarrow> int_of_str s
      | _ \<Rightarrow> Inl TypeError)"

lemma py_int_raises: "py_int v = Inl e \<Longrightarrow> e \<in> {ValueError, TypeError, OverflowError}"
  by (cases v) (auto simp: py_int_def int_of_str_def Let_def split: pyfloat.splits prod.splits option.splits if_splits)

end
