(* ===== verification/Sha256.thy ===== *)
theory Sha256
  imports Mesh_Prelude
begin

unbundle bit_operations_syntax

text \<open>
  The two functions of Python's \<open>hashlib\<close> and \<open>hmac\<close> the program uses, written out on 32-bit
  words after FIPS 180-4 and RFC 2104: \<open>hashlib.sha256(data).digest()\<close> and
  \<open>hmac.new(key, msg, hashlib.sha256).digest()\<close>. Nothing is assumed about them; the security
  statements of later theories are reductions to equal digests.
\<close>

type_synonym w32 = "32 word"

section \<open>The compression function\<close>

definition rotr32 :: "nat \<Rightarrow> w32 \<Rightarrow> w32" where
  "rotr32 n w = drop_bit n w OR push_bit (32 - n) w"

definition sha_ch :: "w32 \<Rightarrow> w32 \<Rightarrow> w32 \<Rightarrow> w32" where
  "sha_ch e f g = (e AND f) XOR (NOT e AND g)"

definition sha_maj :: "w32 \<Rightarrow> w32 \<Rightarrow> w32 \<Rightarrow> w32" where
  "sha_maj a b c = (a AND b) XOR (a AND c) XOR (b AND c)"

definition big_sigma0 :: "w32 \<Rightarrow> w32" where
  "big_sigma0 a = rotr32 2 a XOR rotr32 13 a XOR rotr32 22 a"

definition big_sigma1 :: "w32 \<Rightarrow> w32" where
  "big_sigma1 e = rotr32 6 e XOR rotr32 11 e XOR rotr32 25 e"

definition small_sigma0 :: "w32 \<Rightarrow> w32" where
  "small_sigma0 w = rotr32 7 w XOR rotr32 18 w XOR drop_bit 3 w"

definition small_sigma1 :: "w32 \<Rightarrow> w32" where
  "small_sigma1 w = rotr32 17 w XOR rotr32 19 w XOR drop_bit 10 w"

text \<open>The round constants, in decimal.\<close>

definition sha256_k :: "w32 list" where
  "sha256_k =
    [1116352408, 1899447441, 3049323471, 3921009573, 961987163, 1508970993, 2453635748, 2870763221,
     3624381080, 310598401, 607225278, 1426881987, 1925078388, 2162078206, 2614888103, 3248222580,
     3835390401, 4022224774, 264347078, 604807628, 770255983, 1249150122, 1555081692, 1996064986,
     2554220882, 2821834349, 2952996808, 3210313671, 3336571891, 3584528711, 113926993, 338241895,
     666307205, 773529912, 1294757372, 1396182291, 1695183700, 1986661051, 2177026350, 2456956037,
     2730485921, 2820302411, 3259730800, 3345764771, 3516065817, 3600352804, 4094571909, 275423344,
     430227734, 506948616, 659060556, 883997877, 958139571, 1322822218, 1537002063, 1747873779,
     1955562222, 2024104815, 2227730452, 2361852424, 2428436474, 2756734187, 3204031479, 3329325298]"

type_synonym sha_state = "w32 \<times> w32 \<times> w32 \<times> w32 \<times> w32 \<times> w32 \<times> w32 \<times> w32"

definition sha256_iv :: sha_state where
  "sha256_iv = (1779033703, 3144134277, 1013904242, 2773480762,
                1359893119, 2600822924, 528734635, 1541459225)"

text \<open>
  The message schedule, kept newest word first: word \<open>t\<close> is computed from the words
  \<open>t - 2\<close>, \<open>t - 7\<close>, \<open>t - 15\<close> and \<open>t - 16\<close>.
\<close>

primrec sha_schedule :: "nat \<Rightarrow> w32 list \<Rightarrow> w32 list" where
  "sha_schedule 0 ws = ws"
| "sha_schedule (Suc n) ws =
     sha_schedule n
       ((small_sigma1 (ws ! 1) + ws ! 6 + small_sigma0 (ws ! 14) + ws ! 15) # ws)"

fun sha_round :: "sha_state \<Rightarrow> w32 \<times> w32 \<Rightarrow> sha_state" where
  "sha_round (a, b, c, d, e, f, g, h) (k, w) =
     (let t1 = h + big_sigma1 e + sha_ch e f g + k + w;
          t2 = big_sigma0 a + sha_maj a b c
      in (t1 + t2, a, b, c, d + t1, e, f, g))"

fun sha_add :: "sha_state \<Rightarrow> sha_state \<Rightarrow> sha_state" where
  "sha_add (a, b, c, d, e, f, g, h) (a', b', c', d', e', f', g', h') =
     (a + a', b + b', c + c', d + d', e + e', f + f', g + g', h + h')"

section \<open>Bytes and words\<close>

fun be_words :: "bytes \<Rightarrow> w32 list" where
  "be_words (a # b # c # d # bs) =
     of_nat (from_bytes_big [a, b, c, d]) # be_words bs"
| "be_words _ = []"

definition be_bytes :: "w32 \<Rightarrow> bytes" where
  "be_bytes w = map (\<lambda>i. of_nat (unat w div 256 ^ i)) [3, 2, 1, 0]"

text \<open>\<open>n.to_bytes(len, "big")\<close> of an integer that fits.\<close>

definition to_bytes_big :: "nat \<Rightarrow> nat \<Rightarrow> bytes" where
  "to_bytes_big len n = map (\<lambda>i. of_nat (n div 256 ^ i)) (rev [0..<len])"

definition sha_pad :: "bytes \<Rightarrow> bytes" where
  "sha_pad m =
     (let r = length m mod 64
      in m @ [0x80] @ replicate (if r < 56 then 55 - r else 119 - r) 0
         @ to_bytes_big 8 (8 * length m))"

definition sha_block :: "sha_state \<Rightarrow> bytes \<Rightarrow> sha_state" where
  "sha_block st blk =
     sha_add st (foldl sha_round st (zip sha256_k (rev (sha_schedule 48 (rev (be_words blk))))))"

fun sha_blocks :: "nat \<Rightarrow> sha_state \<Rightarrow> bytes \<Rightarrow> sha_state" where
  "sha_blocks 0 st bs = st"
| "sha_blocks (Suc n) st bs = sha_blocks n (sha_block st (take 64 bs)) (drop 64 bs)"

fun sha_output :: "sha_state \<Rightarrow> bytes" where
  "sha_output (a, b, c, d, e, f, g, h) = concat (map be_bytes [a, b, c, d, e, f, g, h])"

definition sha256 :: "bytes \<Rightarrow> bytes" where
  "sha256 m = (let p = sha_pad m in sha_output (sha_blocks (length p div 64) sha256_iv p))"

section \<open>HMAC\<close>

definition hmac_key_block :: "bytes \<Rightarrow> bytes" where
  "hmac_key_block key =
     (let k = if length key > 64 then sha256 key else key
      in k @ replicate (64 - length k) 0)"

definition hmac_sha256 :: "bytes \<Rightarrow> bytes \<Rightarrow> bytes" where
  "hmac_sha256 key msg =
     sha256 (map (\<lambda>b. b XOR 0x5c) (hmac_key_block key)
       @ sha256 (map (\<lambda>b. b XOR 0x36) (hmac_key_block key) @ msg))"

section \<open>Digest lengths, padding, byte order\<close>

lemma length_sha_output [simp]: "length (sha_output st) = 32"
  by (cases st rule: sha_output.cases) (simp add: be_bytes_def)

lemma length_sha256 [simp]: "length (sha256 m) = 32"
  by (simp add: sha256_def Let_def)

lemma length_hmac_sha256 [simp]: "length (hmac_sha256 key msg) = 32"
  by (simp add: hmac_sha256_def)

lemma length_hmac_key_block [simp]: "length (hmac_key_block key) = 64"
  by (auto simp: hmac_key_block_def Let_def)

lemma length_to_bytes_big [simp]: "length (to_bytes_big len n) = len"
  by (simp add: to_bytes_big_def)

text \<open>The padded message is a whole number of blocks, so no byte of it is left out.\<close>

lemma sha_pad_blocks:
  "length (sha_pad m) = 64 * (length m div 64 + (if length m mod 64 < 56 then 1 else 2))"
proof -
  define q r where "q = length m div 64" and "r = length m mod 64"
  then have "length m = 64 * q + r" and "r < 64"
    by simp_all
  then show ?thesis
    unfolding sha_pad_def Let_def q_def [symmetric] r_def [symmetric] by simp
qed

lemma to_bytes_big_Suc:
  "to_bytes_big (Suc len) n = to_bytes_big len (n div 256) @ [of_nat n]"
proof -
  have "rev [0..<Suc len] = map Suc (rev [0..<len]) @ [0]"
    by (simp add: map_Suc_upt flip: rev_map upt_conv_Cons) (simp add: upt_conv_Cons)
  then show ?thesis
    by (simp add: to_bytes_big_def comp_def div_mult2_eq del: upt_Suc)
qed

lemma from_to_bytes_big: "n < 256 ^ len \<Longrightarrow> from_bytes_big (to_bytes_big len n) = n"
proof (induction len arbitrary: n)
  case (Suc len)
  then have "n div 256 < 256 ^ len"
    by (simp add: less_mult_imp_div_less mult.commute)
  with Suc.IH show ?case
    by (simp add: to_bytes_big_Suc unat_of_nat)
qed (simp add: to_bytes_big_def)

end
