(* ===== verification/Signed_Message.thy ===== *)
theory Signed_Message
  imports Sha256
begin

text \<open>
  The contract of a message signature in this program: a message has a canonical form that does not
  cover its signature field and determines the signed view of the message; signing stores the
  HMAC-SHA256 tag of the canonical form; verifying recomputes the tag and compares. The generic
  signatures of the control plane and those of task requests both keep it.
\<close>

locale signed_message =
  fixes canon :: "'m \<Rightarrow> bytes res"
    and view :: "'m \<Rightarrow> 'v"
    and ok :: "'m \<Rightarrow> bool"
    and key_ok :: "bytes \<Rightarrow> bool"
    and tag_of :: "'m \<Rightarrow> bytes option"
    and sign :: "bytes \<Rightarrow> 'm \<Rightarrow> 'm res"
    and verify :: "bytes \<Rightarrow> 'm \<Rightarrow> bool"
  assumes sign_canon: "sign k m = Inr s \<Longrightarrow> \<exists>c. canon m = Inr c \<and> canon s = Inr c \<and> tag_of s = Some (hmac_sha256 k c)"
    and verify_iff: "key_ok k \<Longrightarrow> verify k m \<longleftrightarrow> (\<exists>c. canon m = Inr c \<and> tag_of m = Some (hmac_sha256 k c))"
    and canon_iff: "ok m \<Longrightarrow> ok m' \<Longrightarrow> canon m = Inr c \<Longrightarrow> canon m' = Inr c \<longleftrightarrow> view m' = view m"
begin

lemma verify_signed: "key_ok k \<Longrightarrow> sign k m = Inr s \<Longrightarrow> verify k s"
  using sign_canon verify_iff by blast

text \<open>
  A message that carries the tag of a message signed before passes exactly when it has the same view,
  or its canonical form is a different text with the same tag.
\<close>

lemma accepted_iff:
  assumes "key_ok k" and "ok m" and "ok m'" and "sign k m = Inr s" and "tag_of m' = tag_of s"
  shows "verify k m' \<longleftrightarrow> view m' = view m \<or>
    (\<exists>c c'. c \<noteq> c' \<and> canon m = Inr c \<and> canon m' = Inr c' \<and> hmac_sha256 k c = hmac_sha256 k c')"
proof -
  obtain c where c: "canon m = Inr c" "tag_of s = Some (hmac_sha256 k c)"
    using sign_canon [OF assms(4)] by blast
  have "verify k m' \<longleftrightarrow> (\<exists>c'. canon m' = Inr c' \<and> hmac_sha256 k c = hmac_sha256 k c')"
    using assms(5) c(2) by (auto simp: verify_iff [OF assms(1)])
  then show ?thesis
    using canon_iff [OF assms(2,3) c(1)] c(1) by auto
qed

lemma verified_again: "key_ok k \<Longrightarrow> verify k m \<Longrightarrow> canon m' = canon m \<Longrightarrow> tag_of m' = tag_of m \<Longrightarrow> verify k m'"
  by (simp add: verify_iff)

end

end
