(* ===== verification/Json_Depth.thy ===== *)
theory Json_Depth
  imports Json
begin

text \<open>
  \<open>json.loads\<close> under the limits of the interpreter. CPython's scanner recurses once for every array or object
  it enters and raises \<open>RecursionError\<close> at the opening bracket for which no depth is left; an integer with more
  digits than \<open>int\<close> converts raises \<open>ValueError\<close>. \<open>json_loads_within digits depth\<close> is this reader, for any
  limits; \<open>json_loads\<close> is the reader without them. They differ only by these exceptions, and
  \<open>RecursionError\<close> takes more than \<open>depth\<close> opening brackets.
\<close>

definition atom_within :: "nat \<Rightarrow> pystr \<Rightarrow> (pyval \<times> pystr) res" where
  "atom_within digits s =
     (case first_prefix json_constants s of
        Some vr \<Rightarrow> Inr vr
      | None \<Rightarrow>
          (case match_number s of
             Some ((neg, ds, fs, ex), r) \<Rightarrow>
               if fs = [] \<and> ex = None \<and> digits < length ds then Inl ValueError else Inr (number_value (neg, ds, fs, ex), r)
           | None \<Rightarrow> Inl JSONDecodeError))"

fun value_within :: "nat \<Rightarrow> nat \<Rightarrow> nat \<Rightarrow> pystr \<Rightarrow> (pyval \<times> pystr) res"
  and elems_within :: "nat \<Rightarrow> nat \<Rightarrow> nat \<Rightarrow> pystr \<Rightarrow> (pyval list \<times> pystr) res"
  and members_within :: "nat \<Rightarrow> nat \<Rightarrow> nat \<Rightarrow> (pystr \<times> pyval) list \<Rightarrow> pystr \<Rightarrow> ((pystr \<times> pyval) list \<times> pystr) res"
where
  "value_within 0 digits depth s = Inl RecursionError"
| "value_within (Suc n) digits depth s =
     (case s of
        [] \<Rightarrow> Inl JSONDecodeError
      | c # cs \<Rightarrow>
          if c = 34 then and_then (parse_string cs) (\<lambda>(t, r). Inr (PStr t, r))
          else if c = 123 then
            (if depth = 0 then Inl RecursionError
             else
               (case skip_ws cs of
                  [] \<Rightarrow> Inl JSONDecodeError
                | d # ds \<Rightarrow>
                    if d = 125 then Inr (PDict [], ds)
                    else and_then (members_within n digits (depth - 1) [] (d # ds)) (\<lambda>(kvs, r). Inr (PDict kvs, r))))
          else if c = 91 then
            (if depth = 0 then Inl RecursionError
             else
               (case skip_ws cs of
                  [] \<Rightarrow> Inl JSONDecodeError
                | d # ds \<Rightarrow>
                    if d = 93 then Inr (PList [], ds)
                    else and_then (elems_within n digits (depth - 1) (d # ds)) (\<lambda>(vs, r). Inr (PList vs, r))))
          else atom_within digits s)"
| "elems_within 0 digits depth s = Inl RecursionError"
| "elems_within (Suc n) digits depth s =
     and_then (value_within n digits depth s) (\<lambda>(v, r).
       case skip_ws r of
         [] \<Rightarrow> Inl JSONDecodeError
       | d # ds \<Rightarrow>
           if d = 93 then Inr ([v], ds)
           else if d = 44 then and_then (elems_within n digits depth (skip_ws ds)) (\<lambda>(vs, r'). Inr (v # vs, r'))
           else Inl JSONDecodeError)"
| "members_within 0 digits depth acc s = Inl RecursionError"
| "members_within (Suc n) digits depth acc s =
     (case s of
        [] \<Rightarrow> Inl JSONDecodeError
      | c # cs \<Rightarrow>
          if c \<noteq> 34 then Inl JSONDecodeError
          else and_then (parse_string cs) (\<lambda>(k, r).
            case skip_ws r of
              [] \<Rightarrow> Inl JSONDecodeError
            | d # ds \<Rightarrow>
                if d \<noteq> 58 then Inl JSONDecodeError
                else and_then (value_within n digits depth (skip_ws ds)) (\<lambda>(v, r').
                  case skip_ws r' of
                    [] \<Rightarrow> Inl JSONDecodeError
                  | e # es \<Rightarrow>
                      if e = 125 then Inr (AList.update k v acc, es)
                      else if e = 44 then members_within n digits depth (AList.update k v acc) (skip_ws es)
                      else Inl JSONDecodeError)))"

declare value_within.simps [simp del] elems_within.simps [simp del] members_within.simps [simp del]

definition json_loads_within :: "nat \<Rightarrow> nat \<Rightarrow> pystr \<Rightarrow> pyval res" where
  "json_loads_within digits depth s =
     (if s \<noteq> [] \<and> hd s = 0xFEFF then Inl JSONDecodeError
      else and_then (value_within (2 * length s + 1) digits depth (skip_ws s)) (\<lambda>(v, r).
             if skip_ws r = [] then Inr v else Inl JSONDecodeError))"

lemmas within_simps = value_within.simps elems_within.simps members_within.simps

section \<open>Texts with few brackets\<close>

primrec brackets :: "pystr \<Rightarrow> nat" where
  "brackets [] = 0"
| "brackets (c # cs) = (if c = 91 \<or> c = 123 then Suc (brackets cs) else brackets cs)"

lemma brackets_drop: "brackets (drop n s) \<le> brackets s"
  by (induction s arbitrary: n) (auto simp: drop_Cons' intro: le_SucI)

lemma brackets_skip_ws: "brackets (skip_ws s) = brackets s"
  by (induction s) auto

lemma brackets_span_digits: "brackets (snd (span_digits s)) \<le> brackets s"
  by (induction s) (auto split: prod.splits)

lemma brackets_match_sign: "match_sign s = (neg, r) \<Longrightarrow> brackets r \<le> brackets s"
  by (auto simp: match_sign_def split: list.splits if_splits)

lemma brackets_match_int: "match_int s = Some (ds, r) \<Longrightarrow> brackets r \<le> brackets s"
  using brackets_span_digits [of s] by (auto simp: match_int_def split: list.splits if_splits)

lemma brackets_match_frac: "match_frac s = (fs, r) \<Longrightarrow> brackets r \<le> brackets s"
  using brackets_span_digits [of "tl s"] by (auto simp: match_frac_def split: list.splits if_splits)

lemma brackets_match_exp: "match_exp s = (ex, r) \<Longrightarrow> brackets r \<le> brackets s"
  using brackets_span_digits [of "tl s"] brackets_span_digits [of "tl (tl s)"]
  by (auto simp: match_exp_def split: list.splits if_splits prod.splits)

lemma brackets_atom: "parse_atom s = Inr (v, r) \<Longrightarrow> brackets r \<le> brackets s"
proof -
  have "first_prefix ps s = Some (v, r) \<Longrightarrow> brackets r \<le> brackets s" for ps
    by (induction ps s rule: first_prefix.induct) (auto simp: strip_prefix_def brackets_drop split: if_splits)
  moreover have "match_number s = Some (m, r) \<Longrightarrow> brackets r \<le> brackets s" for m
    by (auto simp: match_number_def split: option.splits prod.splits
        dest!: brackets_match_sign brackets_match_int brackets_match_frac brackets_match_exp)
  ultimately show "parse_atom s = Inr (v, r) \<Longrightarrow> brackets r \<le> brackets s"
    by (auto simp: parse_atom_def split: option.splits prod.splits)
qed

lemma brackets_unescape: "unescape_u s = Some (n, r) \<Longrightarrow> brackets r \<le> brackets s"
proof -
  assume u: "unescape_u s = Some (n, r)"
  have hex4: "hex4 t = Some (m, q) \<Longrightarrow> brackets q \<le> brackets t" for t m q
    by (auto simp: hex4_def split: list.splits option.splits)
  from u obtain c t where t: "hex4 s = Some (c, t)"
    by (auto simp: unescape_u_def split: option.splits)
  have "brackets r \<le> brackets t"
    using u t by (fastforce simp: unescape_u_def split: option.splits if_splits list.splits dest: hex4)
  with hex4 [OF t] show ?thesis by simp
qed

lemma brackets_string: "parse_string s = Inr (t, r) \<Longrightarrow> brackets r \<le> brackets s"
proof (induction s arbitrary: t r rule: parse_string.induct)
  case (2 c cs)
  then show ?case
    by (fastforce simp: res_simps split: if_splits list.splits option.splits dest: brackets_unescape)
qed simp

lemma brackets_skip_Cons: "skip_ws s = c # r \<Longrightarrow> brackets r \<le> brackets s"
  by (metis brackets.simps(2) brackets_skip_ws le_SucI order_refl)

lemma brackets_parse:
  "(\<forall>s v r. parse_value n s = Inr (v, r) \<longrightarrow> brackets r \<le> brackets s) \<and>
   (\<forall>s v r. parse_elems n s = Inr (v, r) \<longrightarrow> brackets r \<le> brackets s) \<and>
   (\<forall>acc s v r. parse_members n acc s = Inr (v, r) \<longrightarrow> brackets r \<le> brackets s)"
proof (induction n)
  case 0
  then show ?case by (simp add: parse_simps)
next
  case (Suc n)
  then have IH: "parse_value n s = Inr (v, r) \<Longrightarrow> brackets r \<le> brackets s" "parse_elems n s = Inr (vs, r) \<Longrightarrow> brackets r \<le> brackets s"
    "parse_members n acc s = Inr (kvs, r) \<Longrightarrow> brackets r \<le> brackets s" for s v vs acc kvs r
    by blast+
  have "brackets r \<le> brackets s" if "parse_value (Suc n) s = Inr (v, r)" for s v r
    using that by (auto simp: parse_value.simps res_simps split: list.splits if_splits
        dest!: IH brackets_string brackets_atom brackets_skip_Cons)
  moreover have "brackets r \<le> brackets s" if elems: "parse_elems (Suc n) s = Inr (v, r)" for s v r
  proof -
    obtain v0 r0 where v0: "parse_value n s = Inr (v0, r0)"
      using elems by (cases "parse_value n s") (auto simp: parse_elems.simps)
    then obtain d ds where ds: "skip_ws r0 = d # ds"
      using elems by (cases "skip_ws r0") (auto simp: parse_elems.simps)
    then have "brackets r \<le> brackets ds"
      using elems v0 by (auto simp: parse_elems.simps res_simps brackets_skip_ws split: if_splits dest!: IH(2))
    with brackets_skip_Cons [OF ds] IH(1) [OF v0] show ?thesis by simp
  qed
  moreover have "brackets r \<le> brackets s" if members: "parse_members (Suc n) acc s = Inr (v, r)" for acc s v r
  proof -
    obtain cs where s: "s = 34 # cs"
      using members by (cases s) (auto simp: parse_members.simps split: if_splits)
    obtain k r0 where k: "parse_string cs = Inr (k, r0)"
      using members by (cases "parse_string cs") (auto simp: parse_members.simps s)
    then obtain ds where ds: "skip_ws r0 = 58 # ds"
      using members by (cases "skip_ws r0") (auto simp: parse_members.simps s split: if_splits)
    obtain v0 r1 where v0: "parse_value n (skip_ws ds) = Inr (v0, r1)"
      using members k ds by (cases "parse_value n (skip_ws ds)") (auto simp: parse_members.simps s)
    then obtain e es where es: "skip_ws r1 = e # es"
      using members k ds by (cases "skip_ws r1") (auto simp: parse_members.simps s)
    then have "brackets r \<le> brackets es"
      using members k ds v0 by (auto simp: parse_members.simps s brackets_skip_ws split: if_splits dest!: IH(3))
    with brackets_skip_Cons [OF es] IH(1) [OF v0] brackets_skip_Cons [OF ds] brackets_string [OF k] show ?thesis
      by (simp add: s brackets_skip_ws)
  qed
  ultimately show ?case by blast
qed

section \<open>Only the exceptions differ\<close>

definition cut :: "bool \<Rightarrow> 'a res \<Rightarrow> 'a res \<Rightarrow> bool" where
  "cut shallow x y \<longleftrightarrow> x = y \<or> x = Inl ValueError \<or> (\<not> shallow \<and> x = Inl RecursionError)"

lemma cut_refl [simp, intro]: "cut sh x x"
  by (simp add: cut_def)

lemma cut_and_then:
  assumes "cut sh' x y" and "sh \<Longrightarrow> sh'" and "\<And>a b. y = Inr (a, b) \<Longrightarrow> cut sh (f (a, b)) (g (a, b))"
  shows "cut sh (and_then x f) (and_then y g)"
  using assms by (cases y) (auto simp: cut_def)

lemma cut_atom: "cut sh (atom_within digits s) (parse_atom s)"
  by (auto simp: cut_def atom_within_def parse_atom_def split: option.splits)

lemma cut_mono: "cut sh' x y \<Longrightarrow> (sh \<Longrightarrow> sh') \<Longrightarrow> cut sh x y"
  by (auto simp: cut_def)

lemma cut_value:
  assumes "\<And>depth s. cut (brackets s \<le> depth) (elems_within n digits depth s) (parse_elems n s)"
    and "\<And>depth acc s. cut (brackets s \<le> depth) (members_within n digits depth acc s) (parse_members n acc s)"
  shows "cut (brackets s \<le> depth) (value_within (Suc n) digits depth s) (parse_value (Suc n) s)"
proof (cases s)
  case (Cons c cs)
  have ws: "skip_ws cs = d # ds \<Longrightarrow> brackets (d # ds) = brackets cs" for d ds
    by (metis brackets_skip_ws)
  have elems: "cut (brackets s \<le> depth) (and_then (elems_within n digits (depth - 1) (d # ds)) (\<lambda>(vs, r). Inr (PList vs, r)))
      (and_then (parse_elems n (d # ds)) (\<lambda>(vs, r). Inr (PList vs, r)))" if "skip_ws cs = d # ds" "c = 91" for d ds
    by (rule cut_and_then [OF assms(1)]) (use ws [OF that(1)] that(2) Cons in auto)
  have members: "cut (brackets s \<le> depth) (and_then (members_within n digits (depth - 1) [] (d # ds)) (\<lambda>(vs, r). Inr (PDict vs, r)))
      (and_then (parse_members n [] (d # ds)) (\<lambda>(vs, r). Inr (PDict vs, r)))" if "skip_ws cs = d # ds" "c = 123" for d ds
    by (rule cut_and_then [OF assms(2)]) (use ws [OF that(1)] that(2) Cons in auto)
  have deep: "cut (brackets s \<le> depth) (Inl RecursionError) x" if "depth = 0" "c = 91 \<or> c = 123" for x :: "(pyval \<times> pystr) res"
    using that Cons by (auto simp: cut_def)
  show ?thesis
    unfolding value_within.simps parse_value.simps Cons list.case
    using elems members deep cut_atom [of _ digits s] unfolding Cons by (auto split: list.split)
qed (simp add: value_within.simps parse_value.simps)

lemma cut_elems:
  assumes "\<And>depth s. cut (brackets s \<le> depth) (value_within n digits depth s) (parse_value n s)"
    and "\<And>depth s. cut (brackets s \<le> depth) (elems_within n digits depth s) (parse_elems n s)"
  shows "cut (brackets s \<le> depth) (elems_within (Suc n) digits depth s) (parse_elems (Suc n) s)"
  unfolding elems_within.simps parse_elems.simps
proof (rule cut_and_then [OF assms(1)])
  fix v r
  assume "parse_value n s = Inr (v, r)"
  then have r: "brackets r \<le> brackets s"
    using brackets_parse by blast
  have "cut (brackets s \<le> depth) (and_then (elems_within n digits depth (skip_ws ds)) (\<lambda>(vs, r'). Inr (v # vs, r')))
      (and_then (parse_elems n (skip_ws ds)) (\<lambda>(vs, r'). Inr (v # vs, r')))" if "skip_ws r = d # ds" for d ds
    by (rule cut_and_then [OF assms(2)]) (use brackets_skip_Cons [OF that] r in \<open>auto simp: brackets_skip_ws\<close>)
  then show "cut (brackets s \<le> depth) (case (v, r) of (v, r) \<Rightarrow> case skip_ws r of
        [] \<Rightarrow> Inl JSONDecodeError
      | d # ds \<Rightarrow> if d = 93 then Inr ([v], ds)
                  else if d = 44 then and_then (elems_within n digits depth (skip_ws ds)) (\<lambda>(vs, r'). Inr (v # vs, r'))
                  else Inl JSONDecodeError)
      (case (v, r) of (v, r) \<Rightarrow> case skip_ws r of
        [] \<Rightarrow> Inl JSONDecodeError
      | d # ds \<Rightarrow> if d = 93 then Inr ([v], ds)
                  else if d = 44 then and_then (parse_elems n (skip_ws ds)) (\<lambda>(vs, r'). Inr (v # vs, r'))
                  else Inl JSONDecodeError)"
    by (auto split: list.split)
qed simp

lemma cut_members:
  assumes "\<And>depth s. cut (brackets s \<le> depth) (value_within n digits depth s) (parse_value n s)"
    and "\<And>depth acc s. cut (brackets s \<le> depth) (members_within n digits depth acc s) (parse_members n acc s)"
  shows "cut (brackets s \<le> depth) (members_within (Suc n) digits depth acc s) (parse_members (Suc n) acc s)"
proof (cases s)
  case (Cons c cs)
  let ?sh = "brackets s \<le> depth"
  have val: "cut ?sh
      (and_then (value_within n digits depth (skip_ws ds)) (\<lambda>(v, r').
         case skip_ws r' of [] \<Rightarrow> Inl JSONDecodeError
         | e # es \<Rightarrow> if e = 125 then Inr (AList.update k v acc, es)
                     else if e = 44 then members_within n digits depth (AList.update k v acc) (skip_ws es) else Inl JSONDecodeError))
      (and_then (parse_value n (skip_ws ds)) (\<lambda>(v, r').
         case skip_ws r' of [] \<Rightarrow> Inl JSONDecodeError
         | e # es \<Rightarrow> if e = 125 then Inr (AList.update k v acc, es)
                     else if e = 44 then parse_members n (AList.update k v acc) (skip_ws es) else Inl JSONDecodeError))"
    if "brackets ds \<le> brackets s" for k ds
  proof (rule cut_and_then [OF assms(1)])
    fix v r'
    assume "parse_value n (skip_ws ds) = Inr (v, r')"
    then have r': "brackets r' \<le> brackets s"
      using brackets_parse [of n] that brackets_skip_ws [of ds] by (metis le_trans)
    have "cut ?sh (members_within n digits depth (AList.update k v acc) (skip_ws es)) (parse_members n (AList.update k v acc) (skip_ws es))"
      if "skip_ws r' = e # es" for e es
      by (rule cut_mono [OF assms(2)]) (use brackets_skip_Cons [OF that] r' in \<open>auto simp: brackets_skip_ws\<close>)
    then show "cut ?sh (case (v, r') of (v, r') \<Rightarrow>
         case skip_ws r' of [] \<Rightarrow> Inl JSONDecodeError
         | e # es \<Rightarrow> if e = 125 then Inr (AList.update k v acc, es)
                     else if e = 44 then members_within n digits depth (AList.update k v acc) (skip_ws es) else Inl JSONDecodeError)
       (case (v, r') of (v, r') \<Rightarrow>
         case skip_ws r' of [] \<Rightarrow> Inl JSONDecodeError
         | e # es \<Rightarrow> if e = 125 then Inr (AList.update k v acc, es)
                     else if e = 44 then parse_members n (AList.update k v acc) (skip_ws es) else Inl JSONDecodeError)"
      by (auto split: list.split)
  qed (use that in \<open>simp add: brackets_skip_ws\<close>)
  have "brackets ds \<le> brackets s" if "parse_string cs = Inr (k, r)" "skip_ws r = d # ds" for k r d ds
    using brackets_string [OF that(1)] brackets_skip_Cons [OF that(2)] Cons by auto
  with val show ?thesis
    unfolding members_within.simps parse_members.simps Cons list.case
    by (auto intro!: cut_and_then [of True] split: list.split)
qed (simp add: members_within.simps parse_members.simps)

lemma within_cut:
  "(\<forall>depth s. cut (brackets s \<le> depth) (value_within n digits depth s) (parse_value n s)) \<and>
   (\<forall>depth s. cut (brackets s \<le> depth) (elems_within n digits depth s) (parse_elems n s)) \<and>
   (\<forall>depth acc s. cut (brackets s \<le> depth) (members_within n digits depth acc s) (parse_members n acc s))"
proof (induction n)
  case 0
  then show ?case by (simp add: within_simps parse_simps)
next
  case (Suc n)
  then show ?case
    by (intro conjI allI cut_value cut_elems cut_members) blast+
qed

lemma json_loads_within_cut: "cut (brackets s \<le> depth) (json_loads_within digits depth s) (json_loads s)"
  unfolding json_loads_within_def json_loads_def
  by (auto intro!: cut_and_then within_cut [THEN conjunct1, rule_format] simp: brackets_skip_ws)

text \<open>A text of opening brackets only, one more than the depth allows.\<close>

lemma value_within_too_deep: "2 * depth < n \<Longrightarrow> value_within n digits depth (replicate (Suc depth) 91) = Inl RecursionError"
proof (induction depth arbitrary: n)
  case 0
  then show ?case by (cases n) (simp_all add: value_within.simps)
next
  case (Suc depth)
  then obtain k where n: "n = Suc (Suc k)" and "2 * depth < k"
    by (cases n; cases "n - 1") auto
  then show ?case
    using Suc.IH [of k] by (simp add: value_within.simps elems_within.simps)
qed

lemma json_loads_within_too_deep: "json_loads_within digits depth (replicate (Suc depth) 91) = Inl RecursionError"
  using value_within_too_deep [of depth "2 * Suc depth + 1" digits] by (simp add: json_loads_within_def)

end
