(* ===== verification/Protocol.thy ===== *)
theory Protocol
  imports Py_Convert Signed_Message Json_Depth
begin

text \<open>
  \<open>meshweaver/protocol.py\<close>: message constructors, the JSON codec, structural validation and the
  HMAC-SHA256 signature over the canonical form. A message is the dictionary \<open>json\<close> works on, with
  string keys. \<open>uuid.uuid4()\<close> and \<open>time.time()\<close> are arguments of the constructors that call them; an
  optional argument that Python leaves out as \<open>None\<close> is \<open>PNone\<close>.
\<close>

type_synonym pydict = "(pystr \<times> pyval) list"

text \<open>\<open>d.get(k)\<close>.\<close>

definition dict_get :: "pydict \<Rightarrow> pystr \<Rightarrow> pyval" where
  "dict_get d k = (case map_of d k of Some v \<Rightarrow> v | None \<Rightarrow> PNone)"

text \<open>\<open>d[k]\<close>.\<close>

definition dict_item :: "pydict \<Rightarrow> pystr \<Rightarrow> pyval res" where
  "dict_item d k = (case map_of d k of Some v \<Rightarrow> Inr v | None \<Rightarrow> Inl KeyError)"

section \<open>Message types\<close>

definition MSG_PING :: pystr where "MSG_PING = u ''PING''"
definition MSG_PONG :: pystr where "MSG_PONG = u ''PONG''"
definition MSG_FIND_NODE :: pystr where "MSG_FIND_NODE = u ''FIND_NODE''"
definition MSG_FOUND_NODES :: pystr where "MSG_FOUND_NODES = u ''FOUND_NODES''"
definition MSG_TASK_REQUEST :: pystr where "MSG_TASK_REQUEST = u ''TASK_REQUEST''"
definition TASK_ROUTE_REQUEST :: pystr where "TASK_ROUTE_REQUEST = u ''TASK_ROUTE_REQUEST''"
definition ROUTE_CANDIDATE_RESPONSE :: pystr where "ROUTE_CANDIDATE_RESPONSE = u ''ROUTE_CANDIDATE_RESPONSE''"
definition ROUTE_DECISION :: pystr where "ROUTE_DECISION = u ''ROUTE_DECISION''"
definition HEARTBEAT :: pystr where "HEARTBEAT = u ''HEARTBEAT''"
definition HEARTBEAT_ACK :: pystr where "HEARTBEAT_ACK = u ''HEARTBEAT_ACK''"

lemmas message_types = MSG_PING_def MSG_PONG_def MSG_FIND_NODE_def MSG_FOUND_NODES_def
  MSG_TASK_REQUEST_def TASK_ROUTE_REQUEST_def ROUTE_CANDIDATE_RESPONSE_def ROUTE_DECISION_def
  HEARTBEAT_def HEARTBEAT_ACK_def

section \<open>Constructors\<close>

definition create_message :: "pystr \<Rightarrow> pystr \<Rightarrow> pyval \<Rightarrow> pyval \<Rightarrow> pydict res" where
  "create_message message_type sender_id request_id payload =
     (if message_type = [] \<or> sender_id = [] then Inl ValueError
      else Inr ([(u ''type'', PStr message_type), (u ''sender_id'', PStr sender_id)]
        @ (if request_id \<noteq> PNone then [(u ''request_id'', request_id)] else [])
        @ (if payload \<noteq> PNone then [(u ''payload'', payload)] else [])))"

definition create_request :: "pystr \<Rightarrow> pystr \<Rightarrow> pystr \<Rightarrow> pyval \<Rightarrow> pydict res" where
  "create_request uuid message_type sender_id payload =
     create_message message_type sender_id (PStr uuid) payload"

definition create_task_route_request ::
    "pystr \<Rightarrow> pyfloat \<Rightarrow> pystr \<Rightarrow> pystr \<Rightarrow> pyval \<Rightarrow> pyval \<Rightarrow> pyval list \<Rightarrow> pydict res" where
  "create_task_route_request uuid now sender_id task_id candidate_node cpu_load candidates =
     create_request uuid TASK_ROUTE_REQUEST sender_id
       (PDict [(u ''task_id'', PStr task_id), (u ''source_node'', PStr sender_id),
               (u ''candidate_node'', candidate_node), (u ''cpu_load'', cpu_load),
               (u ''candidates'', PList candidates), (u ''timestamp'', PFloat now)])"

definition create_route_candidate_response ::
    "pyfloat \<Rightarrow> pystr \<Rightarrow> pystr \<Rightarrow> pystr \<Rightarrow> pystr \<Rightarrow> pyval \<Rightarrow> pydict res" where
  "create_route_candidate_response now sender_id request_id task_id candidate_node cpu_load =
     and_then (py_float cpu_load) (\<lambda>x.
       create_message ROUTE_CANDIDATE_RESPONSE sender_id (PStr request_id)
         (PDict [(u ''task_id'', PStr task_id), (u ''source_node'', PStr sender_id),
                 (u ''candidate_node'', PStr candidate_node), (u ''cpu_load'', PFloat x),
                 (u ''timestamp'', PFloat now)]))"

definition create_route_decision ::
    "pyfloat \<Rightarrow> pystr \<Rightarrow> pystr \<Rightarrow> pystr \<Rightarrow> pyval \<Rightarrow> pyval \<Rightarrow> pydict res" where
  "create_route_decision now sender_id task_id candidate_node cpu_load request_id =
     create_message ROUTE_DECISION sender_id request_id
       (PDict [(u ''task_id'', PStr task_id), (u ''source_node'', PStr sender_id),
               (u ''candidate_node'', PStr candidate_node), (u ''cpu_load'', cpu_load),
               (u ''timestamp'', PFloat now)])"

definition build_ping :: "pystr \<Rightarrow> pyval \<Rightarrow> pydict res" where
  "build_ping sender_id_hex token =
     (if sender_id_hex = [] then Inl ValueError
      else if \<not> truthy token then Inl ValueError
      else Inr [(u ''type'', PStr MSG_PING), (u ''sender_id'', PStr sender_id_hex), (u ''token'', token)])"

definition build_pong :: "pystr \<Rightarrow> pyval \<Rightarrow> pydict res" where
  "build_pong sender_id_hex token =
     (if sender_id_hex = [] then Inl ValueError
      else if \<not> truthy token then Inl ValueError
      else Inr [(u ''type'', PStr MSG_PONG), (u ''sender_id'', PStr sender_id_hex), (u ''token'', token)])"

definition build_find_node :: "pystr \<Rightarrow> pystr \<Rightarrow> pydict res" where
  "build_find_node sender_id_hex target_id_hex =
     (if sender_id_hex = [] then Inl ValueError
      else if target_id_hex = [] then Inl ValueError
      else Inr [(u ''type'', PStr MSG_FIND_NODE), (u ''sender_id'', PStr sender_id_hex),
                (u ''target_id'', PStr target_id_hex)])"

definition build_found_nodes :: "pystr \<Rightarrow> pystr \<Rightarrow> pyval \<Rightarrow> pydict res" where
  "build_found_nodes sender_id_hex target_id_hex contacts =
     (if sender_id_hex = [] then Inl ValueError
      else if target_id_hex = [] then Inl ValueError
      else case contacts of
        PList _ \<Rightarrow>
          Inr [(u ''type'', PStr MSG_FOUND_NODES), (u ''sender_id'', PStr sender_id_hex),
               (u ''target_id'', PStr target_id_hex), (u ''contacts'', contacts)]
      | _ \<Rightarrow> Inl TypeError)"

definition build_task_request :: "pystr \<Rightarrow> pystr \<Rightarrow> pyval \<Rightarrow> pydict res" where
  "build_task_request sender_id_hex task_id payload =
     (if sender_id_hex = [] then Inl ValueError
      else if task_id = [] then Inl ValueError
      else case payload of
        PDict _ \<Rightarrow>
          Inr [(u ''type'', PStr MSG_TASK_REQUEST), (u ''sender_id'', PStr sender_id_hex),
               (u ''task_id'', PStr task_id), (u ''payload'', payload)]
      | _ \<Rightarrow> Inl TypeError)"

section \<open>Codec and validation\<close>

definition is_str :: "pyval \<Rightarrow> bool" where
  "is_str v = (case v of PStr _ \<Rightarrow> True | _ \<Rightarrow> False)"

definition is_dict :: "pyval \<Rightarrow> bool" where
  "is_dict v = (case v of PDict _ \<Rightarrow> True | _ \<Rightarrow> False)"

text \<open>A dictionary that passes: the conditions in the order of the code, each with its \<open>ValueError\<close>.\<close>

definition validate_dict :: "pydict \<Rightarrow> pystr option \<Rightarrow> unit res" where
  "validate_dict d expected_type =
     (if \<not> is_str (dict_get d (u ''type'')) \<or> dict_get d (u ''type'') = PStr [] then Inl ValueError
      else if expected_type \<noteq> None \<and> dict_get d (u ''type'') \<noteq> PStr (the expected_type) then Inl ValueError
      else if \<not> is_str (dict_get d (u ''sender_id'')) \<or> dict_get d (u ''sender_id'') = PStr [] then Inl ValueError
      else if map_of d (u ''request_id'') \<noteq> None \<and> \<not> is_str (dict_get d (u ''request_id'')) then Inl ValueError
      else if map_of d (u ''payload'') \<noteq> None \<and> \<not> is_dict (dict_get d (u ''payload'')) then Inl ValueError
      else Inr ())"

lemma is_str_get: "is_str (dict_get d k) \<longleftrightarrow> (\<exists>s. map_of d k = Some (PStr s))"
  by (cases "map_of d k"; cases "the (map_of d k)") (auto simp: dict_get_def is_str_def)

lemma is_dict_get: "is_dict (dict_get d k) \<longleftrightarrow> (\<exists>p. map_of d k = Some (PDict p))"
  by (cases "map_of d k"; cases "the (map_of d k)") (auto simp: dict_get_def is_dict_def)

lemma get_PStr: "dict_get d k = PStr s \<longleftrightarrow> map_of d k = Some (PStr s)"
  by (cases "map_of d k") (auto simp: dict_get_def)

lemma validate_dict_Inr:
  "validate_dict d t = Inr () \<longleftrightarrow>
     (\<exists>ty. ty \<noteq> [] \<and> map_of d (u ''type'') = Some (PStr ty) \<and> (t = None \<or> t = Some ty)) \<and>
     (\<exists>s. s \<noteq> [] \<and> map_of d (u ''sender_id'') = Some (PStr s)) \<and>
     (map_of d (u ''request_id'') = None \<or> (\<exists>r. map_of d (u ''request_id'') = Some (PStr r))) \<and>
     (map_of d (u ''payload'') = None \<or> (\<exists>p. map_of d (u ''payload'') = Some (PDict p)))"
  unfolding validate_dict_def is_str_get is_dict_get get_PStr by (cases t) auto

definition validate_message :: "pyval \<Rightarrow> pystr option \<Rightarrow> pydict res" where
  "validate_message message expected_type =
     (case message of
        PDict d \<Rightarrow> and_then (validate_dict d expected_type) (\<lambda>_. Inr d)
      | _ \<Rightarrow> Inl ValueError)"

lemma validate_message_Inr: "validate_message v t = Inr d \<longleftrightarrow> v = PDict d \<and> validate_dict d t = Inr ()"
  by (cases v) (auto simp: validate_message_def res_simps)

lemma validate_message_raises: "validate_message v t = Inl e \<Longrightarrow> e = ValueError"
  by (cases v) (auto simp: validate_message_def validate_dict_def split: if_splits)

lemma validate_message_PDict:
  "validate_message (PDict d) t = (if validate_dict d t = Inr () then Inr d else Inl ValueError)"
proof (cases "validate_message (PDict d) t")
  case (Inl e)
  moreover have "e = ValueError"
    using Inl by (rule validate_message_raises)
  moreover have "validate_dict d t \<noteq> Inr ()"
    using Inl by (auto simp: validate_message_def)
  ultimately show ?thesis by simp
qed (auto simp: validate_message_Inr)

definition encode_message :: "pydict \<Rightarrow> bytes res" where
  "encode_message message = utf8_encode (json_dumps (PDict message))"

definition decode_message :: "bytes \<Rightarrow> pydict res" where
  "decode_message data =
     and_then (utf8_decode data) (\<lambda>s. and_then (json_loads s) (\<lambda>v. validate_message v None))"

text \<open>
  The same function with the limits of the interpreter it runs on: the digits of an integer that \<open>int\<close>
  converts, and the recursion depth that is left at the call. The rest of the development uses
  \<open>decode_message\<close>; C26 says how far the two agree.
\<close>

definition decode_message_within :: "nat \<Rightarrow> nat \<Rightarrow> bytes \<Rightarrow> pydict res" where
  "decode_message_within digits depth data =
     and_then (utf8_decode data) (\<lambda>s. and_then (json_loads_within digits depth s) (\<lambda>v. validate_message v None))"

section \<open>Signatures\<close>

definition canonical_bytes :: "pydict \<Rightarrow> bytes res" where
  "canonical_bytes message = utf8_encode (json_dumps (PDict (AList.delete (u ''signature'') message)))"

definition hmac_hex :: "bytes \<Rightarrow> bytes \<Rightarrow> pystr" where
  "hmac_hex secret data = bytes_hex (hmac_sha256 secret data)"

definition sign_message :: "pydict \<Rightarrow> bytes \<Rightarrow> pydict res" where
  "sign_message message secret =
     and_then (canonical_bytes message) (\<lambda>c.
       Inr (AList.update (u ''signature'') (PStr (hmac_hex secret c)) message))"

text \<open>\<open>hmac.compare_digest\<close> of two strings: \<open>TypeError\<close> when one has a non-ASCII character.\<close>

definition compare_digest_str :: "pystr \<Rightarrow> pystr \<Rightarrow> bool res" where
  "compare_digest_str a b =
     (if list_all (\<lambda>c. c < 128) a \<and> list_all (\<lambda>c. c < 128) b then Inr (a = b) else Inl TypeError)"

definition verify_message_signature :: "pydict \<Rightarrow> bytes \<Rightarrow> bool res" where
  "verify_message_signature message secret =
     (case dict_get message (u ''signature'') of
        PStr signature \<Rightarrow>
          and_then (canonical_bytes message) (\<lambda>c. compare_digest_str signature (hmac_hex secret c))
      | _ \<Rightarrow> Inr False)"

section \<open>Encoding\<close>

lemma encode_message_ascii: "encode_message m = Inr (map byte_of (json_dumps (PDict m)))"
  unfolding encode_message_def by (rule utf8_encode_ascii [OF json_dumps_all_ascii])

lemma canonical_bytes_ascii:
  "canonical_bytes m = Inr (map byte_of (json_dumps (PDict (AList.delete (u ''signature'') m))))"
  unfolding canonical_bytes_def by (rule utf8_encode_ascii [OF json_dumps_all_ascii])

lemma map_byte_of_ascii_inj:
  assumes "\<forall>c \<in> set s. c < 128" and "\<forall>c \<in> set t. c < 128"
  shows "map byte_of s = map byte_of t \<longleftrightarrow> s = t"
proof -
  have "inj_on byte_of {c. c < 128}"
  proof (rule inj_onI)
    fix x y
    assume "x \<in> {c. c < 128}" "y \<in> {c. c < 128}" "byte_of x = byte_of y"
    then have "unat (byte_of x) = unat (byte_of y)" "x < 256" "y < 256" by auto
    then show "x = y" by simp
  qed
  then show ?thesis
    using assms by (intro inj_on_map_eq_map inj_on_subset [where B = "set s \<union> set t"]) auto
qed

lemma dumps_bytes_eq_iff: "map byte_of (json_dumps v) = map byte_of (json_dumps w) \<longleftrightarrow> json_dumps v = json_dumps w"
  by (rule map_byte_of_ascii_inj [OF json_dumps_all_ascii json_dumps_all_ascii])

text \<open>The dictionary that \<open>json.loads\<close> makes of the text of \<open>d\<close>.\<close>

definition sorted_dict :: "pydict \<Rightarrow> pydict" where
  "sorted_dict d = map (map_prod id jnorm) (sort_key fst d)"

lemma jnorm_sorted_dict: "jnorm (PDict d) = PDict (sorted_dict d)"
  by (simp only: jnorm_PDict sorted_dict_def)

lemma map_of_sort_key:
  assumes "distinct (map fst d)"
  shows "map_of (sort_key fst d) = map_of d"
proof -
  have "distinct (map fst (sort_key fst d))"
    using assms by (simp add: distinct_map)
  then show ?thesis
    using assms by (intro map_of_inject_set [THEN iffD2]) auto
qed

lemma map_of_sorted_dict:
  assumes "distinct (map fst d)"
  shows "map_of (sorted_dict d) k = map_option jnorm (map_of d k)"
proof -
  have "map_of (map (map_prod id jnorm) kvs) k = map_option jnorm (map_of kvs k)" for kvs :: pydict
    by (induction kvs) auto
  then show ?thesis
    by (simp only: sorted_dict_def map_of_sort_key [OF assms])
qed

lemma dict_get_sorted_dict: "distinct (map fst d) \<Longrightarrow> dict_get (sorted_dict d) k = jnorm (dict_get d k)"
  by (simp add: dict_get_def map_of_sorted_dict split: option.split)

lemma jnorm_kind [simp]: "is_str (jnorm v) = is_str v" "is_dict (jnorm v) = is_dict v"
  "jnorm v = PStr s \<longleftrightarrow> v = PStr s"
  by (cases v; auto simp: is_str_def is_dict_def)+

lemma validate_sorted_dict:
  "distinct (map fst d) \<Longrightarrow> validate_dict (sorted_dict d) t = validate_dict d t"
  by (simp add: validate_dict_def dict_get_sorted_dict map_of_sorted_dict)

lemma decode_encoded:
  assumes "val_ok (PDict d)"
  shows "decode_message (map byte_of (json_dumps (PDict d))) = and_then (validate_dict d None) (\<lambda>_. Inr (sorted_dict d))"
proof -
  have "utf8_encode (json_dumps (PDict d)) = Inr (map byte_of (json_dumps (PDict d)))"
    using encode_message_ascii by (simp only: encode_message_def)
  moreover have "distinct (map fst d)"
    using assms by simp
  ultimately show ?thesis
    using json_loads_dumps [OF assms]
    by (simp only: decode_message_def utf8_decode_encode and_then_simps jnorm_sorted_dict
        validate_message_def pyval.case validate_sorted_dict)
qed

lemma decode_message_raises: "decode_message data = Inl e \<Longrightarrow> is_ValueError e"
proof -
  assume "decode_message data = Inl e"
  then consider "utf8_decode data = Inl e" | s where "json_loads s = Inl e" | v where "validate_message v None = Inl e"
    by (auto simp: decode_message_def res_simps)
  then show "is_ValueError e"
    by cases (auto dest: utf8_decode_raises json_loads_raises validate_message_raises)
qed

lemma decode_message_valid: "decode_message data = Inr d \<Longrightarrow> validate_dict d None = Inr ()"
  by (auto simp: decode_message_def validate_message_Inr res_simps)

section \<open>Signing contract\<close>

text \<open>The tag a message carries: its signature field when that is exactly the hex form of some bytes.\<close>

definition message_tag :: "pydict \<Rightarrow> bytes option" where
  "message_tag m =
     (case dict_get m (u ''signature'') of
        PStr s \<Rightarrow> (case fromhex s of Inr t \<Rightarrow> if bytes_hex t = s then Some t else None | Inl _ \<Rightarrow> None)
      | _ \<Rightarrow> None)"

text \<open>What is signed: the message without its signature, up to the order of keys.\<close>

definition unsigned_view :: "pydict \<Rightarrow> pyval" where
  "unsigned_view m = jnorm (PDict (AList.delete (u ''signature'') m))"

definition message_ok :: "pydict \<Rightarrow> bool" where
  "message_ok m \<longleftrightarrow> val_ok (PDict (AList.delete (u ''signature'') m))"

lemma message_tag_Some: "message_tag m = Some t \<longleftrightarrow> dict_get m (u ''signature'') = PStr (bytes_hex t)"
proof (cases "dict_get m (u ''signature'')")
  case (PStr s)
  have "message_tag m = Some t \<longleftrightarrow> fromhex s = Inr t \<and> bytes_hex t = s"
    by (cases "fromhex s") (simp_all add: message_tag_def PStr, blast)
  also have "\<dots> \<longleftrightarrow> s = bytes_hex t"
    using fromhex_bytes_hex [of t] by metis
  finally show ?thesis by (simp add: PStr)
qed (simp_all add: message_tag_def)

lemma bytes_hex_ascii: "c \<in> set (bytes_hex bs) \<Longrightarrow> c < 128"
proof (induction bs)
  case (Cons b bs)
  have "unat b div 16 < 16"
    using unat_byte_less [of b] by (simp add: less_mult_imp_div_less del: unat_byte_less)
  then have "hexdig (unat b div 16) < 128" "hexdig (unat b mod 16) < 128"
    by (simp_all only: hexdig_ascii mod_less_divisor zero_less_numeral)
  with Cons show ?case
    by (auto simp del: hexdig_ascii)
qed simp

lemma hmac_hex_ascii [simp]: "list_all (\<lambda>c. c < 128) (hmac_hex k c)"
  by (auto simp: hmac_hex_def list_all_iff dest: bytes_hex_ascii)

lemma verify_message_iff:
  "verify_message_signature m k = Inr True \<longleftrightarrow>
   (\<exists>c. canonical_bytes m = Inr c \<and> message_tag m = Some (hmac_sha256 k c))"
  by (auto simp: verify_message_signature_def canonical_bytes_ascii compare_digest_str_def message_tag_Some
      simp flip: hmac_hex_def split: pyval.splits if_splits)

lemma sign_message_canonical:
  assumes "sign_message m k = Inr s"
  shows "\<exists>c. canonical_bytes m = Inr c \<and> canonical_bytes s = Inr c \<and> message_tag s = Some (hmac_sha256 k c)"
proof -
  obtain c where c: "canonical_bytes m = Inr c" "s = AList.update (u ''signature'') (PStr (hmac_hex k c)) m"
    using assms by (auto simp: sign_message_def res_simps)
  have "canonical_bytes s = Inr c"
    using c by (simp add: canonical_bytes_def delete_update_same del: json_dumps.simps)
  with c show ?thesis
    by (auto simp: message_tag_Some dict_get_def update_conv' hmac_hex_def)
qed

interpretation ms: signed_message canonical_bytes unsigned_view message_ok "\<lambda>_. True" message_tag
  "\<lambda>k m. sign_message m k" "\<lambda>k m. verify_message_signature m k = Inr True"
proof unfold_locales
  fix m m' c
  assume ok: "message_ok m" "message_ok m'" and c: "canonical_bytes m = Inr c"
  have "canonical_bytes m' = Inr c \<longleftrightarrow>
      json_dumps (PDict (AList.delete (u ''signature'') m')) = json_dumps (PDict (AList.delete (u ''signature'') m))"
    using c unfolding canonical_bytes_ascii dumps_bytes_eq_iff [symmetric] by (auto simp del: json_dumps.simps)
  with ok show "canonical_bytes m' = Inr c \<longleftrightarrow> unsigned_view m' = unsigned_view m"
    by (simp only: message_ok_def unsigned_view_def json_dumps_eq_iff)
qed (simp_all add: sign_message_canonical verify_message_iff)

section \<open>Properties\<close>

text \<open>
  C25. Every well-formed message (values JSON carries exactly, structure accepted by
  \<open>validate_message\<close>) survives \<open>encode_message\<close> followed by \<open>decode_message\<close>: the decoded dictionary has
  the same fields with the same values, up to the order of dictionary keys, which come out sorted.
\<close>

theorem encode_decode_roundtrip:
  assumes "val_ok (PDict d)" and "validate_message (PDict d) None = Inr d"
  shows "\<exists>bs d'. encode_message d = Inr bs \<and> decode_message bs = Inr d' \<and> sorted (map fst d') \<and>
    (\<forall>k. map_of d' k = map_option jnorm (map_of d k))"
proof -
  have valid: "validate_dict d None = Inr ()"
    using assms(2) by (auto simp: validate_message_def res_simps)
  have "decode_message (map byte_of (json_dumps (PDict d))) = Inr (sorted_dict d)"
    using decode_encoded [OF assms(1)] by (simp add: valid del: json_dumps.simps)
  moreover have "sorted (map fst (sorted_dict d))"
    by (simp add: sorted_dict_def)
  moreover have "map_of (sorted_dict d) k = map_option jnorm (map_of d k)" for k
    using assms(1) by (intro map_of_sorted_dict) simp
  ultimately show ?thesis
    using encode_message_ascii by blast
qed

definition ex_message :: pydict where
  "ex_message = [(u ''type'', PStr (u ''PING'')), (u ''sender_id'', PStr (u ''n1'')),
     (u ''payload'', PDict [(u ''b'', PInt 2), (u ''a'', PList [PNone, PBool True])])]"

lemma ex_message_ok: "val_ok (PDict ex_message)"
  by (simp add: ex_message_def)

lemma ex_message_valid: "validate_message (PDict ex_message) None = Inr ex_message"
  by (simp add: ex_message_def validate_message_def validate_dict_def dict_get_def is_str_def is_dict_def)

theorem encode_decode_roundtrip_witness:
  "\<exists>bs d'. encode_message ex_message = Inr bs \<and> decode_message bs = Inr d' \<and>
     map_of d' (u ''sender_id'') = Some (PStr (u ''n1''))"
  using encode_decode_roundtrip [OF ex_message_ok ex_message_valid] by (force simp: ex_message_def)

lemma decode_message_within_cut:
  "decode_message_within digits depth data = decode_message data \<or> decode_message_within digits depth data = Inl ValueError \<or>
   decode_message_within digits depth data = Inl RecursionError \<and> (\<exists>s. utf8_decode data = Inr s \<and> depth < brackets s)"
proof (cases "utf8_decode data")
  case (Inr s)
  then show ?thesis
    using json_loads_within_cut [of s depth digits] by (auto simp: decode_message_within_def decode_message_def cut_def not_le)
qed (simp add: decode_message_within_def decode_message_def)

lemma utf8_decode_brackets: "utf8_decode (replicate n 91) = Inr (replicate n 91)"
proof (rule utf8_decode_encode)
  show "utf8_encode (replicate n 91) = Inr (replicate n 91)"
    by (induction n) (simp_all add: utf8_char_def byte_of_def)
qed

text \<open>
  C26. \<open>decode_message\<close> on arbitrary bytes, on an interpreter that converts integers of at most \<open>digits\<close>
  digits and has \<open>depth\<close> levels of recursion left. It returns a message whose \<open>type\<close> and \<open>sender_id\<close> are
  non-empty strings, whose \<open>request_id\<close>, if present, is a string and whose \<open>payload\<close>, if present, is a
  dictionary; or it raises \<open>ValueError\<close> (or one of its subclasses \<open>UnicodeDecodeError\<close> and
  \<open>JSONDecodeError\<close>); or the text has more than \<open>depth\<close> opening brackets and it raises \<open>RecursionError\<close>, as it
  does on \<open>depth + 1\<close> opening brackets. The limits have no other effect: the result is that of the reader
  without them, or one of these two exceptions.
\<close>

theorem decode_message_total:
  "(case decode_message_within digits depth data of
      Inl e \<Rightarrow> is_ValueError e \<or> e = RecursionError \<and> (\<exists>s. utf8_decode data = Inr s \<and> depth < brackets s)
    | Inr d \<Rightarrow>
        (\<exists>t s. t \<noteq> [] \<and> s \<noteq> [] \<and> map_of d (u ''type'') = Some (PStr t) \<and> map_of d (u ''sender_id'') = Some (PStr s)) \<and>
        (map_of d (u ''request_id'') = None \<or> (\<exists>r. map_of d (u ''request_id'') = Some (PStr r))) \<and>
        (map_of d (u ''payload'') = None \<or> (\<exists>p. map_of d (u ''payload'') = Some (PDict p)))) \<and>
   decode_message_within digits depth data \<in> {decode_message data, Inl ValueError, Inl RecursionError} \<and>
   (case decode_message data of Inl e \<Rightarrow> is_ValueError e | Inr _ \<Rightarrow> True) \<and>
   decode_message_within digits depth (replicate (Suc depth) 91) = Inl RecursionError"
proof (intro conjI)
  show "decode_message_within digits depth data \<in> {decode_message data, Inl ValueError, Inl RecursionError}"
    using decode_message_within_cut [of digits depth data] by blast
  show "decode_message_within digits depth (replicate (Suc depth) 91) = Inl RecursionError"
    using json_loads_within_too_deep [of digits depth]
    by (simp add: decode_message_within_def utf8_decode_brackets del: replicate_Suc)
  show "case decode_message_within digits depth data of
      Inl e \<Rightarrow> is_ValueError e \<or> e = RecursionError \<and> (\<exists>s. utf8_decode data = Inr s \<and> depth < brackets s)
    | Inr d \<Rightarrow>
        (\<exists>t s. t \<noteq> [] \<and> s \<noteq> [] \<and> map_of d (u ''type'') = Some (PStr t) \<and> map_of d (u ''sender_id'') = Some (PStr s)) \<and>
        (map_of d (u ''request_id'') = None \<or> (\<exists>r. map_of d (u ''request_id'') = Some (PStr r))) \<and>
        (map_of d (u ''payload'') = None \<or> (\<exists>p. map_of d (u ''payload'') = Some (PDict p)))"
    using decode_message_within_cut [of digits depth data] decode_message_raises [of data] decode_message_valid [of data]
    by (cases "decode_message data") (auto simp: validate_dict_Inr)
qed (simp add: decode_message_raises split: sum.split)

text \<open>
  A message signed with \<open>sign_message\<close> passes \<open>verify_message_signature\<close> under the same secret, whatever
  its fields were (an old signature included), the other fields are unchanged, and any reordering of
  the keys of the signed message still passes.
\<close>

theorem sign_verify_message:
  "\<exists>s. sign_message m k = Inr s \<and> verify_message_signature s k = Inr True \<and>
     (\<forall>f. f \<noteq> u ''signature'' \<longrightarrow> map_of s f = map_of m f) \<and>
     (\<forall>s'. unsigned_view s' = unsigned_view s \<and> dict_get s' (u ''signature'') = dict_get s (u ''signature'') \<longrightarrow>
        verify_message_signature s' k = Inr True)"
proof -
  obtain s where s: "sign_message m k = Inr s"
    by (simp add: sign_message_def canonical_bytes_ascii)
  have again: "verify_message_signature s' k = Inr True"
    if "unsigned_view s' = unsigned_view s" "dict_get s' (u ''signature'') = dict_get s (u ''signature'')" for s'
  proof (rule ms.verified_again [OF TrueI ms.verify_signed [OF TrueI s]])
    show "canonical_bytes s' = canonical_bytes s"
      using that(1) unfolding canonical_bytes_ascii unsigned_view_def by (metis json_dumps_jnorm)
    show "message_tag s' = message_tag s"
      by (simp add: message_tag_def that(2))
  qed
  have "map_of s f = map_of m f" if "f \<noteq> u ''signature''" for f
    using s that by (auto simp: sign_message_def res_simps update_conv')
  with s ms.verify_signed [OF TrueI s] again show ?thesis by blast
qed

theorem sign_verify_message_witness:
  "\<exists>s. sign_message ex_message [1, 2, 3] = Inr s \<and> verify_message_signature s [1, 2, 3] = Inr True \<and>
     map_of s (u ''sender_id'') = Some (PStr (u ''n1''))"
  using sign_verify_message [of ex_message "[1, 2, 3]"] by (force simp: ex_message_def)

text \<open>
  Tampering with a signed message is caught unless HMAC-SHA256 collides: a message that carries the
  signature of \<open>m\<close> is accepted exactly when its content equals that of \<open>m\<close> (every field other than the
  signature, up to the order of keys), or its canonical bytes differ from those of \<open>m\<close> and have the
  same tag under the secret.
\<close>

theorem accepted_message_iff:
  assumes "message_ok m" and "message_ok m'" and "sign_message m k = Inr s"
    and "dict_get m' (u ''signature'') = dict_get s (u ''signature'')"
  shows "verify_message_signature m' k = Inr True \<longleftrightarrow> unsigned_view m' = unsigned_view m \<or>
    (\<exists>c c'. c \<noteq> c' \<and> canonical_bytes m = Inr c \<and> canonical_bytes m' = Inr c' \<and> hmac_sha256 k c = hmac_sha256 k c')"
  by (rule ms.accepted_iff [OF TrueI assms(1-3)]) (simp add: message_tag_def assms(4))

text \<open>The same fields in the reverse order, behind the signature of the original.\<close>

lemma ex_message_reordered: "jnorm (PDict (rev ex_message)) = jnorm (PDict ex_message)"
  by code_simp

theorem accepted_message_iff_witness:
  "\<exists>s. sign_message ex_message [1, 2, 3] = Inr s \<and>
     verify_message_signature ((u ''signature'', dict_get s (u ''signature'')) # rev ex_message) [1, 2, 3] = Inr True"
proof -
  obtain s where s: "sign_message ex_message [1, 2, 3] = Inr s"
    by (simp add: sign_message_def canonical_bytes_ascii)
  let ?m' = "(u ''signature'', dict_get s (u ''signature'')) # rev ex_message"
  have rest: "AList.delete (u ''signature'') ?m' = rev ex_message" "AList.delete (u ''signature'') ex_message = ex_message"
    by (simp_all add: ex_message_def)
  have "message_ok ex_message" "message_ok ?m'" "unsigned_view ?m' = unsigned_view ex_message"
    unfolding message_ok_def unsigned_view_def rest
    using ex_message_ok ex_message_reordered by (simp_all add: ex_message_def)
  moreover have "dict_get ?m' (u ''signature'') = dict_get s (u ''signature'')"
    by (simp add: dict_get_def)
  ultimately show ?thesis
    using accepted_message_iff [OF _ _ s] s by blast
qed

text \<open>
  What the constructors of the Kademlia messages build: an empty identifier, token, target or task ID
  raises \<open>ValueError\<close>, contacts that are no list or a payload that is no dictionary raise \<open>TypeError\<close>, and
  otherwise the message passes \<open>validate_message\<close> with its own type and carries the arguments.
\<close>

theorem built_messages_valid:
  "(case build_ping s v of
      Inl e \<Rightarrow> e = ValueError \<and> \<not> (s \<noteq> [] \<and> truthy v)
    | Inr m \<Rightarrow> validate_message (PDict m) (Some MSG_PING) = Inr m \<and> dict_get m (u ''token'') = v) \<and>
   (case build_pong s v of
      Inl e \<Rightarrow> e = ValueError \<and> \<not> (s \<noteq> [] \<and> truthy v)
    | Inr m \<Rightarrow> validate_message (PDict m) (Some MSG_PONG) = Inr m \<and> dict_get m (u ''token'') = v) \<and>
   (case build_find_node s t of
      Inl e \<Rightarrow> e = ValueError \<and> (s = [] \<or> t = [])
    | Inr m \<Rightarrow> validate_message (PDict m) (Some MSG_FIND_NODE) = Inr m \<and> dict_get m (u ''target_id'') = PStr t) \<and>
   (case build_found_nodes s t v of
      Inl e \<Rightarrow> e = ValueError \<and> (s = [] \<or> t = []) \<or> e = TypeError \<and> (\<nexists>cs. v = PList cs)
    | Inr m \<Rightarrow> validate_message (PDict m) (Some MSG_FOUND_NODES) = Inr m \<and> dict_get m (u ''contacts'') = v) \<and>
   (case build_task_request s t v of
      Inl e \<Rightarrow> e = ValueError \<and> (s = [] \<or> t = []) \<or> e = TypeError \<and> \<not> is_dict v
    | Inr m \<Rightarrow> validate_message (PDict m) (Some MSG_TASK_REQUEST) = Inr m \<and> dict_get m (u ''payload'') = v)"
  by (auto simp: build_ping_def build_pong_def build_find_node_def build_found_nodes_def build_task_request_def
      message_types validate_message_Inr validate_dict_Inr dict_get_def is_dict_def split: pyval.splits)

end
