(* ===== verification/Node_Id.thy ===== *)
theory Node_Id
  imports Py_Text Sha256
begin

unbundle bit_operations_syntax

text \<open>
  \<open>meshweaver/kademlia/node_id.py\<close>: 256-bit node identifiers, their hexadecimal form, and the
  Kademlia XOR distance. The locale \<open>xor_metric\<close> states what the routing layers above rely on
  (a metric in which every identifier is at a different distance from a given one); it is
  interpreted on the distance the code computes.
\<close>

definition ID_BITS :: nat where
  "ID_BITS = 256"

definition ID_BYTES :: nat where
  "ID_BYTES = ID_BITS div 8"

definition generate_node_id :: "pystr \<Rightarrow> bytes res" where
  "generate_node_id seed =
     (if seed = [] then Inl ValueError
      else and_then (utf8_encode seed) (\<lambda>bs. Inr (sha256 bs)))"

definition node_id_to_hex :: "bytes \<Rightarrow> pystr res" where
  "node_id_to_hex node_id =
     (if length node_id \<noteq> ID_BYTES then Inl ValueError else Inr (bytes_hex node_id))"

definition node_id_from_hex :: "pystr \<Rightarrow> bytes res" where
  "node_id_from_hex hex_str =
     and_then (fromhex hex_str)
       (\<lambda>raw. if length raw \<noteq> ID_BYTES then Inl ValueError else Inr raw)"

text \<open>The integer both \<open>xor_distance\<close> and \<open>RoutingTable._bucket_index\<close> compute.\<close>

definition id_xor :: "bytes \<Rightarrow> bytes \<Rightarrow> nat" where
  "id_xor a b = from_bytes_big a XOR from_bytes_big b"

definition xor_distance :: "bytes \<Rightarrow> bytes \<Rightarrow> nat res" where
  "xor_distance a b =
     (if length a \<noteq> ID_BYTES then Inl ValueError
      else if length b \<noteq> ID_BYTES then Inl ValueError
      else Inr (id_xor a b))"

definition is_node_id :: "bytes \<Rightarrow> bool" where
  "is_node_id b \<longleftrightarrow> length b = ID_BYTES"

lemma ID_BYTES_eq [simp]: "ID_BYTES = 32"
  by (simp add: ID_BYTES_def ID_BITS_def)

lemma ID_BITS_eq [simp]: "ID_BITS = 256"
  by (simp add: ID_BITS_def)

section \<open>Exclusive or on natural numbers\<close>

lemma xor_le_add: "(x :: nat) XOR y \<le> x + y"
proof (induction x arbitrary: y rule: less_induct)
  case (less x)
  show ?case
  proof (cases "x = 0")
    case False
    then have "(x div 2) XOR (y div 2) \<le> x div 2 + y div 2"
      by (intro less.IH) simp
    moreover have "x XOR y = (if odd x \<noteq> odd y then 1 else 0) + 2 * ((x div 2) XOR (y div 2))"
      using False by (subst xor_nat_unfold) (auto simp: mod2_eq_if)
    moreover have "x = x mod 2 + 2 * (x div 2)" and "y = y mod 2 + 2 * (y div 2)"
      by simp_all
    moreover have "(if odd x \<noteq> odd y then 1 else 0) \<le> x mod 2 + y mod 2"
      by (auto simp: mod2_eq_if)
    ultimately show ?thesis
      by linarith
  qed simp
qed

lemma xor_less_pow2: "(x :: nat) < 2 ^ n \<Longrightarrow> y < 2 ^ n \<Longrightarrow> x XOR y < 2 ^ n"
  by (metis take_bit_nat_eq_self_iff take_bit_xor)

lemma xor_cancel_left [simp]: "(x :: nat) XOR (x XOR y) = y"
  by (simp flip: xor.assoc)

lemma xor_eq_0_iff [simp]: "(x :: nat) XOR y = 0 \<longleftrightarrow> x = y"
  by (metis xor_cancel_left xor.right_neutral xor_self_eq)

lemma xor_left_eq_iff [simp]: "(x :: nat) XOR y = x XOR z \<longleftrightarrow> y = z"
  by (metis xor_cancel_left)

section \<open>The XOR metric\<close>

text \<open>
  What the lookup and routing layers use of a distance between identifiers: a metric on the valid
  identifiers in which two different identifiers never tie.
\<close>

locale xor_metric =
  fixes valid :: "'a \<Rightarrow> bool" and dist :: "'a \<Rightarrow> 'a \<Rightarrow> nat"
  assumes dist_zero: "valid a \<Longrightarrow> valid b \<Longrightarrow> dist a b = 0 \<longleftrightarrow> a = b"
    and dist_sym: "dist a b = dist b a"
    and dist_triangle: "dist a c \<le> dist a b + dist b c"
    and dist_unique: "valid a \<Longrightarrow> valid b \<Longrightarrow> dist t a = dist t b \<longleftrightarrow> a = b"
begin

lemma strictly_sorted_by_distance:
  assumes "distinct xs" and "\<forall>x \<in> set xs. valid x" and "sorted (map (dist t) xs)"
  shows "sorted_wrt (\<lambda>a b. dist t a < dist t b) xs"
  using assms
proof (induction xs)
  case (Cons x xs)
  then have "\<forall>y \<in> set xs. dist t x \<noteq> dist t y"
    using dist_unique by (metis distinct.simps(2) list.set_intros)
  with Cons show ?case
    by (auto simp: order.strict_iff_order)
qed simp

text \<open>So the order by distance of a set of identifiers is determined by the set alone.\<close>

lemma distance_order_unique:
  assumes "distinct xs" and "distinct ys" and "set xs = set ys" and "\<forall>x \<in> set xs. valid x"
    and "sorted (map (dist t) xs)" and "sorted (map (dist t) ys)"
  shows "xs = ys"
proof -
  have inj: "inj_on (dist t) (set xs)"
    using assms(4) dist_unique by (auto intro: inj_onI)
  have "map (dist t) xs = map (dist t) ys"
    using assms inj by (intro sorted_distinct_set_unique) (auto simp: distinct_map)
  then show ?thesis
    using inj assms(3) by (simp add: inj_on_map_eq_map)
qed

end

lemma id_xor_bound: "is_node_id a \<Longrightarrow> is_node_id b \<Longrightarrow> id_xor a b < 2 ^ ID_BITS"
  using xor_less_pow2 [OF from_bytes_big_bound [of a]] from_bytes_big_bound [of b]
  by (simp add: id_xor_def is_node_id_def del: power_numeral)

interpretation xm: xor_metric is_node_id id_xor
proof unfold_locales
  show "is_node_id a \<Longrightarrow> is_node_id b \<Longrightarrow> id_xor a b = 0 \<longleftrightarrow> a = b" for a b
    by (simp add: id_xor_def is_node_id_def from_bytes_big_inj)
  show "id_xor a b = id_xor b a" for a b
    by (simp add: id_xor_def xor.commute)
  show "id_xor a c \<le> id_xor a b + id_xor b c" for a b c
  proof -
    have "id_xor a c = id_xor a b XOR id_xor b c"
      by (simp add: id_xor_def xor.assoc)
    then show ?thesis
      by (simp add: xor_le_add)
  qed
  show "is_node_id a \<Longrightarrow> is_node_id b \<Longrightarrow> id_xor t a = id_xor t b \<longleftrightarrow> a = b" for a b t
    by (simp add: id_xor_def is_node_id_def from_bytes_big_inj)
qed

lemma xor_distance_ok [simp]:
  "is_node_id a \<Longrightarrow> is_node_id b \<Longrightarrow> xor_distance a b = Inr (id_xor a b)"
  by (simp add: xor_distance_def is_node_id_def)

lemma is_node_id_sha256 [simp]: "is_node_id (sha256 m)"
  by (simp add: is_node_id_def)

lemma node_id_from_hex_ok: "node_id_from_hex s = Inr b \<Longrightarrow> is_node_id b"
  by (auto simp: node_id_from_hex_def is_node_id_def res_simps split: if_splits)

lemma node_id_from_hex_to_hex [simp]: "is_node_id b \<Longrightarrow> node_id_from_hex (bytes_hex b) = Inr b"
  by (simp add: node_id_from_hex_def is_node_id_def)

lemma node_id_from_hex_raises: "node_id_from_hex s = Inl e \<Longrightarrow> e = ValueError"
  by (auto simp: node_id_from_hex_def res_simps dest: fromhex_raises_only_ValueError split: if_splits)

section \<open>Properties\<close>

text \<open>
  On 32-byte identifiers \<open>xor_distance\<close> never raises and is a metric bounded by the ID space:
  a value below 2^256, zero exactly on equal identifiers, symmetric, satisfying the triangle
  inequality, and unidirectional (two peers at the same distance from a target are the same peer).
\<close>

theorem xor_distance_metric:
  assumes "length a = ID_BYTES" and "length b = ID_BYTES" and "length c = ID_BYTES"
  shows "\<exists>ab ac bc.
           xor_distance a b = Inr ab \<and> xor_distance b a = Inr ab \<and>
           xor_distance a c = Inr ac \<and> xor_distance b c = Inr bc \<and>
           ab < 2 ^ ID_BITS \<and> (ab = 0 \<longleftrightarrow> a = b) \<and> ac \<le> ab + bc \<and> (ab = ac \<longleftrightarrow> b = c)"
proof -
  have ids: "is_node_id a" "is_node_id b" "is_node_id c"
    using assms by (simp_all add: is_node_id_def)
  then show ?thesis
    using xm.dist_sym [of b a] xm.dist_triangle [of a c b] id_xor_bound [of a b]
    by (simp add: xm.dist_zero xm.dist_unique)
qed

theorem xor_distance_metric_witness:
  "\<exists>ab ac bc.
     xor_distance (replicate 32 1) (replicate 32 2) = Inr ab \<and>
     xor_distance (replicate 32 2) (replicate 32 1) = Inr ab \<and>
     xor_distance (replicate 32 1) (replicate 32 4) = Inr ac \<and>
     xor_distance (replicate 32 2) (replicate 32 4) = Inr bc \<and>
     ab < 2 ^ ID_BITS \<and> (ab = 0 \<longleftrightarrow> replicate 32 (1 :: byte) = replicate 32 2) \<and>
     ac \<le> ab + bc \<and> (ab = ac \<longleftrightarrow> replicate 32 (2 :: byte) = replicate 32 4)"
  by (rule xor_distance_metric) simp_all

text \<open>
  The hexadecimal form of a node ID reads back as the same ID, whatever 32 bytes it has: the
  text is 64 digits long, \<open>node_id_from_hex\<close> of it returns the ID; and \<open>node_id_from_hex\<close> accepts
  a string only when it decodes to exactly 32 bytes, raising \<open>ValueError\<close> otherwise.
\<close>

theorem node_id_hex_roundtrip:
  "(case node_id_to_hex b of
      Inl e \<Rightarrow> e = ValueError \<and> length b \<noteq> ID_BYTES
    | Inr s \<Rightarrow> length b = ID_BYTES \<and> length s = 64 \<and> node_id_from_hex s = Inr b) \<and>
   (case node_id_from_hex t of
      Inl e \<Rightarrow> e = ValueError
    | Inr r \<Rightarrow> fromhex t = Inr r \<and> length r = ID_BYTES \<and> node_id_to_hex r = Inr (bytes_hex r))"
proof (rule conjI)
  show "case node_id_to_hex b of
      Inl e \<Rightarrow> e = ValueError \<and> length b \<noteq> ID_BYTES
    | Inr s \<Rightarrow> length b = ID_BYTES \<and> length s = 64 \<and> node_id_from_hex s = Inr b"
    by (simp add: node_id_to_hex_def node_id_from_hex_def)
  show "case node_id_from_hex t of
      Inl e \<Rightarrow> e = ValueError
    | Inr r \<Rightarrow> fromhex t = Inr r \<and> length r = ID_BYTES \<and> node_id_to_hex r = Inr (bytes_hex r)"
  proof (cases "node_id_from_hex t")
    case (Inl e)
    then show ?thesis by (simp add: node_id_from_hex_raises)
  next
    case (Inr r)
    then show ?thesis
      by (auto simp: node_id_from_hex_def node_id_to_hex_def res_simps split: if_splits)
  qed
qed

end
