(* ===== verification/Contact_Table.thy ===== *)
theory Contact_Table
  imports Mesh_Prelude
begin

text \<open>
  The interface of a table of peers keyed by an identifier: what the peer store relies on of the
  routing table, and what the join and discovery procedures rely on of the peer store. An
  insertion may be refused (a full bucket) but never for a key that is already present; an
  accepted insertion changes the entry of its key only. The client lemmas below are about the
  storing loop that bootstrap and discovery share.
\<close>

text \<open>
  A loop that stores one value after the other, collects the accepted ones and skips a value whose
  insertion raises \<open>ValueError\<close>; any other exception ends the loop. An insertion may read the clock:
  the index counts the insertions, so that each sees its own reading.
\<close>

fun store_all ::
    "(nat \<Rightarrow> 't \<Rightarrow> 'v \<Rightarrow> (bool \<times> 't) res) \<Rightarrow> nat \<Rightarrow> 't \<Rightarrow> 'v list \<Rightarrow> ('v list \<times> 't) res" where
  "store_all add i t [] = Inr ([], t)"
| "store_all add i t (v # vs) =
     (case add i t v of
        Inl e \<Rightarrow> if is_ValueError e then store_all add (Suc i) t vs else Inl e
      | Inr (accepted, t') \<Rightarrow>
          and_then (store_all add (Suc i) t' vs)
            (\<lambda>(stored, t''). Inr (if accepted then v # stored else stored, t'')))"

locale contact_table =
  fixes inv :: "'t \<Rightarrow> bool"
    and ok :: "'t \<Rightarrow> 'v \<Rightarrow> bool"
    and key :: "'v \<Rightarrow> 'k"
    and look :: "'t \<Rightarrow> 'k \<Rightarrow> 'v option"
    and add :: "nat \<Rightarrow> 't \<Rightarrow> 'v \<Rightarrow> (bool \<times> 't) res"
  assumes add_returns: "inv t \<Longrightarrow> ok t v \<Longrightarrow> \<exists>b t'. add i t v = Inr (b, t')"
    and add_raises: "inv t \<Longrightarrow> \<not> ok t v \<Longrightarrow> add i t v = Inl ValueError"
    and add_inv: "inv t \<Longrightarrow> add i t v = Inr (b, t') \<Longrightarrow> inv t'"
    and add_ok: "inv t \<Longrightarrow> add i t v = Inr (b, t') \<Longrightarrow> ok t' w \<longleftrightarrow> ok t w"
    and add_accepted: "inv t \<Longrightarrow> add i t v = Inr (True, t') \<Longrightarrow> look t' = (look t)(key v \<mapsto> v)"
    and add_refused: "inv t \<Longrightarrow> add i t v = Inr (False, t') \<Longrightarrow> t' = t \<and> look t (key v) = None"
begin

lemma add_total:
  assumes "inv t"
  obtains "\<not> ok t v" and "add i t v = Inl ValueError"
    | t' where "ok t v" and "add i t v = Inr (True, t')" and "look t' = (look t)(key v \<mapsto> v)"
    | "ok t v" and "add i t v = Inr (False, t)" and "look t (key v) = None"
  using add_returns [OF assms, of v i] add_raises [OF assms, of v i] add_accepted [OF assms, of i v]
    add_refused [OF assms, of i v]
  by (metis (full_types))

lemma store_all_returns: "inv t \<Longrightarrow> \<exists>stored t'. store_all add i t vs = Inr (stored, t')"
proof (induction vs arbitrary: t i)
  case (Cons v vs)
  show ?case
    using Cons.prems
  proof (cases rule: add_total [of t v i])
    case 1
    with Cons.IH [OF Cons.prems, of "Suc i"] show ?thesis by simp
  next
    case (2 t')
    with Cons.IH [of t' "Suc i"] add_inv [OF Cons.prems 2(2)] show ?thesis by auto
  next
    case 3
    with Cons.IH [OF Cons.prems, of "Suc i"] show ?thesis by auto
  qed
qed simp

text \<open>
  What the loop promises: it keeps the invariant, reports admissible input values only, and the
  table afterwards is the table before overridden with the reported values, the last one of each
  key winning.
\<close>

lemma store_all_spec:
  assumes "inv t" and "store_all add i t vs = Inr (stored, t')"
  shows "inv t' \<and> (\<forall>w. ok t' w \<longleftrightarrow> ok t w) \<and> set stored \<subseteq> {v \<in> set vs. ok t v} \<and>
    look t' = look t ++ map_of (map (\<lambda>v. (key v, v)) (rev stored))"
  using assms
proof (induction vs arbitrary: t stored i)
  case (Cons v vs)
  show ?case
    using Cons.prems(1)
  proof (cases rule: add_total [of t v i])
    case 1
    with Cons.IH [of t "Suc i" stored] Cons.prems show ?thesis by auto
  next
    case (2 t1)
    with Cons.prems obtain rest where rest: "store_all add (Suc i) t1 vs = Inr (rest, t')"
      and stored: "stored = v # rest"
      by (auto simp: res_simps)
    have "inv t1" and ok1: "ok t1 w \<longleftrightarrow> ok t w" for w
      using add_inv add_ok Cons.prems(1) 2(2) by blast+
    note IH = Cons.IH [OF \<open>inv t1\<close> rest]
    then have "look t' = (look t)(key v \<mapsto> v) ++ map_of (map (\<lambda>v. (key v, v)) (rev rest))"
      unfolding 2(3) by blast
    also have "\<dots> = look t ++ map_of (map (\<lambda>v. (key v, v)) (rev stored))"
      by (simp add: stored)
    finally have "look t' = look t ++ map_of (map (\<lambda>v. (key v, v)) (rev stored))" .
    with IH 2(1) ok1 show ?thesis
      by (auto simp: stored)
  next
    case 3
    with Cons.prems have "store_all add (Suc i) t vs = Inr (stored, t')"
      by (auto simp: res_simps)
    with Cons.IH [OF Cons.prems(1)] show ?thesis by auto
  qed
qed auto

lemma store_all_dom:
  assumes "inv t" and "store_all add i t vs = Inr (stored, t')"
  shows "dom (look t') = dom (look t) \<union> key ` set stored"
  using store_all_spec [OF assms] by (auto simp: dom_map_of_conv_image_fst image_image)

lemma store_all_found:
  assumes "inv t" and "store_all add i t vs = Inr (stored, t')" and "v \<in> set stored"
  shows "\<exists>w \<in> set stored. look t' (key v) = Some w"
proof -
  have "key v \<in> dom (map_of (map (\<lambda>v. (key v, v)) (rev stored)))"
    using assms(3) by (auto simp: dom_map_of_conv_image_fst image_image)
  then obtain w where w: "map_of (map (\<lambda>v. (key v, v)) (rev stored)) (key v) = Some w"
    by auto
  then have "w \<in> set stored"
    by (auto dest!: map_of_SomeD)
  with w store_all_spec [OF assms(1,2)] show ?thesis
    by (auto simp: map_add_Some_iff)
qed

end

end
