(* ===== verification/Routing_Table.thy ===== *)
theory Routing_Table
  imports Node_Id Contact_Table Py_Value
begin

unbundle bit_operations_syntax

text \<open>
  \<open>meshweaver/kademlia/routing_table.py\<close>: \<open>KademliaContact\<close>, \<open>KBucket\<close> and \<open>RoutingTable\<close>, with
  every operation. The table's abstract view is a partial map from node IDs to contacts
  (\<open>rt_lookup\<close>); the invariant \<open>rt_inv\<close> says what the 256 buckets keep true, and the section on
  refinement shows that each operation acts on the map as the Kademlia rule prescribes.
\<close>

section \<open>Contacts\<close>

definition DEFAULT_K :: int where
  "DEFAULT_K = 20"

record contact =
  c_node_id :: bytes
  c_host :: pyval
  c_port :: int

text \<open>The dataclass constructor with its \<open>__post_init__\<close> checks.\<close>

definition KademliaContact :: "bytes \<Rightarrow> pyval \<Rightarrow> int \<Rightarrow> contact res" where
  "KademliaContact node_id host port =
     (if length node_id \<noteq> ID_BYTES then Inl ValueError
      else if \<not> (0 < port \<and> port \<le> 65535) then Inl ValueError
      else Inr \<lparr>c_node_id = node_id, c_host = host, c_port = port\<rparr>)"

text \<open>\<open>__eq__\<close>: contacts are compared by node ID only.\<close>

definition contact_eq :: "contact \<Rightarrow> contact \<Rightarrow> bool" where
  "contact_eq c d \<longleftrightarrow> c_node_id c = c_node_id d"

section \<open>Buckets\<close>

record kbucket =
  kb_k :: int
  kb_contacts :: "contact list"

definition kb_is_full :: "kbucket \<Rightarrow> bool" where
  "kb_is_full b \<longleftrightarrow> int (length (kb_contacts b)) \<ge> kb_k b"

text \<open>\<open>list.remove(x)\<close>: the first element equal to \<open>x\<close>.\<close>

fun remove_first :: "('a \<Rightarrow> bool) \<Rightarrow> 'a list \<Rightarrow> 'a list" where
  "remove_first p [] = []"
| "remove_first p (x # xs) = (if p x then xs else x # remove_first p xs)"

definition kb_add_contact :: "kbucket \<Rightarrow> contact \<Rightarrow> bool \<times> kbucket" where
  "kb_add_contact b c =
     (if list_ex (contact_eq c) (kb_contacts b) then
        (True, b\<lparr>kb_contacts := remove_first (contact_eq c) (kb_contacts b) @ [c]\<rparr>)
      else if \<not> kb_is_full b then (True, b\<lparr>kb_contacts := kb_contacts b @ [c]\<rparr>)
      else (False, b))"

definition kb_remove_contact :: "kbucket \<Rightarrow> bytes \<Rightarrow> bool \<times> kbucket" where
  "kb_remove_contact b node_id =
     (case find (\<lambda>c. c_node_id c = node_id) (kb_contacts b) of
        Some c \<Rightarrow> (True, b\<lparr>kb_contacts := remove_first (contact_eq c) (kb_contacts b)\<rparr>)
      | None \<Rightarrow> (False, b))"

definition kb_get_contact :: "kbucket \<Rightarrow> bytes \<Rightarrow> contact option" where
  "kb_get_contact b node_id = find (\<lambda>c. c_node_id c = node_id) (kb_contacts b)"

definition kb_len :: "kbucket \<Rightarrow> nat" where
  "kb_len b = length (kb_contacts b)"

section \<open>The table\<close>

record rtable =
  rt_local :: bytes
  rt_k :: int
  rt_buckets :: "kbucket list"

definition RoutingTable :: "bytes \<Rightarrow> int \<Rightarrow> rtable res" where
  "RoutingTable local_node_id k =
     (if length local_node_id \<noteq> ID_BYTES then Inl ValueError
      else Inr \<lparr>rt_local = local_node_id, rt_k = k,
                rt_buckets = replicate ID_BITS \<lparr>kb_k = k, kb_contacts = []\<rparr>\<rparr>)"

definition bucket_index :: "rtable \<Rightarrow> bytes \<Rightarrow> nat res" where
  "bucket_index rt node_id =
     (let xor_int = id_xor (rt_local rt) node_id
      in if xor_int = 0 then Inl ValueError else Inr (bit_length xor_int - 1))"

text \<open>\<open>self._buckets[idx]\<close>.\<close>

definition bucket_at :: "rtable \<Rightarrow> nat \<Rightarrow> kbucket res" where
  "bucket_at rt idx =
     (if idx < length (rt_buckets rt) then Inr (rt_buckets rt ! idx) else Inl IndexError)"

definition rt_add_contact :: "rtable \<Rightarrow> contact \<Rightarrow> (bool \<times> rtable) res" where
  "rt_add_contact rt c =
     (if c_node_id c = rt_local rt then Inl ValueError
      else and_then (bucket_index rt (c_node_id c)) (\<lambda>idx.
           and_then (bucket_at rt idx) (\<lambda>b.
             (let (r, b') = kb_add_contact b c
              in Inr (r, rt\<lparr>rt_buckets := (rt_buckets rt)[idx := b']\<rparr>)))))"

definition rt_remove_contact :: "rtable \<Rightarrow> bytes \<Rightarrow> (bool \<times> rtable) res" where
  "rt_remove_contact rt node_id =
     (if node_id = rt_local rt then Inr (False, rt)
      else case bucket_index rt node_id of
        Inl e \<Rightarrow> (if is_ValueError e then Inr (False, rt) else Inl e)
      | Inr idx \<Rightarrow>
          and_then (bucket_at rt idx) (\<lambda>b.
            (let (r, b') = kb_remove_contact b node_id
             in Inr (r, rt\<lparr>rt_buckets := (rt_buckets rt)[idx := b']\<rparr>))))"

definition rt_get_contact :: "rtable \<Rightarrow> bytes \<Rightarrow> contact option res" where
  "rt_get_contact rt node_id =
     (if node_id = rt_local rt then Inr None
      else case bucket_index rt node_id of
        Inl e \<Rightarrow> (if is_ValueError e then Inr None else Inl e)
      | Inr idx \<Rightarrow> and_then (bucket_at rt idx) (\<lambda>b. Inr (kb_get_contact b node_id)))"

definition rt_get_all_contacts :: "rtable \<Rightarrow> contact list" where
  "rt_get_all_contacts rt = concat (map kb_contacts (rt_buckets rt))"

definition rt_bucket_for :: "rtable \<Rightarrow> bytes \<Rightarrow> kbucket res" where
  "rt_bucket_for rt node_id = and_then (bucket_index rt node_id) (bucket_at rt)"

definition rt_len :: "rtable \<Rightarrow> nat" where
  "rt_len rt = sum_list (map kb_len (rt_buckets rt))"

section \<open>Invariant and abstract view\<close>

text \<open>The bucket a 32-byte ID belongs to: the position of the highest bit of its distance.\<close>

definition idx_of :: "bytes \<Rightarrow> bytes \<Rightarrow> nat" where
  "idx_of loc node_id = bit_length (id_xor loc node_id) - 1"

definition contact_ok :: "contact \<Rightarrow> bool" where
  "contact_ok c \<longleftrightarrow> is_node_id (c_node_id c) \<and> 0 < c_port c \<and> c_port c \<le> 65535"

definition bucket_inv :: "bytes \<Rightarrow> int \<Rightarrow> nat \<Rightarrow> kbucket \<Rightarrow> bool" where
  "bucket_inv loc k i b \<longleftrightarrow>
     kb_k b = k \<and> int (length (kb_contacts b)) \<le> max 0 k \<and>
     distinct (map c_node_id (kb_contacts b)) \<and>
     (\<forall>c \<in> set (kb_contacts b). contact_ok c \<and> c_node_id c \<noteq> loc \<and> idx_of loc (c_node_id c) = i)"

definition rt_inv :: "rtable \<Rightarrow> bool" where
  "rt_inv rt \<longleftrightarrow>
     is_node_id (rt_local rt) \<and> length (rt_buckets rt) = ID_BITS \<and>
     (\<forall>i < ID_BITS. bucket_inv (rt_local rt) (rt_k rt) i (rt_buckets rt ! i))"

definition rt_lookup :: "rtable \<Rightarrow> bytes \<Rightarrow> contact option" where
  "rt_lookup rt node_id = find (\<lambda>c. c_node_id c = node_id) (rt_get_all_contacts rt)"

text \<open>The contacts a table may take: valid ones other than the local node.\<close>

definition rt_admissible :: "rtable \<Rightarrow> contact \<Rightarrow> bool" where
  "rt_admissible rt c \<longleftrightarrow> contact_ok c \<and> c_node_id c \<noteq> rt_local rt"

text \<open>
  The abstract table: a map, and the Kademlia insertion rule on it. A new ID is refused exactly
  when its distance range already holds \<open>k\<close> peers.
\<close>

definition spec_range :: "bytes \<Rightarrow> (bytes \<Rightarrow> contact option) \<Rightarrow> nat \<Rightarrow> bytes set" where
  "spec_range loc m i = {n \<in> dom m. 2 ^ i \<le> id_xor loc n \<and> id_xor loc n < 2 ^ Suc i}"

definition spec_add ::
    "bytes \<Rightarrow> int \<Rightarrow> (bytes \<Rightarrow> contact option) \<Rightarrow> contact \<Rightarrow> bool \<times> (bytes \<Rightarrow> contact option)" where
  "spec_add loc k m c =
     (if c_node_id c \<in> dom m \<or> int (card (spec_range loc m (idx_of loc (c_node_id c)))) < k
      then (True, m(c_node_id c \<mapsto> c)) else (False, m))"

section \<open>Buckets: lemmas\<close>

lemma contact_eq_fun: "contact_eq c = (\<lambda>d. c_node_id c = c_node_id d)"
  by (simp add: contact_eq_def fun_eq_iff)

text \<open>With distinct IDs, removing the first match keeps exactly the other contacts, in order.\<close>

lemma filter_key_id: "n \<notin> f ` set xs \<Longrightarrow> filter (\<lambda>x. f x \<noteq> n) xs = xs"
  by (auto simp: filter_id_conv image_iff)

lemma remove_first_filter:
  "distinct (map f xs) \<Longrightarrow> remove_first (\<lambda>x. m = f x) xs = filter (\<lambda>x. f x \<noteq> m) xs"
proof (induction xs)
  case (Cons x xs)
  then have "m = f x \<Longrightarrow> filter (\<lambda>x. f x \<noteq> m) xs = xs"
    by (simp add: filter_key_id)
  with Cons show ?case by auto
qed simp

lemma find_filter_key:
  "find (\<lambda>x. f x = n) (filter (\<lambda>x. f x \<noteq> m) xs) = (if n = m then None else find (\<lambda>x. f x = n) xs)"
  by (induction xs) auto

lemma find_append: "find p (xs @ ys) = (case find p xs of None \<Rightarrow> find p ys | Some x \<Rightarrow> Some x)"
  by (induction xs) auto

lemma find_key_None_iff: "find (\<lambda>c. f c = n) xs = None \<longleftrightarrow> n \<notin> f ` set xs"
  by (auto simp: find_None_iff)

lemma find_distinct_key: "distinct (map f xs) \<Longrightarrow> x \<in> set xs \<Longrightarrow> find (\<lambda>y. f y = f x) xs = Some x"
  by (induction xs) auto

lemma kb_present_iff: "list_ex (contact_eq c) (kb_contacts b) \<longleftrightarrow> kb_get_contact b (c_node_id c) \<noteq> None"
  by (auto simp: kb_get_contact_def find_key_None_iff list_ex_iff contact_eq_def)

lemma kb_get_None_iff: "kb_get_contact b n = None \<longleftrightarrow> n \<notin> c_node_id ` set (kb_contacts b)"
  by (simp add: kb_get_contact_def find_key_None_iff)

text \<open>
  The two outcomes of an insertion: the contact ends up at the tail, all others keep their order;
  or the bucket is full and unchanged.
\<close>

lemma kb_add_accepted:
  assumes "distinct (map c_node_id (kb_contacts b))" and "kb_add_contact b c = (True, b')"
  shows "b' = b\<lparr>kb_contacts := filter (\<lambda>d. c_node_id d \<noteq> c_node_id c) (kb_contacts b) @ [c]\<rparr>"
    and "kb_get_contact b (c_node_id c) = None \<Longrightarrow> int (length (kb_contacts b)) < kb_k b"
proof -
  have "kb_get_contact b (c_node_id c) = None \<Longrightarrow>
      filter (\<lambda>d. c_node_id d \<noteq> c_node_id c) (kb_contacts b) = kb_contacts b"
    by (simp add: kb_get_None_iff filter_key_id)
  with assms show "b' = b\<lparr>kb_contacts := filter (\<lambda>d. c_node_id d \<noteq> c_node_id c) (kb_contacts b) @ [c]\<rparr>"
    unfolding kb_add_contact_def kb_present_iff
    by (auto simp: contact_eq_fun remove_first_filter split: if_splits)
  show "kb_get_contact b (c_node_id c) = None \<Longrightarrow> int (length (kb_contacts b)) < kb_k b"
    using assms(2) by (simp add: kb_add_contact_def kb_present_iff kb_is_full_def split: if_splits)
qed

lemma kb_add_refused:
  "kb_add_contact b c = (False, b') \<longleftrightarrow>
   b' = b \<and> kb_get_contact b (c_node_id c) = None \<and> kb_k b \<le> int (length (kb_contacts b))"
  by (auto simp: kb_add_contact_def kb_present_iff kb_is_full_def split: if_splits)

lemma kb_add_lookup:
  assumes "distinct (map c_node_id (kb_contacts b))" and "kb_add_contact b c = (True, b')"
  shows "kb_get_contact b' n = (if n = c_node_id c then Some c else kb_get_contact b n)"
  by (simp add: kb_add_accepted(1) [OF assms] kb_get_contact_def find_append find_filter_key
      split: option.split)

lemma distinct_map_filter_length:
  assumes "distinct (map f xs)" and "n \<in> f ` set xs"
  shows "length (filter (\<lambda>d. f d \<noteq> n) xs) < length xs"
  using assms(2) by (metis (mono_tags, lifting) imageE length_filter_less)

lemma kb_add_inv:
  assumes inv: "bucket_inv loc k i b" and add: "kb_add_contact b c = (r, b')"
    and c: "contact_ok c" "c_node_id c \<noteq> loc" "idx_of loc (c_node_id c) = i"
  shows "bucket_inv loc k i b'"
proof (cases r)
  case False
  with add inv show ?thesis by (simp add: kb_add_refused)
next
  case True
  let ?rest = "filter (\<lambda>d. c_node_id d \<noteq> c_node_id c) (kb_contacts b)"
  have dist: "distinct (map c_node_id (kb_contacts b))"
    using inv by (simp add: bucket_inv_def)
  have acc: "kb_add_contact b c = (True, b')"
    using add True by simp
  have "int (length ?rest) < max 0 k"
  proof (cases "kb_get_contact b (c_node_id c) = None")
    case True
    then have "int (length (kb_contacts b)) < k"
      using kb_add_accepted(2) [OF dist acc] inv by (simp add: bucket_inv_def)
    then show ?thesis
      using length_filter_le [of "\<lambda>d. c_node_id d \<noteq> c_node_id c" "kb_contacts b"] by linarith
  next
    case False
    then have "length ?rest < length (kb_contacts b)"
      using dist by (intro distinct_map_filter_length) (simp_all add: kb_get_None_iff)
    then show ?thesis using inv by (simp add: bucket_inv_def)
  qed
  moreover have "distinct (map c_node_id ?rest)"
    using dist by (simp add: distinct_map_filter)
  moreover have "c_node_id c \<notin> c_node_id ` set ?rest"
    by auto
  moreover have "kb_k b = k" and
    "\<forall>d \<in> set ?rest. contact_ok d \<and> c_node_id d \<noteq> loc \<and> idx_of loc (c_node_id d) = i"
    using inv by (auto simp: bucket_inv_def)
  ultimately show ?thesis
    using c unfolding kb_add_accepted(1) [OF dist acc] bucket_inv_def
    by (simp del: set_filter)
qed

lemma kb_remove_filter:
  assumes "distinct (map c_node_id (kb_contacts b))" and "kb_remove_contact b n = (r, b')"
  shows "b' = b\<lparr>kb_contacts := filter (\<lambda>d. c_node_id d \<noteq> n) (kb_contacts b)\<rparr>"
    and "r \<longleftrightarrow> kb_get_contact b n \<noteq> None"
proof -
  show "r \<longleftrightarrow> kb_get_contact b n \<noteq> None"
    using assms(2) by (auto simp: kb_remove_contact_def kb_get_contact_def split: option.splits)
  show "b' = b\<lparr>kb_contacts := filter (\<lambda>d. c_node_id d \<noteq> n) (kb_contacts b)\<rparr>"
  proof (cases "kb_get_contact b n")
    case None
    then have "filter (\<lambda>d. c_node_id d \<noteq> n) (kb_contacts b) = kb_contacts b"
      by (simp add: kb_get_None_iff filter_key_id)
    with None assms(2) show ?thesis
      by (simp add: kb_remove_contact_def kb_get_contact_def)
  next
    case (Some c)
    then have "c_node_id c = n"
      by (auto simp: kb_get_contact_def find_Some_iff)
    with Some assms show ?thesis
      by (simp add: kb_remove_contact_def kb_get_contact_def contact_eq_fun remove_first_filter)
  qed
qed

lemma kb_remove_lookup:
  assumes "distinct (map c_node_id (kb_contacts b))" and "kb_remove_contact b n = (r, b')"
  shows "kb_get_contact b' m = (if m = n then None else kb_get_contact b m)"
  by (simp add: kb_remove_filter(1) [OF assms] kb_get_contact_def find_filter_key)

lemma kb_remove_inv:
  assumes "bucket_inv loc k i b" and "kb_remove_contact b n = (r, b')"
  shows "bucket_inv loc k i b'"
proof -
  have dist: "distinct (map c_node_id (kb_contacts b))"
    using assms(1) by (simp add: bucket_inv_def)
  then have "distinct (map c_node_id (filter (\<lambda>d. c_node_id d \<noteq> n) (kb_contacts b)))"
    by (simp add: distinct_map_filter)
  moreover have "int (length (filter (\<lambda>d. c_node_id d \<noteq> n) (kb_contacts b))) \<le> max 0 k"
    using assms(1) length_filter_le [of "\<lambda>d. c_node_id d \<noteq> n" "kb_contacts b"]
    unfolding bucket_inv_def by linarith
  ultimately show ?thesis
    using assms(1) unfolding kb_remove_filter(1) [OF dist assms(2)] bucket_inv_def by simp
qed

section \<open>The table: lemmas\<close>

lemma rt_invD:
  assumes "rt_inv rt"
  shows "is_node_id (rt_local rt)" and "length (rt_buckets rt) = ID_BITS"
    and "i < ID_BITS \<Longrightarrow> bucket_inv (rt_local rt) (rt_k rt) i (rt_buckets rt ! i)"
  using assms by (auto simp: rt_inv_def)

lemma idx_of_range:
  assumes "is_node_id loc" and "is_node_id n" and "n \<noteq> loc"
  shows "idx_of loc n < ID_BITS" and "2 ^ idx_of loc n \<le> id_xor loc n"
    and "id_xor loc n < 2 ^ Suc (idx_of loc n)"
proof -
  have nz: "id_xor loc n \<noteq> 0"
    using assms xm.dist_zero by metis
  then have suc: "Suc (idx_of loc n) = bit_length (id_xor loc n)"
    by (simp add: idx_of_def)
  show "2 ^ idx_of loc n \<le> id_xor loc n" and "id_xor loc n < 2 ^ Suc (idx_of loc n)"
    using bit_length_range [OF nz] by (simp_all only: suc) (simp add: idx_of_def)
  have "bit_length (id_xor loc n) \<le> ID_BITS"
    using id_xor_bound [OF assms(1,2)] by (simp add: bit_length_le_iff)
  with suc show "idx_of loc n < ID_BITS" by simp
qed

lemma idx_of_eq_iff:
  assumes "is_node_id loc" and "is_node_id n" and "n \<noteq> loc"
  shows "idx_of loc n = i \<longleftrightarrow> 2 ^ i \<le> id_xor loc n \<and> id_xor loc n < 2 ^ Suc i"
proof
  assume "2 ^ i \<le> id_xor loc n \<and> id_xor loc n < 2 ^ Suc i"
  with idx_of_range [OF assms] have "(2::nat) ^ i < 2 ^ Suc (idx_of loc n)"
    and "(2::nat) ^ idx_of loc n < 2 ^ Suc i"
    by linarith+
  then show "idx_of loc n = i"
    by (simp add: power_strict_increasing_iff del: power_Suc)
qed (use idx_of_range [OF assms] in auto)

lemma bucket_index_ok:
  assumes "rt_inv rt" and "is_node_id n" and "n \<noteq> rt_local rt"
  shows "bucket_index rt n = Inr (idx_of (rt_local rt) n)"
    and "bucket_at rt (idx_of (rt_local rt) n) = Inr (rt_buckets rt ! idx_of (rt_local rt) n)"
proof -
  have "id_xor (rt_local rt) n \<noteq> 0"
    using assms xm.dist_zero rt_invD(1) by metis
  then show "bucket_index rt n = Inr (idx_of (rt_local rt) n)"
    by (simp add: bucket_index_def idx_of_def Let_def)
  show "bucket_at rt (idx_of (rt_local rt) n) = Inr (rt_buckets rt ! idx_of (rt_local rt) n)"
    using idx_of_range(1) [OF rt_invD(1) [OF assms(1)] assms(2,3)] rt_invD(2) [OF assms(1)]
    by (simp add: bucket_at_def)
qed

lemma in_bucketD:
  assumes "rt_inv rt" and "i < ID_BITS" and "c \<in> set (kb_contacts (rt_buckets rt ! i))"
  shows "contact_ok c" and "c_node_id c \<noteq> rt_local rt" and "idx_of (rt_local rt) (c_node_id c) = i"
  using rt_invD(3) [OF assms(1,2)] assms(3) by (auto simp: bucket_inv_def)

lemma set_rt_get_all_contacts:
  assumes "rt_inv rt"
  shows "set (rt_get_all_contacts rt) = (\<Union>i < ID_BITS. set (kb_contacts (rt_buckets rt ! i)))"
  using rt_invD(2) [OF assms] by (force simp: rt_get_all_contacts_def in_set_conv_nth)

lemma all_contacts_ok:
  assumes "rt_inv rt" and "c \<in> set (rt_get_all_contacts rt)"
  shows "contact_ok c" and "c_node_id c \<noteq> rt_local rt"
  using assms in_bucketD by (auto simp: set_rt_get_all_contacts)

lemma find_concat_single:
  assumes "\<And>j. j < length xss \<Longrightarrow> j \<noteq> i \<Longrightarrow> find p (xss ! j) = None"
  shows "find p (concat xss) = (if i < length xss then find p (xss ! i) else None)"
  using assms
proof (induction xss arbitrary: i)
  case (Cons xs xss)
  show ?case
  proof (cases i)
    case 0
    have "find p (xss ! j) = None" if "j < length xss" for j
      using Cons.prems [of "Suc j"] 0 that by simp
    then have "find p (concat xss) = None"
      using Cons.IH [of "length xss"] by simp
    with 0 show ?thesis by (simp add: find_append split: option.split)
  next
    case (Suc k)
    have "find p xs = None"
      using Cons.prems [of 0] Suc by simp
    moreover have "find p (concat xss) = (if k < length xss then find p (xss ! k) else None)"
      using Cons.prems [of "Suc _"] Suc by (intro Cons.IH) auto
    ultimately show ?thesis using Suc by (simp add: find_append)
  qed
qed simp

text \<open>The abstract view, bucket by bucket: an ID is only ever in the bucket of its distance.\<close>

lemma rt_lookup_bucket:
  assumes inv: "rt_inv rt"
  shows "rt_lookup rt n =
    (if is_node_id n \<and> n \<noteq> rt_local rt
     then kb_get_contact (rt_buckets rt ! idx_of (rt_local rt) n) n else None)"
proof (cases "is_node_id n \<and> n \<noteq> rt_local rt")
  case True
  let ?i = "idx_of (rt_local rt) n"
  have "find (\<lambda>c. c_node_id c = n) (map kb_contacts (rt_buckets rt) ! j) = None"
    if "j < length (map kb_contacts (rt_buckets rt))" and "j \<noteq> ?i" for j
    using that in_bucketD(3) [OF inv, of j] rt_invD(2) [OF inv] by (auto simp: find_None_iff)
  from find_concat_single [OF this] show ?thesis
    using True idx_of_range(1) [OF rt_invD(1) [OF inv], of n] rt_invD(2) [OF inv]
    by (simp add: rt_lookup_def rt_get_all_contacts_def kb_get_contact_def)
next
  case False
  then show ?thesis
    using all_contacts_ok [OF inv] by (auto simp: rt_lookup_def find_None_iff contact_ok_def)
qed

lemma rt_lookup_Some_iff:
  assumes "rt_inv rt"
  shows "rt_lookup rt n = Some c \<longleftrightarrow> c \<in> set (rt_get_all_contacts rt) \<and> c_node_id c = n"
proof
  assume "rt_lookup rt n = Some c"
  then show "c \<in> set (rt_get_all_contacts rt) \<and> c_node_id c = n"
    by (auto simp: rt_lookup_def find_Some_iff)
next
  assume c: "c \<in> set (rt_get_all_contacts rt) \<and> c_node_id c = n"
  then obtain i where i: "i < ID_BITS" and mem: "c \<in> set (kb_contacts (rt_buckets rt ! i))"
    using set_rt_get_all_contacts [OF assms] by auto
  note D = in_bucketD [OF assms i mem]
  have "distinct (map c_node_id (kb_contacts (rt_buckets rt ! i)))"
    using rt_invD(3) [OF assms i] by (simp add: bucket_inv_def)
  then have "kb_get_contact (rt_buckets rt ! i) n = Some c"
    using find_distinct_key [OF _ mem] c by (auto simp: kb_get_contact_def)
  with D c show "rt_lookup rt n = Some c"
    by (auto simp: rt_lookup_bucket [OF assms] contact_ok_def)
qed

text \<open>Distinctness of IDs over the whole table.\<close>

lemma distinct_concat_keys:
  assumes "\<And>i. i < length xss \<Longrightarrow> distinct (map f (xss ! i))"
    and "\<And>i x. i < length xss \<Longrightarrow> x \<in> set (xss ! i) \<Longrightarrow> g (f x) = i + k"
  shows "distinct (map f (concat xss))"
  using assms
proof (induction xss arbitrary: k)
  case (Cons xs xss)
  have "distinct (map f (concat xss))"
    using Cons.prems(1) [of "Suc _"] Cons.prems(2) [of "Suc _"] by (intro Cons.IH [of "Suc k"]) auto
  moreover have "f x \<noteq> f y" if "x \<in> set xs" "y \<in> set (concat xss)" for x y
  proof -
    from that(2) obtain ys where "ys \<in> set xss" "y \<in> set ys"
      by auto
    then obtain i where i: "i < length xss" "y \<in> set (xss ! i)"
      by (metis in_set_conv_nth)
    show ?thesis
      using Cons.prems(2) [of 0 x] Cons.prems(2) [of "Suc i" y] that(1) i by auto
  qed
  ultimately show ?case
    using Cons.prems(1) [of 0] by (auto simp: image_iff)
qed simp

lemma distinct_all_contacts:
  assumes "rt_inv rt"
  shows "distinct (map c_node_id (rt_get_all_contacts rt))"
  unfolding rt_get_all_contacts_def
proof (rule distinct_concat_keys [where g = "idx_of (rt_local rt)" and k = 0])
  fix i assume "i < length (map kb_contacts (rt_buckets rt))"
  then have i: "i < ID_BITS" "map kb_contacts (rt_buckets rt) ! i = kb_contacts (rt_buckets rt ! i)"
    using rt_invD(2) [OF assms] by simp_all
  show "distinct (map c_node_id (map kb_contacts (rt_buckets rt) ! i))"
    using rt_invD(3) [OF assms i(1)] by (simp add: i(2) bucket_inv_def)
  show "idx_of (rt_local rt) (c_node_id c) = i + 0" if "c \<in> set (map kb_contacts (rt_buckets rt) ! i)" for c
    using in_bucketD(3) [OF assms i(1)] that by (simp add: i(2))
qed

lemma rt_len_contacts: "rt_len rt = length (rt_get_all_contacts rt)"
  by (simp add: rt_len_def rt_get_all_contacts_def length_concat comp_def kb_len_def [abs_def])

section \<open>The operations on the abstract view\<close>

lemma rt_inv_update:
  assumes "rt_inv rt" and "i < ID_BITS" and "bucket_inv (rt_local rt) (rt_k rt) i b"
  shows "rt_inv (rt\<lparr>rt_buckets := (rt_buckets rt)[i := b]\<rparr>)"
  using assms by (auto simp: rt_inv_def nth_list_update)

lemma rt_lookup_update:
  assumes "rt_inv rt" and "i < ID_BITS" and "bucket_inv (rt_local rt) (rt_k rt) i b"
  shows "rt_lookup (rt\<lparr>rt_buckets := (rt_buckets rt)[i := b]\<rparr>) n =
    (if is_node_id n \<and> n \<noteq> rt_local rt \<and> idx_of (rt_local rt) n = i then kb_get_contact b n
     else rt_lookup rt n)"
  using assms(2) rt_invD(2) [OF assms(1)]
  by (auto simp: rt_lookup_bucket [OF assms(1)] rt_lookup_bucket [OF rt_inv_update [OF assms]])

lemma rt_add_contact_eq:
  assumes "rt_inv rt" and "rt_admissible rt c"
  shows "rt_add_contact rt c =
    (let i = idx_of (rt_local rt) (c_node_id c); (r, b') = kb_add_contact (rt_buckets rt ! i) c
     in Inr (r, rt\<lparr>rt_buckets := (rt_buckets rt)[i := b']\<rparr>))"
  using assms bucket_index_ok [OF assms(1), of "c_node_id c"]
  by (simp add: rt_add_contact_def rt_admissible_def contact_ok_def Let_def)

lemma rt_add_contact_cases:
  assumes inv: "rt_inv rt" and adm: "rt_admissible rt c"
  obtains (accepted) rt' where "rt_add_contact rt c = Inr (True, rt')" and "rt_inv rt'"
      and "rt_lookup rt' = (rt_lookup rt)(c_node_id c \<mapsto> c)" and "rt_local rt' = rt_local rt"
      and "rt_k rt' = rt_k rt"
      and "rt_lookup rt (c_node_id c) \<noteq> None \<or>
           int (length (kb_contacts (rt_buckets rt ! idx_of (rt_local rt) (c_node_id c)))) < rt_k rt"
    | (refused) "rt_add_contact rt c = Inr (False, rt)" and "rt_lookup rt (c_node_id c) = None"
      and "rt_k rt \<le> int (length (kb_contacts (rt_buckets rt ! idx_of (rt_local rt) (c_node_id c))))"
proof -
  let ?i = "idx_of (rt_local rt) (c_node_id c)"
  let ?b = "rt_buckets rt ! ?i"
  obtain r b' where add: "kb_add_contact ?b c = (r, b')"
    by fastforce
  let ?rt' = "rt\<lparr>rt_buckets := (rt_buckets rt)[?i := b']\<rparr>"
  have c: "is_node_id (c_node_id c)" "contact_ok c" "c_node_id c \<noteq> rt_local rt"
    using adm by (auto simp: rt_admissible_def contact_ok_def)
  have i: "?i < ID_BITS"
    using idx_of_range(1) [OF rt_invD(1) [OF inv] c(1,3)] .
  have b: "bucket_inv (rt_local rt) (rt_k rt) ?i ?b"
    using rt_invD(3) [OF inv i] .
  then have dist: "distinct (map c_node_id (kb_contacts ?b))" and k: "kb_k ?b = rt_k rt"
    by (simp_all add: bucket_inv_def)
  have b': "bucket_inv (rt_local rt) (rt_k rt) ?i b'"
    using kb_add_inv [OF b add c(2,3)] by simp
  have res: "rt_add_contact rt c = Inr (r, ?rt')"
    by (simp add: rt_add_contact_eq [OF assms] add Let_def)
  have look: "rt_lookup rt (c_node_id c) = kb_get_contact ?b (c_node_id c)"
    using c by (simp add: rt_lookup_bucket [OF inv])
  show ?thesis
  proof (cases r)
    case True
    have upd: "rt_lookup ?rt' n = ((rt_lookup rt)(c_node_id c \<mapsto> c)) n" for n
      using c kb_add_lookup [OF dist, of c b'] add True
      by (auto simp: rt_lookup_update [OF inv i b'] rt_lookup_bucket [OF inv])
    show ?thesis
      using True res rt_inv_update [OF inv i b'] upd kb_add_accepted(2) [OF dist, of c b'] add k look
      by (intro accepted [of ?rt']) (auto simp: fun_eq_iff)
  next
    case False
    with add have "b' = ?b" and "kb_get_contact ?b (c_node_id c) = None"
      and "kb_k ?b \<le> int (length (kb_contacts ?b))"
      by (simp_all add: kb_add_refused)
    then show ?thesis
      using False res k look by (intro refused) simp_all
  qed
qed

lemma rt_add_contact_raises:
  assumes "rt_inv rt" and "contact_ok c" and "\<not> rt_admissible rt c"
  shows "rt_add_contact rt c = Inl ValueError"
  using assms by (simp add: rt_add_contact_def rt_admissible_def)

text \<open>The size of a distance range of the abstract view is the length of its bucket.\<close>

lemma card_spec_range:
  assumes inv: "rt_inv rt" and i: "i < ID_BITS"
  shows "card (spec_range (rt_local rt) (rt_lookup rt) i) = length (kb_contacts (rt_buckets rt ! i))"
proof -
  let ?b = "kb_contacts (rt_buckets rt ! i)"
  have "n \<in> spec_range (rt_local rt) (rt_lookup rt) i \<longleftrightarrow> n \<in> c_node_id ` set ?b" for n
  proof
    assume "n \<in> spec_range (rt_local rt) (rt_lookup rt) i"
    then obtain c where c: "rt_lookup rt n = Some c"
      and range: "2 ^ i \<le> id_xor (rt_local rt) n" "id_xor (rt_local rt) n < 2 ^ Suc i"
      by (auto simp: spec_range_def)
    then have n: "is_node_id n" "n \<noteq> rt_local rt" "c_node_id c = n"
      using all_contacts_ok [OF inv, of c] by (auto simp: rt_lookup_Some_iff [OF inv] contact_ok_def)
    with range have "idx_of (rt_local rt) n = i"
      using idx_of_eq_iff [OF rt_invD(1) [OF inv]] by blast
    with c n show "n \<in> c_node_id ` set ?b"
      using kb_get_None_iff [of "rt_buckets rt ! i" n] by (simp add: rt_lookup_bucket [OF inv])
  next
    assume "n \<in> c_node_id ` set ?b"
    then obtain c where c: "c \<in> set ?b" "c_node_id c = n" by auto
    note D = in_bucketD [OF inv i c(1)]
    have "rt_lookup rt n = Some c"
      using c i set_rt_get_all_contacts [OF inv] by (auto simp: rt_lookup_Some_iff [OF inv])
    with D c show "n \<in> spec_range (rt_local rt) (rt_lookup rt) i"
      using idx_of_range(2,3) [OF rt_invD(1) [OF inv], of n]
      by (auto simp: spec_range_def contact_ok_def)
  qed
  then have "spec_range (rt_local rt) (rt_lookup rt) i = set (map c_node_id ?b)"
    by auto
  moreover have "distinct (map c_node_id ?b)"
    using rt_invD(3) [OF inv i] by (simp add: bucket_inv_def)
  ultimately show ?thesis
    by (metis distinct_card length_map)
qed

lemma rt_remove_contact_spec:
  assumes inv: "rt_inv rt" and n: "is_node_id n"
  obtains rt' where "rt_remove_contact rt n = Inr (rt_lookup rt n \<noteq> None, rt')" and "rt_inv rt'"
    and "rt_lookup rt' = (rt_lookup rt)(n := None)" and "rt_local rt' = rt_local rt"
    and "rt_k rt' = rt_k rt"
proof (cases "n = rt_local rt")
  case True
  then have "rt_lookup rt n = None"
    by (simp add: rt_lookup_bucket [OF inv])
  with True inv show ?thesis
    by (intro that [of rt]) (auto simp: rt_remove_contact_def)
next
  case False
  let ?i = "idx_of (rt_local rt) n"
  let ?b = "rt_buckets rt ! ?i"
  obtain r b' where rem: "kb_remove_contact ?b n = (r, b')"
    by fastforce
  have i: "?i < ID_BITS"
    using idx_of_range(1) [OF rt_invD(1) [OF inv] n False] .
  have b: "bucket_inv (rt_local rt) (rt_k rt) ?i ?b"
    using rt_invD(3) [OF inv i] .
  then have dist: "distinct (map c_node_id (kb_contacts ?b))"
    by (simp add: bucket_inv_def)
  have b': "bucket_inv (rt_local rt) (rt_k rt) ?i b'"
    using kb_remove_inv [OF b rem] .
  have "rt_lookup (rt\<lparr>rt_buckets := (rt_buckets rt)[?i := b']\<rparr>) m = ((rt_lookup rt)(n := None)) m" for m
    using n False kb_remove_lookup [OF dist rem]
    by (auto simp: rt_lookup_update [OF inv i b'] rt_lookup_bucket [OF inv])
  moreover have "r \<longleftrightarrow> rt_lookup rt n \<noteq> None"
    using kb_remove_filter(2) [OF dist rem] n False by (simp add: rt_lookup_bucket [OF inv])
  ultimately show ?thesis
    using False rem bucket_index_ok [OF inv n False] rt_inv_update [OF inv i b']
    by (intro that [of "rt\<lparr>rt_buckets := (rt_buckets rt)[?i := b']\<rparr>"])
      (auto simp: rt_remove_contact_def Let_def fun_eq_iff)
qed

lemma rt_get_contact_lookup:
  assumes "rt_inv rt" and "is_node_id n"
  shows "rt_get_contact rt n = Inr (rt_lookup rt n)"
  using assms bucket_index_ok [OF assms]
  by (cases "n = rt_local rt") (simp_all add: rt_get_contact_def rt_lookup_bucket [OF assms(1)])

lemma RoutingTable_init:
  assumes "RoutingTable loc k = Inr rt"
  shows "rt_inv rt" and "rt_lookup rt = (\<lambda>_. None)" and "rt_local rt = loc" and "rt_k rt = k"
  using assms
  by (auto simp: RoutingTable_def rt_inv_def bucket_inv_def is_node_id_def rt_lookup_def
      rt_get_all_contacts_def fun_eq_iff split: if_splits)

text \<open>One insertion of an admissible contact is one step of the abstract rule.\<close>

lemma rt_add_spec:
  assumes "rt_inv rt" and "rt_admissible rt c"
  shows "\<exists>b rt'. rt_add_contact rt c = Inr (b, rt') \<and> rt_inv rt' \<and>
      (b, rt_lookup rt') = spec_add (rt_local rt) (rt_k rt) (rt_lookup rt) c \<and>
      (\<not> b \<longrightarrow> rt' = rt) \<and> rt_local rt' = rt_local rt \<and> rt_k rt' = rt_k rt"
proof -
  have i: "idx_of (rt_local rt) (c_node_id c) < ID_BITS"
    using idx_of_range(1) [OF rt_invD(1) [OF assms(1)]] assms(2)
    by (simp add: rt_admissible_def contact_ok_def)
  show ?thesis
    using card_spec_range [OF assms(1) i]
    by (cases rule: rt_add_contact_cases [OF assms])
      (auto simp: spec_add_def domIff assms(1))
qed

section \<open>The table provides the contact-table interface\<close>

text \<open>The constructor and the insertion together, as every caller uses them.\<close>

definition rt_store :: "rtable \<Rightarrow> contact \<Rightarrow> (bool \<times> rtable) res" where
  "rt_store rt c =
     and_then (KademliaContact (c_node_id c) (c_host c) (c_port c)) (rt_add_contact rt)"

lemma KademliaContact_ok_iff:
  "KademliaContact n h p = Inr c \<longleftrightarrow> c = \<lparr>c_node_id = n, c_host = h, c_port = p\<rparr> \<and> contact_ok c"
  by (auto simp: KademliaContact_def contact_ok_def is_node_id_def)

lemma KademliaContact_raises: "KademliaContact n h p = Inl e \<longleftrightarrow>
    e = ValueError \<and> \<not> contact_ok \<lparr>c_node_id = n, c_host = h, c_port = p\<rparr>"
  by (auto simp: KademliaContact_def contact_ok_def is_node_id_def)

lemma contact_rebuild [simp]: "\<lparr>c_node_id = c_node_id c, c_host = c_host c, c_port = c_port c\<rparr> = c"
  by simp

lemma KademliaContact_of_contact:
  "KademliaContact (c_node_id c) (c_host c) (c_port c) = (if contact_ok c then Inr c else Inl ValueError)"
  by (auto simp: KademliaContact_def contact_ok_def is_node_id_def)

lemma rt_store_ok: "contact_ok c \<Longrightarrow> rt_store rt c = rt_add_contact rt c"
  by (simp add: rt_store_def KademliaContact_of_contact)

interpretation rtt: contact_table rt_inv rt_admissible c_node_id rt_lookup "\<lambda>_. rt_store"
proof unfold_locales
  fix rt c b rt' d
  assume inv: "rt_inv rt"
  show "rt_admissible rt c \<Longrightarrow> \<exists>b t'. rt_store rt c = Inr (b, t')"
    using rt_add_contact_cases [OF inv] by (metis rt_admissible_def rt_store_ok)
  show raises: "\<not> rt_admissible rt c \<Longrightarrow> rt_store rt c = Inl ValueError"
    using rt_add_contact_raises [OF inv]
    by (cases "contact_ok c") (simp_all add: rt_store_def KademliaContact_of_contact)
  have adm: "rt_store rt c = Inr (b, rt') \<Longrightarrow> rt_admissible rt c \<and> rt_add_contact rt c = Inr (b, rt')"
    using raises by (metis Inl_Inr_False rt_admissible_def rt_store_ok)
  show "rt_inv rt'" if "rt_store rt c = Inr (b, rt')"
    using adm [OF that] inv by (cases rule: rt_add_contact_cases [OF inv, of c]) auto
  show "rt_admissible rt' d \<longleftrightarrow> rt_admissible rt d" if "rt_store rt c = Inr (b, rt')"
    using adm [OF that]
    by (cases rule: rt_add_contact_cases [OF inv, of c]) (auto simp: rt_admissible_def)
next
  fix rt c rt'
  assume inv: "rt_inv rt"
  have adm: "rt_admissible rt c \<and> rt_add_contact rt c = Inr (b, rt')" if "rt_store rt c = Inr (b, rt')" for b
    using that rt_add_contact_raises [OF inv, of c]
    by (cases "contact_ok c") (auto simp: rt_store_def KademliaContact_of_contact)
  show "rt_lookup rt' = (rt_lookup rt)(c_node_id c \<mapsto> c)" if "rt_store rt c = Inr (True, rt')"
    using adm [OF that] by (cases rule: rt_add_contact_cases [OF inv, of c]) auto
  show "rt' = rt \<and> rt_lookup rt (c_node_id c) = None" if "rt_store rt c = Inr (False, rt')"
    using adm [OF that] by (cases rule: rt_add_contact_cases [OF inv, of c]) auto
qed

section \<open>Properties\<close>

text \<open>The tables a node can build: a fresh one, then any insertions and removals.\<close>

inductive rt_reachable :: "bytes \<Rightarrow> int \<Rightarrow> rtable \<Rightarrow> bool" for loc k where
  fresh: "RoutingTable loc k = Inr rt \<Longrightarrow> rt_reachable loc k rt"
| add: "rt_reachable loc k rt \<Longrightarrow> KademliaContact n h p = Inr c \<Longrightarrow>
    rt_add_contact rt c = Inr (b, rt') \<Longrightarrow> rt_reachable loc k rt'"
| remove: "rt_reachable loc k rt \<Longrightarrow> length n = ID_BYTES \<Longrightarrow>
    rt_remove_contact rt n = Inr (b, rt') \<Longrightarrow> rt_reachable loc k rt'"

lemma rt_reachable_inv: "rt_reachable loc k rt \<Longrightarrow> rt_inv rt \<and> rt_local rt = loc \<and> rt_k rt = k"
proof (induction rule: rt_reachable.induct)
  case (fresh rt)
  then show ?case by (simp add: RoutingTable_init)
next
  case (add rt n h p c b rt')
  then have "rt_admissible rt c"
    using rt_add_contact_raises by (fastforce simp: KademliaContact_ok_iff)
  with add show ?case
    using rt_add_contact_cases [of rt c] by (metis Inr_inject prod.inject)
next
  case (remove rt n b rt')
  then show ?case
    using rt_remove_contact_spec [of rt n] by (metis Inr_inject is_node_id_def prod.inject)
qed

text \<open>
  C1. In every table a node can reach by insertions and removals: there are 256 buckets; each holds
  at most \<open>k\<close> contacts; no two contacts of the table share a node ID; every stored contact has a
  32-byte ID other than the local one and a port in 1..65535, and lies in the bucket whose index is
  the position of the highest bit of its XOR distance to the local node.
\<close>

theorem rt_reachable_invariant:
  assumes "rt_reachable loc k rt"
  shows "length (rt_buckets rt) = 256 \<and>
    distinct (map c_node_id (rt_get_all_contacts rt)) \<and>
    (\<forall>i < 256. int (length (kb_contacts (rt_buckets rt ! i))) \<le> max 0 k \<and>
      (\<forall>c \<in> set (kb_contacts (rt_buckets rt ! i)).
         length (c_node_id c) = 32 \<and> c_node_id c \<noteq> loc \<and> 1 \<le> c_port c \<and> c_port c \<le> 65535 \<and>
         2 ^ i \<le> id_xor loc (c_node_id c) \<and> id_xor loc (c_node_id c) < 2 ^ Suc i))"
proof -
  have inv: "rt_inv rt" and loc: "rt_local rt = loc" and k: "rt_k rt = k"
    using rt_reachable_inv [OF assms] by auto
  have "length (c_node_id c) = 32 \<and> c_node_id c \<noteq> loc \<and> 1 \<le> c_port c \<and> c_port c \<le> 65535 \<and>
      2 ^ i \<le> id_xor loc (c_node_id c) \<and> id_xor loc (c_node_id c) < 2 ^ Suc i"
    if "i < 256" and "c \<in> set (kb_contacts (rt_buckets rt ! i))" for i c
    using in_bucketD [OF inv, of i c] that
      idx_of_range(2,3) [OF rt_invD(1) [OF inv], of "c_node_id c"]
    by (auto simp: contact_ok_def is_node_id_def loc)
  moreover have "int (length (kb_contacts (rt_buckets rt ! i))) \<le> max 0 k" if "i < 256" for i
    using rt_invD(3) [OF inv, of i] that k by (simp add: bucket_inv_def)
  moreover have "length (rt_buckets rt) = 256" and "distinct (map c_node_id (rt_get_all_contacts rt))"
    using rt_invD(2) [OF inv] distinct_all_contacts [OF inv] by simp_all
  ultimately show ?thesis by blast
qed

text \<open>
  A table with one peer at distance 1 from the local node, in bucket 0, for the witnesses.
\<close>

definition ex_local :: bytes where
  "ex_local = replicate 32 0"

definition ex_contact :: contact where
  "ex_contact = \<lparr>c_node_id = replicate 31 0 @ [1], c_host = PStr (u ''10.0.0.1''), c_port = 5001\<rparr>"

definition ex_table :: rtable where
  "ex_table = \<lparr>rt_local = ex_local, rt_k = 20,
     rt_buckets = \<lparr>kb_k = 20, kb_contacts = [ex_contact]\<rparr> # replicate 255 \<lparr>kb_k = 20, kb_contacts = []\<rparr>\<rparr>"

lemma ex_table_added:
  "rt_add_contact \<lparr>rt_local = ex_local, rt_k = 20, rt_buckets = replicate 256 \<lparr>kb_k = 20, kb_contacts = []\<rparr>\<rparr>
     ex_contact = Inr (True, ex_table)"
proof -
  have "from_bytes_big ex_local = 0" and "from_bytes_big (c_node_id ex_contact) = 1"
    by (simp_all add: ex_local_def ex_contact_def from_bytes_big_def eval_nat_numeral)
  then have "id_xor ex_local (c_node_id ex_contact) = 1"
    by (simp add: id_xor_def)
  moreover have "bit_length 1 = 1"
    by (simp add: bit_length.simps)
  moreover have "c_node_id ex_contact \<noteq> ex_local"
    by (simp add: ex_contact_def ex_local_def eval_nat_numeral)
  moreover have "replicate 256 x = x # replicate 255 x" for x :: kbucket
    by (simp add: eval_nat_numeral)
  ultimately show ?thesis
    by (simp add: rt_add_contact_def bucket_index_def bucket_at_def kb_add_contact_def kb_is_full_def
        ex_table_def)
qed

lemma ex_contact_ok: "KademliaContact (c_node_id ex_contact) (c_host ex_contact) (c_port ex_contact) = Inr ex_contact"
  by (simp add: KademliaContact_def ex_contact_def)

lemma ex_table_reachable: "rt_reachable ex_local 20 ex_table"
  by (rule rt_reachable.add [OF rt_reachable.fresh ex_contact_ok ex_table_added])
    (simp add: RoutingTable_def ex_local_def)

lemma ex_table_inv: "rt_inv ex_table"
  using rt_reachable_inv [OF ex_table_reachable] by simp

theorem rt_reachable_invariant_witness:
  "rt_reachable ex_local 20 ex_table \<and> ex_contact \<in> set (kb_contacts (rt_buckets ex_table ! 0)) \<and>
   length (rt_buckets ex_table) = 256 \<and> distinct (map c_node_id (rt_get_all_contacts ex_table)) \<and>
   2 ^ 0 \<le> id_xor ex_local (c_node_id ex_contact) \<and> id_xor ex_local (c_node_id ex_contact) < 2 ^ Suc 0"
proof -
  have "ex_contact \<in> set (kb_contacts (rt_buckets ex_table ! 0))"
    by (simp add: ex_table_def)
  then show ?thesis
    using rt_reachable_invariant [OF ex_table_reachable] ex_table_reachable by fastforce
qed

text \<open>
  C3. Insertion implements the Kademlia rule on the abstract map: a known ID is always accepted and
  its contact replaced; a new ID is accepted exactly when fewer than \<open>k\<close> known IDs lie in its
  distance range; every other entry is untouched; a refusal changes nothing; inserting the local
  node raises \<open>ValueError\<close>.
\<close>

theorem rt_add_refines:
  assumes "rt_inv rt" and "contact_ok c"
  shows "if c_node_id c = rt_local rt then rt_add_contact rt c = Inl ValueError
    else \<exists>b rt'. rt_add_contact rt c = Inr (b, rt') \<and> rt_inv rt' \<and>
      (b, rt_lookup rt') = spec_add (rt_local rt) (rt_k rt) (rt_lookup rt) c \<and>
      (\<not> b \<longrightarrow> rt' = rt) \<and> rt_local rt' = rt_local rt \<and> rt_k rt' = rt_k rt"
proof (cases "c_node_id c = rt_local rt")
  case True
  then show ?thesis by (simp add: rt_add_contact_def)
next
  case False
  then show ?thesis
    using rt_add_spec [OF assms(1), of c] assms(2) by (simp add: rt_admissible_def)
qed

theorem rt_add_refines_witness:
  "\<exists>b rt'. rt_add_contact ex_table ex_contact = Inr (b, rt') \<and> rt_inv rt' \<and>
     (b, rt_lookup rt') = spec_add ex_local 20 (rt_lookup ex_table) ex_contact"
proof -
  have "contact_ok ex_contact" and "c_node_id ex_contact \<noteq> rt_local ex_table"
    by (simp_all add: contact_ok_def is_node_id_def ex_contact_def ex_table_def ex_local_def eval_nat_numeral)
  then show ?thesis
    using rt_add_refines [OF ex_table_inv, of ex_contact] by (auto simp: ex_table_def)
qed

text \<open>
  \<open>get_contact\<close> and \<open>remove_contact\<close> of a 32-byte ID never raise; \<open>get_contact\<close> returns the one
  stored contact with that ID (the local ID is never found), \<open>remove_contact\<close> returns whether the
  ID was stored and erases exactly that entry.
\<close>

theorem rt_get_remove_refines:
  assumes "rt_inv rt" and "length n = ID_BYTES"
  shows "rt_get_contact rt n = Inr (rt_lookup rt n) \<and>
    (\<forall>c. rt_lookup rt n = Some c \<longleftrightarrow> c \<in> set (rt_get_all_contacts rt) \<and> c_node_id c = n) \<and>
    (\<exists>rt'. rt_remove_contact rt n = Inr (rt_lookup rt n \<noteq> None, rt') \<and> rt_inv rt' \<and>
       rt_lookup rt' = (rt_lookup rt)(n := None))"
proof -
  have n: "is_node_id n"
    using assms(2) by (simp add: is_node_id_def)
  obtain rt' where "rt_remove_contact rt n = Inr (rt_lookup rt n \<noteq> None, rt')" and "rt_inv rt'"
    and "rt_lookup rt' = (rt_lookup rt)(n := None)"
    by (rule rt_remove_contact_spec [OF assms(1) n])
  then show ?thesis
    using rt_get_contact_lookup [OF assms(1) n] rt_lookup_Some_iff [OF assms(1)] by blast
qed

theorem rt_get_remove_refines_witness:
  "rt_get_contact ex_table (c_node_id ex_contact) = Inr (Some ex_contact) \<and>
   (\<exists>rt'. rt_remove_contact ex_table (c_node_id ex_contact) = Inr (True, rt') \<and>
      rt_lookup rt' (c_node_id ex_contact) = None)"
proof -
  have "length (c_node_id ex_contact) = ID_BYTES"
    by (simp add: ex_contact_def)
  note R = rt_get_remove_refines [OF ex_table_inv this]
  moreover have "ex_contact \<in> set (rt_get_all_contacts ex_table)"
    by (simp add: rt_get_all_contacts_def ex_table_def)
  ultimately have "rt_lookup ex_table (c_node_id ex_contact) = Some ex_contact"
    by blast
  with R show ?thesis by auto
qed

text \<open>
  Least-recently-seen order: after an accepted insertion into a bucket without duplicate IDs
  the contact is the tail, and the other contacts keep their relative order; in particular a
  refreshed contact moves from its place to the tail with its new host and port.
\<close>

theorem kb_add_moves_to_tail:
  assumes "distinct (map c_node_id (kb_contacts b))" and "fst (kb_add_contact b c)"
  shows "kb_contacts (snd (kb_add_contact b c)) =
    filter (\<lambda>d. c_node_id d \<noteq> c_node_id c) (kb_contacts b) @ [c]"
proof -
  obtain b' where acc: "kb_add_contact b c = (True, b')"
    using assms(2) by (cases "kb_add_contact b c") auto
  then show ?thesis
    using kb_add_accepted(1) [OF assms(1) acc] by simp
qed

theorem kb_add_moves_to_tail_witness:
  "kb_contacts (snd (kb_add_contact
      \<lparr>kb_k = 2, kb_contacts = [ex_contact, ex_contact\<lparr>c_node_id := ex_local\<rparr>]\<rparr>
      (ex_contact\<lparr>c_port := 6000\<rparr>)))
   = [ex_contact\<lparr>c_node_id := ex_local\<rparr>, ex_contact\<lparr>c_port := 6000\<rparr>]"
  by (subst kb_add_moves_to_tail)
    (simp_all add: ex_contact_def ex_local_def kb_add_contact_def contact_eq_def eval_nat_numeral)

end
