(* ===== verification/Peer_Lookup.thy ===== *)
theory Peer_Lookup
  imports Routing_Table
begin

text \<open>
  \<open>meshweaver/kademlia/lookup.py\<close>: \<open>PeerLookup\<close>, the query for the \<open>k\<close> known peers closest to a
  target. The ranking step (sort by \<open>xor_distance\<close>, which may raise) is shared with the FIND_NODE
  handler of \<open>rpc.py\<close>.
\<close>

text \<open>
  \<open>contacts.sort(key=lambda c: xor_distance(c.node_id, target_id))\<close>: the keys are computed first,
  in list order, then the list is sorted stably.
\<close>

definition sort_by_distance :: "bytes \<Rightarrow> contact list \<Rightarrow> contact list res" where
  "sort_by_distance target_id cs =
     and_then (map_res (\<lambda>c. and_then (xor_distance (c_node_id c) target_id) (\<lambda>d. Inr (d, c))) cs)
       (\<lambda>dcs. Inr (map snd (sort_key fst dcs)))"

record peer_lookup =
  pl_routing_table :: rtable
  pl_k :: int

definition PeerLookup :: "rtable \<Rightarrow> int \<Rightarrow> peer_lookup res" where
  "PeerLookup routing_table k =
     (if k < 1 then Inl ValueError else Inr \<lparr>pl_routing_table = routing_table, pl_k = k\<rparr>)"

definition find_closest :: "peer_lookup \<Rightarrow> bytes \<Rightarrow> contact list res" where
  "find_closest pl target_id =
     (if length target_id \<noteq> ID_BYTES then Inl ValueError
      else and_then (sort_by_distance target_id (rt_get_all_contacts (pl_routing_table pl)))
             (\<lambda>cs. Inr (take (nat (pl_k pl)) cs)))"

definition find_closest_hex :: "peer_lookup \<Rightarrow> pystr \<Rightarrow> contact list res" where
  "find_closest_hex pl target_id_hex = and_then (node_id_from_hex target_id_hex) (find_closest pl)"

section \<open>Ranking\<close>

abbreviation dist_to :: "bytes \<Rightarrow> contact \<Rightarrow> nat" where
  "dist_to t c \<equiv> id_xor (c_node_id c) t"

lemma sort_by_distance_ok:
  assumes "is_node_id t" and "\<forall>c \<in> set cs. is_node_id (c_node_id c)"
  shows "sort_by_distance t cs = Inr (sort_key (dist_to t) cs)"
proof -
  have "map_res (\<lambda>c. and_then (xor_distance (c_node_id c) t) (\<lambda>d. Inr (d, c))) cs
      = Inr (map (\<lambda>c. (dist_to t c, c)) cs)"
    by (rule map_res_InrI) (simp add: assms)
  then show ?thesis
    by (simp add: sort_by_distance_def sort_key_decorated)
qed

text \<open>
  With distinct IDs the ranking is strict, so the prefix is the set of the closest contacts: every
  contact left out is strictly farther than every contact returned.
\<close>

lemma closest_prefix:
  assumes "distinct (map c_node_id cs)" and "\<forall>c \<in> set cs. is_node_id (c_node_id c)"
    and "x \<in> set (take n (sort_key (dist_to t) cs))" and "y \<in> set cs"
    and "y \<notin> set (take n (sort_key (dist_to t) cs))"
  shows "dist_to t x < dist_to t y"
proof -
  let ?s = "sort_key (dist_to t) cs"
  have "x \<in> set cs"
    using assms(3) set_take_sort_key [of n "dist_to t" cs] by auto
  have "y \<in> set (take n ?s) \<union> set (drop n ?s)"
    using assms(4) by (metis append_take_drop_id set_append set_sort)
  with assms(5) have "dist_to t x \<le> dist_to t y"
    using assms(3) by (intro sorted_take_le_drop [of "dist_to t" ?s x n]) auto
  moreover have "dist_to t x \<noteq> dist_to t y"
  proof
    assume "dist_to t x = dist_to t y"
    then have "c_node_id x = c_node_id y"
      using assms(2) \<open>x \<in> set cs\<close> assms(4) xm.dist_unique [of "c_node_id x" "c_node_id y" t]
      by (simp add: xm.dist_sym)
    then have "x = y"
      using assms(1,4) \<open>x \<in> set cs\<close> by (auto simp: distinct_map dest: inj_onD)
    with assms(3,5) show False by simp
  qed
  ultimately show ?thesis by simp
qed

lemma sorted_strict_distances:
  assumes "distinct (map c_node_id cs)" and "\<forall>c \<in> set cs. is_node_id (c_node_id c)"
  shows "sorted_wrt (\<lambda>a b. dist_to t a < dist_to t b) (take n (sort_key (dist_to t) cs))"
proof -
  let ?s = "take n (sort_key (dist_to t) cs)"
  have "sorted_wrt (\<lambda>a b. id_xor t a < id_xor t b) (map c_node_id ?s)"
  proof (rule xm.strictly_sorted_by_distance)
    show "distinct (map c_node_id ?s)"
      using assms(1) by (rule distinct_take_sort_key)
    show "\<forall>x \<in> set (map c_node_id ?s). is_node_id x"
      using assms(2) set_take_sort_key [of n "dist_to t" cs] by auto
    show "sorted (map (id_xor t) (map c_node_id ?s))"
      using sorted_take_sort_key [of "dist_to t" n cs] by (simp add: comp_def xm.dist_sym)
  qed
  then show ?thesis
    by (simp add: sorted_wrt_map xm.dist_sym)
qed

lemma find_closest_total:
  assumes "rt_inv (pl_routing_table pl)" and "is_node_id t"
  shows "find_closest pl t = Inr (take (nat (pl_k pl)) (sort_key (dist_to t) (rt_get_all_contacts (pl_routing_table pl))))"
  using sort_by_distance_ok [OF assms(2)] all_contacts_ok(1) [OF assms(1)] assms(2)
  by (auto simp: find_closest_def is_node_id_def contact_ok_def)

section \<open>Properties\<close>

text \<open>
  C10. On any well-formed table a lookup for a 32-byte target returns the \<open>k\<close> nearest known peers:
  \<open>min k n\<close> distinct stored contacts in strictly ascending XOR distance, every stored contact left
  out being strictly farther than every contact returned, and never the local node; a target of
  another length raises \<open>ValueError\<close>.
\<close>

theorem find_closest_correct:
  assumes "rt_inv rt" and "PeerLookup rt k = Inr pl"
  shows "if length t \<noteq> ID_BYTES then find_closest pl t = Inl ValueError
    else \<exists>cs. find_closest pl t = Inr cs \<and>
      length cs = min (nat k) (rt_len rt) \<and> distinct (map c_node_id cs) \<and>
      set cs \<subseteq> set (rt_get_all_contacts rt) \<and> rt_local rt \<notin> c_node_id ` set cs \<and>
      sorted_wrt (\<lambda>a b. id_xor (c_node_id a) t < id_xor (c_node_id b) t) cs \<and>
      (\<forall>x \<in> set cs. \<forall>y \<in> set (rt_get_all_contacts rt) - set cs.
         id_xor (c_node_id x) t < id_xor (c_node_id y) t)"
proof (cases "length t = ID_BYTES")
  case False
  then show ?thesis by (simp add: find_closest_def)
next
  case True
  let ?all = "rt_get_all_contacts rt"
  let ?cs = "take (nat k) (sort_key (dist_to t) ?all)"
  have pl: "pl_routing_table pl = rt" "pl_k pl = k"
    using assms(2) by (auto simp: PeerLookup_def split: if_splits)
  have dist: "distinct (map c_node_id ?all)"
    by (rule distinct_all_contacts [OF assms(1)])
  have ids: "\<forall>c \<in> set ?all. is_node_id (c_node_id c)"
    using all_contacts_ok(1) [OF assms(1)] by (simp add: contact_ok_def)
  have "sort_by_distance t ?all = Inr (sort_key (dist_to t) ?all)"
    using sort_by_distance_ok ids True by (simp add: is_node_id_def)
  then have "find_closest pl t = Inr ?cs"
    using True pl by (simp add: find_closest_def)
  moreover have "length ?cs = min (nat k) (rt_len rt)"
    by (simp add: rt_len_contacts min.commute)
  moreover have "set ?cs \<subseteq> set ?all"
    by (rule set_take_sort_key)
  moreover from this have "rt_local rt \<notin> c_node_id ` set ?cs"
    using all_contacts_ok(2) [OF assms(1)] by (metis imageE subsetD)
  ultimately show ?thesis
    using True distinct_take_sort_key [OF dist] sorted_strict_distances [OF dist ids]
      closest_prefix [OF dist ids] by auto
qed

theorem find_closest_correct_witness:
  "\<exists>cs. find_closest \<lparr>pl_routing_table = ex_table, pl_k = 20\<rparr> (replicate 32 5) = Inr cs \<and>
     length cs = 1 \<and> set cs \<subseteq> {ex_contact}"
proof -
  have "PeerLookup ex_table 20 = Inr \<lparr>pl_routing_table = ex_table, pl_k = 20\<rparr>"
    by (simp add: PeerLookup_def)
  from find_closest_correct [OF ex_table_inv this, of "replicate 32 5"] show ?thesis
    by (auto simp: rt_len_contacts rt_get_all_contacts_def ex_table_def)
qed

text \<open>
  A target that is itself a stored peer is found: it is the head of the result, at distance 0,
  whether the target is given as bytes or as its hexadecimal text.
\<close>

theorem find_closest_exact:
  assumes "rt_inv rt" and "PeerLookup rt k = Inr pl" and "c \<in> set (rt_get_all_contacts rt)"
  shows "\<exists>cs. find_closest pl (c_node_id c) = Inr (c # cs) \<and>
    find_closest_hex pl (bytes_hex (c_node_id c)) = Inr (c # cs)"
proof -
  let ?t = "c_node_id c"
  let ?all = "rt_get_all_contacts rt"
  let ?s = "sort_key (dist_to ?t) ?all"
  have pl: "pl_routing_table pl = rt" "pl_k pl = k" and k: "1 \<le> k"
    using assms(2) by (auto simp: PeerLookup_def split: if_splits)
  have t: "is_node_id ?t" and ids: "\<forall>c \<in> set ?all. is_node_id (c_node_id c)"
    using all_contacts_ok(1) [OF assms(1)] assms(3) by (auto simp: contact_ok_def)
  then have fc: "find_closest pl ?t = Inr (take (nat k) ?s)"
    using pl by (simp add: find_closest_def is_node_id_def sort_by_distance_ok)
  obtain h rest where s: "?s = h # rest"
    using assms(3) by (cases ?s) (metis empty_iff list.set(1) set_sort, simp)
  have "h \<in> set ?all"
    using s by (metis list.set_intros(1) set_sort)
  have "sorted (map (dist_to ?t) (h # rest))" and "c \<in> set (h # rest)"
    using assms(3) s by (metis sorted_sort_key, metis set_sort)
  then have "dist_to ?t h \<le> dist_to ?t c"
    by auto
  then have "dist_to ?t h = 0"
    using xm.dist_zero [OF t t] by simp
  then have "c_node_id h = ?t"
    using xm.dist_zero ids \<open>h \<in> set ?all\<close> t by blast
  then have "h = c"
    using distinct_all_contacts [OF assms(1)] assms(3) \<open>h \<in> set ?all\<close>
    by (auto simp: distinct_map dest: inj_onD)
  moreover obtain j where "nat k = Suc j"
    using k by (cases "nat k") auto
  ultimately show ?thesis
    using fc s t by (simp add: find_closest_hex_def)
qed

theorem find_closest_exact_witness:
  "\<exists>cs. find_closest \<lparr>pl_routing_table = ex_table, pl_k = 1\<rparr> (c_node_id ex_contact) = Inr (ex_contact # cs)"
proof -
  have "PeerLookup ex_table 1 = Inr \<lparr>pl_routing_table = ex_table, pl_k = 1\<rparr>"
    by (simp add: PeerLookup_def)
  moreover have "ex_contact \<in> set (rt_get_all_contacts ex_table)"
    by (simp add: rt_get_all_contacts_def ex_table_def)
  ultimately show ?thesis
    using find_closest_exact [OF ex_table_inv] by blast
qed

end
