(* ===== verification/Peer_Store.thy ===== *)
theory Peer_Store
  imports Routing_Table Py_Float
begin

text \<open>
  \<open>meshweaver/kademlia/peer_store.py\<close>: \<open>PeerRecord\<close> and \<open>PeerStore\<close>, the routing table together with
  a dictionary of records by node ID. The readings of \<open>time.time()\<close> an operation takes are its
  arguments, in the order of the calls. The invariant \<open>ps_inv\<close> says that the two structures hold
  the same contacts; the store provides the same interface as the table below it.
\<close>

record peer_record =
  pr_contact :: contact
  pr_first_seen :: pyfloat
  pr_last_seen :: pyfloat

definition pr_touch :: "peer_record \<Rightarrow> pyfloat \<Rightarrow> peer_record" where
  "pr_touch r now = r\<lparr>pr_last_seen := now\<rparr>"

record peer_store =
  ps_local :: bytes
  ps_table :: rtable
  ps_records :: "(bytes \<times> peer_record) list"

definition PeerStore :: "bytes \<Rightarrow> int \<Rightarrow> peer_store res" where
  "PeerStore local_node_id k =
     (if length local_node_id \<noteq> ID_BYTES then Inl ValueError
      else and_then (RoutingTable local_node_id k)
             (\<lambda>rt. Inr \<lparr>ps_local = local_node_id, ps_table = rt, ps_records = []\<rparr>))"

text \<open>
  \<open>t1\<close> is the clock reading of \<open>touch\<close>, or of the default \<open>first_seen\<close>; \<open>t2\<close> that of the default
  \<open>last_seen\<close>.
\<close>

definition add_or_update ::
    "peer_store \<Rightarrow> pyfloat \<Rightarrow> pyfloat \<Rightarrow> bytes \<Rightarrow> pyval \<Rightarrow> int \<Rightarrow> (bool \<times> peer_store) res" where
  "add_or_update s t1 t2 node_id host port =
     (if node_id = ps_local s then Inl ValueError
      else and_then (KademliaContact node_id host port) (\<lambda>c.
        case map_of (ps_records s) node_id of
          Some r \<Rightarrow>
            and_then (rt_add_contact (ps_table s) c) (\<lambda>(_, rt').
              Inr (True, s\<lparr>ps_table := rt',
                           ps_records := AList.update node_id (pr_touch (r\<lparr>pr_contact := c\<rparr>) t1)
                                           (ps_records s)\<rparr>))
        | None \<Rightarrow>
            and_then (rt_add_contact (ps_table s) c) (\<lambda>(accepted, rt').
              Inr (accepted,
                   if accepted then
                     s\<lparr>ps_table := rt',
                       ps_records := AList.update node_id
                         \<lparr>pr_contact = c, pr_first_seen = t1, pr_last_seen = t2\<rparr> (ps_records s)\<rparr>
                   else s\<lparr>ps_table := rt'\<rparr>))))"

definition ps_get :: "peer_store \<Rightarrow> bytes \<Rightarrow> peer_record option" where
  "ps_get s node_id = map_of (ps_records s) node_id"

definition ps_remove :: "peer_store \<Rightarrow> bytes \<Rightarrow> (bool \<times> peer_store) res" where
  "ps_remove s node_id =
     (if map_of (ps_records s) node_id = None then Inr (False, s)
      else and_then (rt_remove_contact (ps_table s) node_id) (\<lambda>(_, rt').
             Inr (True, s\<lparr>ps_table := rt', ps_records := AList.delete node_id (ps_records s)\<rparr>)))"

definition ps_contains :: "peer_store \<Rightarrow> bytes \<Rightarrow> bool" where
  "ps_contains s node_id \<longleftrightarrow> map_of (ps_records s) node_id \<noteq> None"

definition all_peers :: "peer_store \<Rightarrow> peer_record list" where
  "all_peers s = map snd (ps_records s)"

definition peer_count :: "peer_store \<Rightarrow> nat" where
  "peer_count s = length (ps_records s)"

definition ps_clear :: "peer_store \<Rightarrow> peer_store res" where
  "ps_clear s =
     and_then (RoutingTable (ps_local s) (rt_k (ps_table s)))
       (\<lambda>rt. Inr (s\<lparr>ps_records := [], ps_table := rt\<rparr>))"

section \<open>Invariant and abstract view\<close>

definition ps_lookup :: "peer_store \<Rightarrow> bytes \<Rightarrow> contact option" where
  "ps_lookup s n = map_option pr_contact (map_of (ps_records s) n)"

definition ps_inv :: "peer_store \<Rightarrow> bool" where
  "ps_inv s \<longleftrightarrow> rt_inv (ps_table s) \<and> rt_local (ps_table s) = ps_local s \<and>
     distinct (map fst (ps_records s)) \<and> ps_lookup s = rt_lookup (ps_table s)"

definition ps_admissible :: "peer_store \<Rightarrow> contact \<Rightarrow> bool" where
  "ps_admissible s c \<longleftrightarrow> contact_ok c \<and> c_node_id c \<noteq> ps_local s"

text \<open>The insertion as bootstrap and discovery call it: with the fields of a contact.\<close>

definition ps_store :: "pyfloat \<Rightarrow> pyfloat \<Rightarrow> peer_store \<Rightarrow> contact \<Rightarrow> (bool \<times> peer_store) res" where
  "ps_store t1 t2 s c = add_or_update s t1 t2 (c_node_id c) (c_host c) (c_port c)"

section \<open>The operations\<close>

lemma ps_invD:
  assumes "ps_inv s"
  shows "rt_inv (ps_table s)" and "rt_local (ps_table s) = ps_local s"
    and "distinct (map fst (ps_records s))" and "ps_lookup s = rt_lookup (ps_table s)"
  using assms by (simp_all add: ps_inv_def)

lemma ps_admissible_table: "ps_inv s \<Longrightarrow> ps_admissible s c \<longleftrightarrow> rt_admissible (ps_table s) c"
  by (simp add: ps_admissible_def rt_admissible_def ps_invD)

lemma ps_lookup_update:
  "ps_lookup (s\<lparr>ps_table := rt, ps_records := AList.update n r (ps_records s)\<rparr>)
   = (ps_lookup s)(n \<mapsto> pr_contact r)"
  by (auto simp: ps_lookup_def fun_eq_iff update_conv')

lemma PeerStore_init:
  assumes "PeerStore loc k = Inr s"
  shows "ps_inv s" and "ps_local s = loc" and "ps_records s = []" and "rt_k (ps_table s) = k"
  using assms RoutingTable_init
  by (auto simp: PeerStore_def ps_inv_def ps_lookup_def fun_eq_iff res_simps split: if_splits)

lemma ps_lookup_None_iff: "ps_lookup s n = None \<longleftrightarrow> map_of (ps_records s) n = None"
  by (simp add: ps_lookup_def)

text \<open>
  The three outcomes of an insertion of an admissible contact: a known peer is refreshed, a new one
  is stored, or a new one is refused because its bucket is full, with nothing changed.
\<close>

lemma ps_store_cases:
  assumes inv: "ps_inv s" and adm: "ps_admissible s c"
  obtains (refreshed) r rt' where "map_of (ps_records s) (c_node_id c) = Some r"
      and "rt_add_contact (ps_table s) c = Inr (True, rt')"
      and "ps_store t1 t2 s c = Inr (True, s\<lparr>ps_table := rt',
        ps_records := AList.update (c_node_id c) (r\<lparr>pr_contact := c, pr_last_seen := t1\<rparr>) (ps_records s)\<rparr>)"
      and "rt_inv rt'" "rt_lookup rt' = (rt_lookup (ps_table s))(c_node_id c \<mapsto> c)" "rt_local rt' = ps_local s"
    | (stored) rt' where "map_of (ps_records s) (c_node_id c) = None"
      and "rt_add_contact (ps_table s) c = Inr (True, rt')"
      and "ps_store t1 t2 s c = Inr (True, s\<lparr>ps_table := rt',
        ps_records := AList.update (c_node_id c)
          \<lparr>pr_contact = c, pr_first_seen = t1, pr_last_seen = t2\<rparr> (ps_records s)\<rparr>)"
      and "rt_inv rt'" "rt_lookup rt' = (rt_lookup (ps_table s))(c_node_id c \<mapsto> c)" "rt_local rt' = ps_local s"
    | (refused) "map_of (ps_records s) (c_node_id c) = None"
      and "rt_add_contact (ps_table s) c = Inr (False, ps_table s)"
      and "ps_store t1 t2 s c = Inr (False, s)"
proof -
  have rt: "rt_inv (ps_table s)" "rt_admissible (ps_table s) c"
    using inv adm by (simp_all add: ps_invD ps_admissible_table)
  have c: "c_node_id c \<noteq> ps_local s" "KademliaContact (c_node_id c) (c_host c) (c_port c) = Inr c"
    using adm by (simp_all add: ps_admissible_def KademliaContact_of_contact)
  have known: "map_of (ps_records s) (c_node_id c) = None \<longleftrightarrow> rt_lookup (ps_table s) (c_node_id c) = None"
    using ps_invD(4) [OF inv] ps_lookup_None_iff by metis
  show ?thesis
    using rt
  proof (cases rule: rt_add_contact_cases)
    case (accepted rt')
    show ?thesis
    proof (cases "map_of (ps_records s) (c_node_id c)")
      case None
      with accepted c show ?thesis
        by (intro stored [of rt']) (auto simp: ps_store_def add_or_update_def ps_invD(2) [OF inv])
    next
      case (Some r)
      with accepted c show ?thesis
        by (intro refreshed [of r rt']) (auto simp: ps_store_def add_or_update_def pr_touch_def ps_invD(2) [OF inv])
    qed
  next
    case refused
    with known c show ?thesis
      by (intro that(3)) (auto simp: ps_store_def add_or_update_def)
  qed
qed

lemma ps_inv_updateI:
  assumes "ps_inv s" and "rt_inv rt'" and "rt_lookup rt' = (rt_lookup (ps_table s))(c_node_id c \<mapsto> c)"
    and "rt_local rt' = ps_local s" and "pr_contact r = c"
  shows "ps_inv (s\<lparr>ps_table := rt', ps_records := AList.update (c_node_id c) r (ps_records s)\<rparr>)"
proof -
  have "ps_lookup (s\<lparr>ps_table := rt', ps_records := AList.update (c_node_id c) r (ps_records s)\<rparr>) = rt_lookup rt'"
    by (simp only: ps_lookup_update assms(3,5) ps_invD(4) [OF assms(1)])
  then show ?thesis
    using assms by (simp add: ps_inv_def distinct_update)
qed

lemma ps_store_raises:
  assumes "\<not> ps_admissible s c"
  shows "ps_store t1 t2 s c = Inl ValueError"
  using assms by (auto simp: ps_store_def add_or_update_def ps_admissible_def KademliaContact_of_contact)

text \<open>The store provides the interface it relies on of the table.\<close>

interpretation ps: contact_table ps_inv ps_admissible c_node_id ps_lookup
  "\<lambda>i. ps_store (fst (clock i)) (snd (clock i))" for clock
proof unfold_locales
  fix s c b s' d i
  assume inv: "ps_inv s"
  let ?t1 = "fst (clock i)" and ?t2 = "snd (clock i)"
  show "ps_admissible s c \<Longrightarrow> \<exists>b t'. ps_store ?t1 ?t2 s c = Inr (b, t')"
    by (erule ps_store_cases [OF inv, of c ?t1 ?t2]) auto
  show "\<not> ps_admissible s c \<Longrightarrow> ps_store ?t1 ?t2 s c = Inl ValueError"
    by (rule ps_store_raises)
  assume ok: "ps_store ?t1 ?t2 s c = Inr (b, s')"
  then have adm: "ps_admissible s c"
    using ps_store_raises by fastforce
  show "ps_inv s'"
    using ok inv by (cases rule: ps_store_cases [OF inv adm, of ?t1 ?t2]) (auto intro!: ps_inv_updateI)
  show "ps_admissible s' d \<longleftrightarrow> ps_admissible s d"
    using ok by (cases rule: ps_store_cases [OF inv adm, of ?t1 ?t2]) (auto simp: ps_admissible_def)
next
  fix s c s' i
  assume inv: "ps_inv s"
  let ?t1 = "fst (clock i)" and ?t2 = "snd (clock i)"
  have adm: "ps_admissible s c" if "ps_store ?t1 ?t2 s c = Inr (b, s')" for b
    using ps_store_raises that by fastforce
  show "ps_lookup s' = (ps_lookup s)(c_node_id c \<mapsto> c)" if "ps_store ?t1 ?t2 s c = Inr (True, s')"
    using that
    by (cases rule: ps_store_cases [OF inv adm [OF that], of ?t1 ?t2]) (auto simp: ps_lookup_update simp del: fun_upd_apply)
  show "s' = s \<and> ps_lookup s (c_node_id c) = None" if "ps_store ?t1 ?t2 s c = Inr (False, s')"
    using that by (cases rule: ps_store_cases [OF inv adm [OF that], of ?t1 ?t2]) (auto simp: ps_lookup_None_iff)
qed

lemma ps_remove_cases:
  assumes inv: "ps_inv s"
  obtains (absent) "map_of (ps_records s) n = None" and "ps_remove s n = Inr (False, s)"
    | (removed) rt' where "map_of (ps_records s) n \<noteq> None"
      and "ps_remove s n = Inr (True, s\<lparr>ps_table := rt', ps_records := AList.delete n (ps_records s)\<rparr>)"
      and "ps_inv (s\<lparr>ps_table := rt', ps_records := AList.delete n (ps_records s)\<rparr>)"
proof (cases "map_of (ps_records s) n")
  case None
  then show ?thesis by (intro absent) (simp_all add: ps_remove_def)
next
  case (Some r)
  then have "rt_lookup (ps_table s) n = Some (pr_contact r)"
    using ps_invD(4) [OF inv] by (metis option.simps(9) ps_lookup_def)
  then have n: "is_node_id n"
    using all_contacts_ok(1) [OF ps_invD(1) [OF inv]] rt_lookup_Some_iff [OF ps_invD(1) [OF inv]]
    by (metis contact_ok_def)
  obtain rt' where rt': "rt_remove_contact (ps_table s) n = Inr (rt_lookup (ps_table s) n \<noteq> None, rt')"
    "rt_inv rt'" "rt_lookup rt' = (rt_lookup (ps_table s))(n := None)" "rt_local rt' = rt_local (ps_table s)"
    by (rule rt_remove_contact_spec [OF ps_invD(1) [OF inv] n]) blast
  have "ps_lookup (s\<lparr>ps_table := rt', ps_records := AList.delete n (ps_records s)\<rparr>) = (ps_lookup s)(n := None)"
    by (auto simp: ps_lookup_def fun_eq_iff delete_conv')
  then have "ps_inv (s\<lparr>ps_table := rt', ps_records := AList.delete n (ps_records s)\<rparr>)"
    using rt' ps_invD [OF inv] by (simp add: ps_inv_def distinct_delete)
  with Some rt' show ?thesis
    by (intro removed [of rt']) (simp_all add: ps_remove_def)
qed

lemma ps_clear_ok:
  assumes "ps_inv s"
  obtains s' where "ps_clear s = Inr s'" and "ps_inv s'" and "ps_records s' = []"
    and "ps_local s' = ps_local s" and "rt_k (ps_table s') = rt_k (ps_table s)"
    and "rt_get_all_contacts (ps_table s') = []"
proof -
  have "is_node_id (ps_local s)"
    using rt_invD(1) ps_invD(1,2) [OF assms] by metis
  then obtain rt where rt: "RoutingTable (ps_local s) (rt_k (ps_table s)) = Inr rt"
    and empty: "rt_get_all_contacts rt = []"
    by (auto simp: RoutingTable_def is_node_id_def rt_get_all_contacts_def)
  show ?thesis
    using RoutingTable_init [OF rt]
    by (intro that [of "s\<lparr>ps_records := [], ps_table := rt\<rparr>"])
      (simp_all add: ps_clear_def rt empty ps_inv_def ps_lookup_def fun_eq_iff)
qed

text \<open>Index and table have the same size.\<close>

lemma peer_count_rt_len:
  assumes "ps_inv s"
  shows "peer_count s = rt_len (ps_table s)"
proof -
  let ?all = "rt_get_all_contacts (ps_table s)"
  have "map_of (ps_records s) n \<noteq> None \<longleftrightarrow> n \<in> set (map c_node_id ?all)" for n
  proof -
    have "map_of (ps_records s) n \<noteq> None \<longleftrightarrow> rt_lookup (ps_table s) n \<noteq> None"
      using ps_invD(4) [OF assms] ps_lookup_None_iff by metis
    then show ?thesis
      using rt_lookup_Some_iff [OF ps_invD(1) [OF assms]] by auto
  qed
  then have "set (map fst (ps_records s)) = set (map c_node_id ?all)"
    by (auto simp: map_of_eq_None_iff)
  then have "length (map fst (ps_records s)) = length (map c_node_id ?all)"
    using ps_invD(3) [OF assms] distinct_all_contacts [OF ps_invD(1) [OF assms]]
    by (metis distinct_card)
  then show ?thesis
    by (simp add: peer_count_def rt_len_contacts)
qed

section \<open>Properties\<close>

text \<open>The stores a node can build with the public operations.\<close>

inductive ps_reachable :: "bytes \<Rightarrow> int \<Rightarrow> peer_store \<Rightarrow> bool" for loc k where
  fresh: "PeerStore loc k = Inr s \<Longrightarrow> ps_reachable loc k s"
| add: "ps_reachable loc k s \<Longrightarrow> add_or_update s t1 t2 n h p = Inr (b, s') \<Longrightarrow> ps_reachable loc k s'"
| remove: "ps_reachable loc k s \<Longrightarrow> ps_remove s n = Inr (b, s') \<Longrightarrow> ps_reachable loc k s'"
| clear: "ps_reachable loc k s \<Longrightarrow> ps_clear s = Inr s' \<Longrightarrow> ps_reachable loc k s'"

lemma add_or_update_as_store:
  "add_or_update s t1 t2 n h p = ps_store t1 t2 s \<lparr>c_node_id = n, c_host = h, c_port = p\<rparr>"
  by (simp add: ps_store_def)

lemma ps_reachable_inv: "ps_reachable loc k s \<Longrightarrow> ps_inv s"
proof (induction rule: ps_reachable.induct)
  case (add s t1 t2 n h p b s')
  then show ?case
    using ps.add_inv [of s "\<lambda>_. (t1, t2)"] by (simp add: add_or_update_as_store)
next
  case (remove s n b s')
  from remove.IH show ?case
    by (cases rule: ps_remove_cases [of s n]) (use remove in auto)
next
  case (clear s s')
  then show ?case using ps_clear_ok [of s] by (metis Inr_inject)
qed (rule PeerStore_init)

text \<open>
  C2. In every store a node can reach by adding, removing and clearing, the record index and the
  routing table agree: looking up any 32-byte ID in the table gives the contact of its record (and
  nothing when there is no record), \<open>contains\<close> answers accordingly, and \<open>peer_count\<close> is the number
  of contacts in the table.
\<close>

theorem ps_reachable_consistent:
  assumes "ps_reachable loc k s" and "length n = ID_BYTES"
  shows "rt_get_contact (ps_table s) n = Inr (map_option pr_contact (ps_get s n)) \<and>
    (ps_contains s n \<longleftrightarrow> n \<in> c_node_id ` set (rt_get_all_contacts (ps_table s))) \<and>
    peer_count s = rt_len (ps_table s) \<and> peer_count s = length (all_peers s)"
proof -
  have inv: "ps_inv s"
    by (rule ps_reachable_inv [OF assms(1)])
  have look: "rt_lookup (ps_table s) n = map_option pr_contact (ps_get s n)"
    using ps_invD(4) [OF inv] by (metis ps_get_def ps_lookup_def)
  have "ps_contains s n \<longleftrightarrow> rt_lookup (ps_table s) n \<noteq> None"
    by (simp add: look ps_contains_def ps_get_def)
  also have "\<dots> \<longleftrightarrow> n \<in> c_node_id ` set (rt_get_all_contacts (ps_table s))"
    using rt_lookup_Some_iff [OF ps_invD(1) [OF inv]] by auto
  finally show ?thesis
    using rt_get_contact_lookup [OF ps_invD(1) [OF inv], of n] assms(2) peer_count_rt_len [OF inv]
    by (simp add: look is_node_id_def all_peers_def peer_count_def)
qed

text \<open>
  \<open>add_or_update\<close> on a well-formed store: the local ID, a wrong ID length or a port outside
  1..65535 raise \<open>ValueError\<close>; a known peer is always refreshed (result \<open>True\<close>) with the new host
  and port, the new \<open>last_seen\<close> and its old \<open>first_seen\<close>; a new peer is stored exactly when fewer
  than \<open>k\<close> known peers share its distance range, and a refusal leaves the store as it was; in every
  case the records of all other peers are unchanged and the invariant is kept.
\<close>

theorem add_or_update_spec:
  assumes "ps_inv s"
  shows "case add_or_update s t1 t2 n h p of
      Inl e \<Rightarrow> e = ValueError \<and> (n = ps_local s \<or> length n \<noteq> ID_BYTES \<or> p < 1 \<or> 65535 < p)
    | Inr (b, s') \<Rightarrow>
        ps_inv s' \<and> n \<noteq> ps_local s \<and> length n = ID_BYTES \<and> 1 \<le> p \<and> p \<le> 65535 \<and>
        (\<forall>m. m \<noteq> n \<longrightarrow> ps_get s' m = ps_get s m) \<and>
        (case ps_get s n of
           Some r \<Rightarrow> b \<and> ps_get s' n =
             Some \<lparr>pr_contact = \<lparr>c_node_id = n, c_host = h, c_port = p\<rparr>,
                   pr_first_seen = pr_first_seen r, pr_last_seen = t1\<rparr>
         | None \<Rightarrow>
             (b \<longleftrightarrow> int (card (spec_range (ps_local s) (rt_lookup (ps_table s)) (idx_of (ps_local s) n)))
                     < rt_k (ps_table s)) \<and>
             (if b then ps_get s' n =
                Some \<lparr>pr_contact = \<lparr>c_node_id = n, c_host = h, c_port = p\<rparr>,
                      pr_first_seen = t1, pr_last_seen = t2\<rparr>
              else s' = s))"
proof -
  let ?c = "\<lparr>c_node_id = n, c_host = h, c_port = p\<rparr>"
  have store: "add_or_update s t1 t2 n h p = ps_store t1 t2 s ?c"
    by (simp add: ps_store_def)
  show ?thesis
  proof (cases "ps_admissible s ?c")
    case False
    then show ?thesis
      by (auto simp: store ps_store_raises ps_admissible_def contact_ok_def is_node_id_def)
  next
    case True
    have ok: "n \<noteq> ps_local s" "length n = ID_BYTES" "1 \<le> p" "p \<le> 65535"
      using True by (auto simp: ps_admissible_def contact_ok_def is_node_id_def)
    have inv: "ps_store t1 t2 s ?c = Inr (b, s') \<Longrightarrow> ps_inv s'" for b s'
      using ps.add_inv [OF assms, of "\<lambda>_. (t1, t2)"] by simp
    have adm: "rt_admissible (ps_table s) ?c"
      using True assms by (simp add: ps_admissible_table)
    have new: "rt_lookup (ps_table s) n = None \<longleftrightarrow> map_of (ps_records s) n = None"
      using ps_invD(4) [OF assms] ps_lookup_None_iff by metis
    have refines: "(b, rt_lookup rt') = spec_add (ps_local s) (rt_k (ps_table s)) (rt_lookup (ps_table s)) ?c"
      if "rt_add_contact (ps_table s) ?c = Inr (b, rt')" for b rt'
      using that rt_add_spec [OF ps_invD(1) [OF assms] adm] by (simp add: ps_invD(2) [OF assms])
    show ?thesis
    proof (rule ps_store_cases [OF assms True, of t1 t2], goal_cases)
      case (1 r rt')
      then show ?thesis
        using ok inv [OF 1(3)] by (auto simp: store ps_get_def update_conv')
    next
      case (2 rt')
      then show ?thesis
        using ok inv [OF 2(3)] refines [OF 2(2)] new
        by (auto simp: store ps_get_def update_conv' spec_add_def domIff split: if_splits)
    next
      case 3
      then show ?thesis
        using ok assms refines [OF 3(2)] new
        by (auto simp: store ps_get_def spec_add_def domIff split: if_splits)
    qed
  qed
qed

text \<open>A store with one peer, built by the operations.\<close>

definition ex_record :: peer_record where
  "ex_record = \<lparr>pr_contact = ex_contact, pr_first_seen = FFin 10, pr_last_seen = FFin 11\<rparr>"

definition ex_store :: peer_store where
  "ex_store = \<lparr>ps_local = ex_local, ps_table = ex_table, ps_records = [(c_node_id ex_contact, ex_record)]\<rparr>"

lemma ex_ids_differ: "c_node_id ex_contact \<noteq> ex_local"
  by (simp add: ex_contact_def ex_local_def eval_nat_numeral)

definition ex_fresh_store :: peer_store where
  "ex_fresh_store = \<lparr>ps_local = ex_local, ps_table = \<lparr>rt_local = ex_local, rt_k = 20,
     rt_buckets = replicate 256 \<lparr>kb_k = 20, kb_contacts = []\<rparr>\<rparr>, ps_records = []\<rparr>"

lemma ex_fresh_store_reachable: "ps_reachable ex_local 20 ex_fresh_store"
  by (rule ps_reachable.fresh) (simp add: PeerStore_def RoutingTable_def ex_local_def ex_fresh_store_def)

lemma ex_store_reachable: "ps_reachable ex_local 20 ex_store"
proof (rule ps_reachable.add [OF ex_fresh_store_reachable])
  show "add_or_update ex_fresh_store (FFin 10) (FFin 11)
      (c_node_id ex_contact) (c_host ex_contact) (c_port ex_contact) = Inr (True, ex_store)"
    using ex_table_added ex_contact_ok ex_ids_differ
    by (simp add: add_or_update_def ex_store_def ex_record_def ex_fresh_store_def)
qed

lemmas ex_fresh_store_inv = ps_reachable_inv [OF ex_fresh_store_reachable]

lemma ex_store_inv: "ps_inv ex_store"
  by (rule ps_reachable_inv [OF ex_store_reachable])

theorem ps_reachable_consistent_witness:
  "rt_get_contact (ps_table ex_store) (c_node_id ex_contact) = Inr (Some ex_contact) \<and>
   peer_count ex_store = rt_len (ps_table ex_store) \<and> peer_count ex_store = 1"
  using ps_reachable_consistent [OF ex_store_reachable, of "c_node_id ex_contact"]
  by (simp add: ex_contact_def ex_store_def ps_get_def ex_record_def peer_count_def)

theorem add_or_update_spec_witness:
  "\<exists>s'. add_or_update ex_store (FFin 20) (FFin 21) (c_node_id ex_contact) (PStr (u ''10.0.0.2'')) 6000 = Inr (True, s') \<and>
     ps_inv s' \<and> ps_get s' (c_node_id ex_contact) =
       Some \<lparr>pr_contact = \<lparr>c_node_id = c_node_id ex_contact, c_host = PStr (u ''10.0.0.2''), c_port = 6000\<rparr>,
             pr_first_seen = FFin 10, pr_last_seen = FFin 20\<rparr>"
  using add_or_update_spec [OF ex_store_inv, where ?t1.0 = "FFin 20" and ?t2.0 = "FFin 21"
      and n = "c_node_id ex_contact" and h = "PStr (u ''10.0.0.2'')" and p = 6000]
    ex_ids_differ
  by (simp add: ex_store_def ps_get_def ex_record_def ex_contact_def split: sum.splits prod.splits)

text \<open>
  \<open>remove\<close> on a well-formed store never raises: it answers whether the ID was known, afterwards
  the ID is gone from the index and from the routing table, all other records are as before and
  the invariant is kept. \<open>clear\<close> never raises either: it leaves an empty well-formed store of the
  same local ID and bucket size.
\<close>

theorem ps_remove_clear_spec:
  assumes "ps_inv s"
  shows "(\<exists>s'. ps_remove s n = Inr (ps_contains s n, s') \<and> ps_inv s' \<and> \<not> ps_contains s' n \<and>
      n \<notin> c_node_id ` set (rt_get_all_contacts (ps_table s')) \<and> (\<forall>m. m \<noteq> n \<longrightarrow> ps_get s' m = ps_get s m)) \<and>
    (\<exists>s'. ps_clear s = Inr s' \<and> ps_inv s' \<and> peer_count s' = 0 \<and> rt_get_all_contacts (ps_table s') = [] \<and>
      ps_local s' = ps_local s \<and> rt_k (ps_table s') = rt_k (ps_table s))"
proof (rule conjI)
  have gone: "n \<notin> c_node_id ` set (rt_get_all_contacts (ps_table s'))" if "ps_inv s'" "\<not> ps_contains s' n" for s'
  proof -
    have "rt_lookup (ps_table s') n = None"
      using that(2) ps_lookup_None_iff [of s' n] by (simp add: ps_invD(4) [OF that(1)] ps_contains_def)
    then show ?thesis
      using rt_lookup_Some_iff [OF ps_invD(1) [OF that(1)], of n] by (metis imageE option.distinct(1))
  qed
  show "\<exists>s'. ps_remove s n = Inr (ps_contains s n, s') \<and> ps_inv s' \<and> \<not> ps_contains s' n \<and>
      n \<notin> c_node_id ` set (rt_get_all_contacts (ps_table s')) \<and> (\<forall>m. m \<noteq> n \<longrightarrow> ps_get s' m = ps_get s m)"
  proof (rule ps_remove_cases [OF assms, of n], goal_cases)
    case 1
    with gone [OF assms] assms show ?case by (auto simp: ps_contains_def)
  next
    case (2 rt')
    with gone [OF 2(3)] show ?case by (auto simp: ps_contains_def ps_get_def delete_conv')
  qed
  show "\<exists>s'. ps_clear s = Inr s' \<and> ps_inv s' \<and> peer_count s' = 0 \<and> rt_get_all_contacts (ps_table s') = [] \<and>
      ps_local s' = ps_local s \<and> rt_k (ps_table s') = rt_k (ps_table s)"
    by (rule ps_clear_ok [OF assms]) (auto simp: peer_count_def)
qed

theorem ps_remove_clear_spec_witness:
  "\<exists>s'. ps_remove ex_store (c_node_id ex_contact) = Inr (True, s') \<and> ps_inv s' \<and>
     \<not> ps_contains s' (c_node_id ex_contact)"
  using ps_remove_clear_spec [OF ex_store_inv, of "c_node_id ex_contact"]
  by (auto simp: ps_contains_def ex_store_def)

end
