(* ===== verification/Rpc.thy ===== *)
theory Rpc
  imports Protocol Peer_Lookup Peer_Store
begin

text \<open>
  \<open>meshweaver/kademlia/rpc.py\<close>: contacts on the wire, the PING/PONG exchange (\<open>PingValidator\<close>) and the
  FIND_NODE/FOUND_NODES exchange (\<open>FindNodeHandler\<close>), both sides. The transport \<open>send_recv\<close> is an
  argument: a function of the state of the outside world and the request to a reply or an exception
  and the next state of the world. A fresh \<open>uuid.uuid4()\<close> is an argument too.
\<close>

section \<open>Contacts on the wire\<close>

definition contact_to_dict :: "contact \<Rightarrow> pyval res" where
  "contact_to_dict c =
     and_then (node_id_to_hex (c_node_id c)) (\<lambda>h.
       Inr (PDict [(u ''node_id'', PStr h), (u ''host'', c_host c), (u ''port'', PInt (c_port c))]))"

definition contacts_to_dicts :: "contact list \<Rightarrow> pyval list res" where
  "contacts_to_dicts contacts = map_res contact_to_dict contacts"

text \<open>\<open>v[k]\<close> with a string key: only a dictionary has one.\<close>

definition subscript :: "pyval \<Rightarrow> pystr \<Rightarrow> pyval res" where
  "subscript v k = (case v of PDict d \<Rightarrow> dict_item d k | _ \<Rightarrow> Inl TypeError)"

text \<open>What a \<open>for\<close> loop iterates over: the items of a list, the keys of a dictionary, the characters of a string.\<close>

definition iter_items :: "pyval \<Rightarrow> pyval list res" where
  "iter_items v =
     (case v of
        PList vs \<Rightarrow> Inr vs
      | PDict d \<Rightarrow> Inr (map (\<lambda>kv. PStr (fst kv)) d)
      | PStr s \<Rightarrow> Inr (map (\<lambda>c. PStr [c]) s)
      | _ \<Rightarrow> Inl TypeError)"

definition node_id_from_value :: "pyval \<Rightarrow> bytes res" where
  "node_id_from_value v = (case v of PStr s \<Rightarrow> node_id_from_hex s | _ \<Rightarrow> Inl TypeError)"

definition dict_to_contact :: "pyval \<Rightarrow> contact res" where
  "dict_to_contact entry =
     and_then (and_then (subscript entry (u ''node_id'')) node_id_from_value) (\<lambda>node_id.
     and_then (subscript entry (u ''host'')) (\<lambda>host.
     and_then (and_then (subscript entry (u ''port'')) py_int) (\<lambda>port.
       KademliaContact node_id host port)))"

definition dicts_to_contacts :: "pyval \<Rightarrow> contact list res" where
  "dicts_to_contacts raw = and_then (iter_items raw) (map_res dict_to_contact)"

section \<open>PING and PONG\<close>

record ping_validator =
  pv_local_id_hex :: pystr

definition PingValidator :: "pystr \<Rightarrow> ping_validator res" where
  "PingValidator local_id_hex =
     (if local_id_hex = [] then Inl ValueError else Inr \<lparr>pv_local_id_hex = local_id_hex\<rparr>)"

definition build_ping_request :: "ping_validator \<Rightarrow> pystr \<Rightarrow> pystr option \<Rightarrow> bytes res" where
  "build_ping_request pv uuid token =
     and_then (build_ping (pv_local_id_hex pv) (PStr (case token of Some t \<Rightarrow> t | None \<Rightarrow> uuid))) encode_message"

definition pv_handle_ping :: "ping_validator \<Rightarrow> bytes \<Rightarrow> bytes res" where
  "pv_handle_ping pv encoded_request =
     and_then (decode_message encoded_request) (\<lambda>msg.
     and_then (validate_message (PDict msg) (Some MSG_PING)) (\<lambda>_.
       (let token = dict_get msg (u ''token'') in
        if \<not> truthy token then Inl ValueError
        else and_then (build_pong (pv_local_id_hex pv) token) encode_message)))"

text \<open>The handler catches \<open>ValueError\<close>, its subclasses and \<open>KeyError\<close>.\<close>

definition validate_pong :: "bytes \<Rightarrow> pystr \<Rightarrow> bool res" where
  "validate_pong encoded_pong expected_token =
     (case and_then (decode_message encoded_pong) (\<lambda>msg.
           and_then (validate_message (PDict msg) (Some MSG_PONG)) (\<lambda>_.
             Inr (dict_get msg (u ''token'') = PStr expected_token))) of
        Inl e \<Rightarrow> if is_ValueError e \<or> e = KeyError then Inr False else Inl e
      | Inr b \<Rightarrow> Inr b)"

type_synonym 'w transport = "'w \<Rightarrow> bytes \<Rightarrow> bytes res \<times> 'w"

definition pv_ping :: "ping_validator \<Rightarrow> pystr \<Rightarrow> 'w transport \<Rightarrow> pystr option \<Rightarrow> 'w \<Rightarrow> bool \<times> 'w" where
  "pv_ping pv uuid send_recv token w =
     (let tok = (case token of Some t \<Rightarrow> t | None \<Rightarrow> uuid) in
      case build_ping_request pv uuid (Some tok) of
        Inl _ \<Rightarrow> (False, w)
      | Inr request \<Rightarrow>
          (case send_recv w request of
             (Inl _, w') \<Rightarrow> (False, w')
           | (Inr reply, w') \<Rightarrow>
               (case validate_pong reply tok of Inl _ \<Rightarrow> (False, w') | Inr b \<Rightarrow> (b, w'))))"

section \<open>FIND_NODE and FOUND_NODES\<close>

record find_node_handler =
  fh_local_id_hex :: pystr
  fh_k :: int

definition FindNodeHandler :: "pystr \<Rightarrow> int \<Rightarrow> find_node_handler res" where
  "FindNodeHandler local_id_hex k =
     (if local_id_hex = [] then Inl ValueError
      else if k < 1 then Inl ValueError
      else Inr \<lparr>fh_local_id_hex = local_id_hex, fh_k = k\<rparr>)"

definition build_request :: "find_node_handler \<Rightarrow> pystr \<Rightarrow> bytes res" where
  "build_request fh target_id_hex =
     and_then (build_find_node (fh_local_id_hex fh) target_id_hex) encode_message"

definition parse_response :: "find_node_handler \<Rightarrow> bytes \<Rightarrow> pystr \<Rightarrow> contact list res" where
  "parse_response fh encoded_response target_id_hex =
     and_then (decode_message encoded_response) (\<lambda>msg.
     and_then (validate_message (PDict msg) (Some MSG_FOUND_NODES)) (\<lambda>_.
       if dict_get msg (u ''target_id'') \<noteq> PStr target_id_hex then Inl ValueError
       else and_then (dicts_to_contacts
                (case map_of msg (u ''contacts'') of Some v \<Rightarrow> v | None \<Rightarrow> PList [])) (\<lambda>contacts.
            and_then (node_id_from_hex target_id_hex) (\<lambda>target_id.
            and_then (sort_by_distance target_id contacts) (\<lambda>sorted_contacts.
              Inr (take (nat (fh_k fh)) sorted_contacts))))))"

definition handle_request :: "find_node_handler \<Rightarrow> bytes \<Rightarrow> peer_store \<Rightarrow> (pystr \<times> bytes) res" where
  "handle_request fh encoded_request store =
     and_then (decode_message encoded_request) (\<lambda>msg.
     and_then (validate_message (PDict msg) (Some MSG_FIND_NODE)) (\<lambda>_.
       (let target = dict_get msg (u ''target_id'') in
        if \<not> truthy target then Inl ValueError
        else and_then (node_id_from_value target) (\<lambda>target_id.
             and_then (sort_by_distance target_id (rt_get_all_contacts (ps_table store))) (\<lambda>all_contacts.
             and_then (contacts_to_dicts (take (nat (fh_k fh)) all_contacts)) (\<lambda>contact_dicts.
               (case target of
                  PStr target_id_hex \<Rightarrow>
                    and_then (and_then (build_found_nodes (fh_local_id_hex fh) target_id_hex (PList contact_dicts))
                                encode_message) (\<lambda>response. Inr (target_id_hex, response))
                | _ \<Rightarrow> Inl TypeError)))))))"

section \<open>A message through the wire\<close>

lemma decode_built:
  assumes "encode_message m = Inr bs" and "val_ok (PDict m)" and "validate_dict m None = Inr ()"
  shows "decode_message bs = Inr (sorted_dict m)"
  using assms decode_encoded [OF assms(2)] by (simp add: encode_message_ascii del: json_dumps.simps)

lemma validate_decoded:
  assumes "distinct (map fst m)" and "validate_dict m t = Inr ()"
  shows "validate_message (PDict (sorted_dict m)) t = Inr (sorted_dict m)"
  using assms by (simp add: validate_message_Inr validate_sorted_dict)

lemma subscript_sorted_dict:
  "distinct (map fst d) \<Longrightarrow> subscript (PDict (sorted_dict d)) k = and_then (dict_item d k) (\<lambda>v. Inr (jnorm v))"
  by (simp add: subscript_def dict_item_def map_of_sorted_dict split: option.split)

lemma truthy_jnorm [simp]: "truthy (jnorm v) = truthy v"
proof (cases v)
  case (PDict d)
  have "length (sort_key fst (map (map_prod id jnorm) d)) = length d" by simp
  then show ?thesis
    unfolding PDict jnorm.simps truthy.simps by (metis length_0_conv)
qed simp_all

text \<open>A contact and the text it travels as.\<close>

definition contact_dict :: "contact \<Rightarrow> pydict" where
  "contact_dict c = [(u ''node_id'', PStr (bytes_hex (c_node_id c))), (u ''host'', c_host c), (u ''port'', PInt (c_port c))]"

lemma contact_to_dict_ok: "contact_ok c \<Longrightarrow> contact_to_dict c = Inr (PDict (contact_dict c))"
  by (simp add: contact_to_dict_def node_id_to_hex_def contact_ok_def is_node_id_def contact_dict_def)

lemma dict_to_contact_wire:
  assumes "contact_ok c"
  shows "dict_to_contact (PDict (sorted_dict (contact_dict c))) = Inr (c\<lparr>c_host := jnorm (c_host c)\<rparr>)"
proof -
  have "distinct (map fst (contact_dict c))"
    by (simp add: contact_dict_def)
  moreover have "is_node_id (c_node_id c)"
    using assms by (simp add: contact_ok_def)
  ultimately show ?thesis
    using assms
    by (simp add: dict_to_contact_def subscript_sorted_dict dict_item_def contact_dict_def node_id_from_value_def
        py_int_def KademliaContact_def contact_ok_def is_node_id_def)
qed

lemma contacts_to_dicts_ok:
  "\<forall>c \<in> set cs. contact_ok c \<Longrightarrow> contacts_to_dicts cs = Inr (map (\<lambda>c. PDict (contact_dict c)) cs)"
  unfolding contacts_to_dicts_def by (rule map_res_InrI) (simp add: contact_to_dict_ok)

lemma dicts_to_contacts_wire:
  assumes "\<forall>c \<in> set cs. contact_ok c"
  shows "dicts_to_contacts (jnorm (PList (map (\<lambda>c. PDict (contact_dict c)) cs)))
         = Inr (map (\<lambda>c. c\<lparr>c_host := jnorm (c_host c)\<rparr>) cs)"
proof -
  have "map_res dict_to_contact (map (\<lambda>c. jnorm (PDict (contact_dict c))) cs)
      = Inr (map (\<lambda>c. c\<lparr>c_host := jnorm (c_host c)\<rparr>) cs)"
    using assms by (induction cs) (simp_all add: jnorm_sorted_dict dict_to_contact_wire del: jnorm.simps)
  then show ?thesis
    by (simp add: dicts_to_contacts_def iter_items_def comp_def del: jnorm.simps(7))
qed

lemma dict_to_contact_contact_ok: "dict_to_contact v = Inr c \<Longrightarrow> contact_ok c"
  by (auto simp: dict_to_contact_def res_simps KademliaContact_ok_iff)

lemma dicts_to_contacts_contact_ok: "dicts_to_contacts v = Inr cs \<Longrightarrow> c \<in> set cs \<Longrightarrow> contact_ok c"
  by (auto simp: dicts_to_contacts_def res_simps map_res_Inr_iff list_all2_conv_all_nth in_set_conv_nth
      intro: dict_to_contact_contact_ok)

lemma contact_ok_is_node_id: "contact_ok c \<Longrightarrow> is_node_id (c_node_id c)"
  by (simp add: contact_ok_def)

section \<open>Properties\<close>

lemma validate_pong_total:
  "validate_pong bs t = Inr (\<exists>msg. decode_message bs = Inr msg \<and> map_of msg (u ''type'') = Some (PStr MSG_PONG) \<and>
     map_of msg (u ''token'') = Some (PStr t))"
proof (cases "decode_message bs")
  case (Inl e)
  then have "is_ValueError e"
    using decode_message_raises by blast
  with Inl show ?thesis by (simp add: validate_pong_def)
next
  case (Inr msg)
  have "validate_dict msg None = Inr ()"
    using Inr by (rule decode_message_valid)
  then have "validate_dict msg (Some MSG_PONG) = Inr () \<longleftrightarrow> map_of msg (u ''type'') = Some (PStr MSG_PONG)"
    by (auto simp: validate_dict_Inr message_types)
  then show ?thesis
    using Inr by (auto simp: validate_pong_def get_PStr validate_message_PDict)
qed

text \<open>
  A PONG counts as valid exactly when the bytes decode to a message of type PONG whose token is the
  expected string; on every other reply, however malformed, \<open>validate_pong\<close> returns \<open>False\<close> and does not raise
  (nesting beyond the interpreter's recursion limit aside).
\<close>

theorem validate_pong_exact:
  "validate_pong bs t = Inr (\<exists>msg. decode_message bs = Inr msg \<and>
     map_of msg (u ''type'') = Some (PStr MSG_PONG) \<and> map_of msg (u ''token'') = Some (PStr t))"
  by (rule validate_pong_total)

lemma ping_reply:
  assumes "pv_local_id_hex pv \<noteq> []" and "str_ok (pv_local_id_hex pv)"
    and "pv_local_id_hex peer \<noteq> []" and "str_ok (pv_local_id_hex peer)" and "tok \<noteq> []" and "str_ok tok"
  obtains pingb pongb where "build_ping_request pv uuid (Some tok) = Inr pingb"
    and "pv_handle_ping peer pingb = Inr pongb" and "validate_pong pongb tok = Inr True"
proof -
  define ping where "ping = [(u ''type'', PStr MSG_PING), (u ''sender_id'', PStr (pv_local_id_hex pv)), (u ''token'', PStr tok)]"
  define pong where "pong = [(u ''type'', PStr MSG_PONG), (u ''sender_id'', PStr (pv_local_id_hex peer)), (u ''token'', PStr tok)]"
  obtain pingb pongb where enc: "encode_message ping = Inr pingb" "encode_message pong = Inr pongb"
    by (simp add: encode_message_ascii)
  have ok: "val_ok (PDict ping)" "val_ok (PDict pong)" and d: "distinct (map fst ping)" "distinct (map fst pong)"
    and v: "validate_dict ping None = Inr ()" "validate_dict pong None = Inr ()"
      "validate_dict ping (Some MSG_PING) = Inr ()"
    using assms by (simp_all add: ping_def pong_def validate_dict_Inr message_types)
  have dec: "decode_message pingb = Inr (sorted_dict ping)" "decode_message pongb = Inr (sorted_dict pong)"
    using enc ok v by (blast intro: decode_built)+
  have tok: "dict_get (sorted_dict ping) (u ''token'') = PStr tok"
    unfolding dict_get_sorted_dict [OF d(1)] by (simp add: ping_def dict_get_def)
  have "build_ping_request pv uuid (Some tok) = Inr pingb"
    using assms enc(1) by (simp add: build_ping_request_def build_ping_def ping_def)
  moreover have "pv_handle_ping peer pingb = Inr pongb"
    using dec(1) validate_decoded [OF d(1) v(3)] assms enc(2) tok
    by (simp add: pv_handle_ping_def build_pong_def pong_def Let_def)
  moreover have "validate_pong pongb tok = Inr True"
    using d(2) by (simp add: validate_pong_total dec(2) map_of_sorted_dict pong_def)
  ultimately show ?thesis by (rule that)
qed

text \<open>
  The PING exchange with an honest peer succeeds: whatever non-empty IDs the two sides use and whatever
  token is sent (given or a fresh UUID), the peer's \<open>handle_ping\<close> answers the encoded request with a PONG
  that \<open>ping\<close> accepts. A transport that raises makes \<open>ping\<close> return \<open>False\<close>.
\<close>

theorem ping_pong_exchange:
  assumes "pv_local_id_hex pv \<noteq> []" and "str_ok (pv_local_id_hex pv)"
    and "pv_local_id_hex peer \<noteq> []" and "str_ok (pv_local_id_hex peer)"
    and "tok = (case token of Some t \<Rightarrow> t | None \<Rightarrow> uuid)" and "tok \<noteq> []" and "str_ok tok"
  shows "pv_ping pv uuid (\<lambda>w request. (pv_handle_ping peer request, w)) token w = (True, w) \<and>
    fst (pv_ping pv uuid (\<lambda>w request. (Inl e, w)) token w) = False"
proof -
  obtain pingb pongb where "build_ping_request pv uuid (Some tok) = Inr pingb"
    "pv_handle_ping peer pingb = Inr pongb" "validate_pong pongb tok = Inr True"
    using ping_reply [OF assms(1-4,6,7), of uuid] by blast
  then show ?thesis
    by (simp add: pv_ping_def Let_def flip: assms(5))
qed

theorem ping_pong_exchange_witness:
  "pv_ping \<lparr>pv_local_id_hex = u ''aa''\<rparr> (u ''uuid'')
     (\<lambda>w request. (pv_handle_ping \<lparr>pv_local_id_hex = u ''bb''\<rparr> request, w)) None (7 :: nat) = (True, 7)"
  using ping_pong_exchange [where pv = "\<lparr>pv_local_id_hex = u ''aa''\<rparr>"
      and peer = "\<lparr>pv_local_id_hex = u ''bb''\<rparr>" and uuid = "u ''uuid''" and token = None
      and tok = "u ''uuid''" and w = "7 :: nat"]
  by simp

text \<open>The text of a node ID is a string JSON carries.\<close>

lemma str_ok_bytes_hex [simp]: "str_ok (bytes_hex bs)"
  by (rule str_ok_small) (use bytes_hex_ascii in fastforce)

lemma handle_request_reply:
  assumes inv: "ps_inv s" and k: "1 \<le> fh_k fh" and loc: "fh_local_id_hex fh \<noteq> []"
    and req: "decode_message bs = Inr m" "map_of m (u ''type'') = Some (PStr MSG_FIND_NODE)"
      "map_of m (u ''target_id'') = Some (PStr t)"
    and t: "node_id_from_hex t = Inr tid"
  defines "cs \<equiv> take (nat (fh_k fh)) (sort_key (dist_to tid) (rt_get_all_contacts (ps_table s)))"
  defines "reply \<equiv> [(u ''type'', PStr MSG_FOUND_NODES), (u ''sender_id'', PStr (fh_local_id_hex fh)),
      (u ''target_id'', PStr t), (u ''contacts'', PList (map (\<lambda>c. PDict (contact_dict c)) cs))]"
  shows "handle_request fh bs s = and_then (encode_message reply) (\<lambda>r. Inr (t, r))"
proof -
  let ?all = "rt_get_all_contacts (ps_table s)"
  have all_ok: "\<forall>c \<in> set ?all. contact_ok c"
    using all_contacts_ok(1) [OF ps_invD(1) [OF inv]] by blast
  have tid: "is_node_id tid"
    using t by (rule node_id_from_hex_ok)
  then have "t \<noteq> []"
    using t by (auto simp: node_id_from_hex_def split: if_splits)
  have sorted: "sort_by_distance tid ?all = Inr (sort_key (dist_to tid) ?all)"
    using tid all_ok by (intro sort_by_distance_ok) (auto intro: contact_ok_is_node_id)
  have "\<forall>c \<in> set cs. contact_ok c"
    using all_ok set_take_sort_key [of "nat (fh_k fh)" "dist_to tid" ?all] by (auto simp: cs_def)
  then have dicts: "contacts_to_dicts cs = Inr (map (\<lambda>c. PDict (contact_dict c)) cs)"
    by (rule contacts_to_dicts_ok)
  have "validate_dict m (Some MSG_FIND_NODE) = Inr ()"
    using decode_message_valid [OF req(1)] req(2) by (auto simp: validate_dict_Inr message_types)
  then show ?thesis
    using req t \<open>t \<noteq> []\<close> loc sorted dicts
    by (simp add: handle_request_def validate_message_PDict dict_get_def node_id_from_value_def Let_def
        build_found_nodes_def reply_def flip: cs_def)
qed

lemma parse_response_reply:
  assumes "\<forall>c \<in> set cs. contact_ok c \<and> val_ok (c_host c)" and t: "node_id_from_hex t = Inr tid" "str_ok t"
    and "loc \<noteq> []" "str_ok loc"
    and bs: "encode_message [(u ''type'', PStr MSG_FOUND_NODES), (u ''sender_id'', PStr loc),
      (u ''target_id'', PStr t), (u ''contacts'', PList (map (\<lambda>c. PDict (contact_dict c)) cs))] = Inr bs"
  shows "parse_response fh bs t = Inr (take (nat (fh_k fh)) (sort_key (dist_to tid)
      (map (\<lambda>c. c\<lparr>c_host := jnorm (c_host c)\<rparr>) cs)))"
proof -
  let ?m = "[(u ''type'', PStr MSG_FOUND_NODES), (u ''sender_id'', PStr loc),
      (u ''target_id'', PStr t), (u ''contacts'', PList (map (\<lambda>c. PDict (contact_dict c)) cs))]"
  let ?cs = "map (\<lambda>c. c\<lparr>c_host := jnorm (c_host c)\<rparr>) cs"
  have ok: "val_ok (PDict ?m)"
    using assms(1-5) by (auto simp: list_all_iff contact_dict_def message_types)
  have d: "distinct (map fst ?m)" by simp
  have v: "validate_dict ?m None = Inr ()" "validate_dict ?m (Some MSG_FOUND_NODES) = Inr ()"
    using assms(4) by (simp_all add: validate_dict_Inr message_types)
  have dec: "decode_message bs = Inr (sorted_dict ?m)"
    by (rule decode_built [OF bs ok v(1)])
  have "dict_get (sorted_dict ?m) (u ''target_id'') = PStr t"
    unfolding dict_get_sorted_dict [OF d] by (simp add: dict_get_def)
  moreover have "map_of (sorted_dict ?m) (u ''contacts'') = Some (jnorm (PList (map (\<lambda>c. PDict (contact_dict c)) cs)))"
    unfolding map_of_sorted_dict [OF d] by (simp del: jnorm.simps)
  moreover have "dicts_to_contacts (jnorm (PList (map (\<lambda>c. PDict (contact_dict c)) cs))) = Inr ?cs"
    using assms(1) by (intro dicts_to_contacts_wire) blast
  moreover have "sort_by_distance tid ?cs = Inr (sort_key (dist_to tid) ?cs)"
    using assms(1) node_id_from_hex_ok [OF t(1)]
    by (intro sort_by_distance_ok) (auto intro: contact_ok_is_node_id)
  ultimately show ?thesis
    using dec validate_decoded [OF d v(2)] t(1) by (simp add: parse_response_def del: jnorm.simps)
qed

lemma take_sort_take_sort:
  "take m (sort_key f (take n (sort_key f xs))) = take (min m n) (sort_key f xs)"
  by (simp add: sort_key_id_if_sorted)

lemma find_node_wire:
  assumes "ps_inv s" and "is_node_id tid"
    and hosts: "\<forall>c \<in> set (rt_get_all_contacts (ps_table s)). val_ok (c_host c) \<and> jnorm (c_host c) = c_host c"
    and "fh_local_id_hex a \<noteq> []" "str_ok (fh_local_id_hex a)" "1 \<le> fh_k a"
    and "fh_local_id_hex b \<noteq> []" "str_ok (fh_local_id_hex b)" "1 \<le> fh_k b"
  shows "\<exists>req rep m. build_request a (bytes_hex tid) = Inr req \<and>
    decode_message req = Inr m \<and> map_of m (u ''type'') = Some (PStr MSG_FIND_NODE) \<and>
    handle_request b req s = Inr (bytes_hex tid, rep) \<and>
    parse_response a rep (bytes_hex tid)
      = find_closest \<lparr>pl_routing_table = ps_table s, pl_k = min (fh_k a) (fh_k b)\<rparr> tid"
proof -
  let ?t = "bytes_hex tid" and ?all = "rt_get_all_contacts (ps_table s)"
  let ?cs = "take (nat (fh_k b)) (sort_key (dist_to tid) ?all)"
  define m where "m = [(u ''type'', PStr MSG_FIND_NODE), (u ''sender_id'', PStr (fh_local_id_hex a)), (u ''target_id'', PStr ?t)]"
  obtain req where req: "encode_message m = Inr req" by (simp add: encode_message_ascii)
  have t: "node_id_from_hex ?t = Inr tid" "?t \<noteq> []"
    using assms(2) by (auto simp: is_node_id_def simp flip: length_0_conv)
  have dec: "decode_message req = Inr (sorted_dict m)"
    using assms by (intro decode_built [OF req]) (simp_all add: m_def validate_dict_Inr message_types)
  have m: "map_of (sorted_dict m) k = map_option jnorm (map_of m k)" for k
    by (rule map_of_sorted_dict) (simp add: m_def)
  obtain rep where rep: "encode_message [(u ''type'', PStr MSG_FOUND_NODES), (u ''sender_id'', PStr (fh_local_id_hex b)),
      (u ''target_id'', PStr ?t), (u ''contacts'', PList (map (\<lambda>c. PDict (contact_dict c)) ?cs))] = Inr rep"
    by (simp add: encode_message_ascii)
  then have "handle_request b req s = Inr (?t, rep)"
    using handle_request_reply [OF assms(1,9,7) dec _ _ t(1)] m by (simp add: m_def)
  moreover have cs: "\<forall>c \<in> set ?cs. contact_ok c \<and> val_ok (c_host c) \<and> jnorm (c_host c) = c_host c"
    using hosts all_contacts_ok(1) [OF ps_invD(1) [OF assms(1)]]
      set_take_sort_key [of "nat (fh_k b)" "dist_to tid" ?all] by blast
  then have "map (\<lambda>c. c\<lparr>c_host := jnorm (c_host c)\<rparr>) ?cs = ?cs"
    by (intro map_idI) auto
  then have "parse_response a rep ?t = Inr (take (nat (fh_k a)) (sort_key (dist_to tid) ?cs))"
    using parse_response_reply [OF _ t(1) _ assms(7,8) rep, of a] cs by simp
  moreover have "find_closest \<lparr>pl_routing_table = ps_table s, pl_k = min (fh_k a) (fh_k b)\<rparr> tid
      = Inr (take (nat (min (fh_k a) (fh_k b))) (sort_key (dist_to tid) ?all))"
    using find_closest_total [OF _ assms(2)] ps_invD(1) [OF assms(1)] by simp
  moreover have "build_request a ?t = Inr req"
    using req t(2) assms(4) by (simp add: build_request_def build_find_node_def m_def)
  moreover have "map_of (sorted_dict m) (u ''type'') = Some (PStr MSG_FIND_NODE)"
    unfolding m by (simp add: m_def)
  ultimately show ?thesis
    using dec by (auto simp: take_sort_take_sort min_def)
qed

text \<open>
  The FIND_NODE exchange end to end: the request one node builds, answered by another from its peer
  store and parsed by the first, delivers exactly the contacts a local \<open>find_closest\<close> on the answering
  node's table gives, for the smaller of the two \<open>k\<close>: encoding, decoding and both sorting steps lose and
  change nothing.
\<close>

theorem find_node_exchange:
  assumes "ps_inv s" and "is_node_id tid"
    and hosts: "\<forall>c \<in> set (rt_get_all_contacts (ps_table s)). val_ok (c_host c) \<and> jnorm (c_host c) = c_host c"
    and "fh_local_id_hex a \<noteq> []" "str_ok (fh_local_id_hex a)" "1 \<le> fh_k a"
    and "fh_local_id_hex b \<noteq> []" "str_ok (fh_local_id_hex b)" "1 \<le> fh_k b"
  shows "\<exists>req rep. build_request a (bytes_hex tid) = Inr req \<and>
    handle_request b req s = Inr (bytes_hex tid, rep) \<and>
    parse_response a rep (bytes_hex tid)
      = find_closest \<lparr>pl_routing_table = ps_table s, pl_k = min (fh_k a) (fh_k b)\<rparr> tid"
  using find_node_wire [OF assms] by blast

theorem find_node_exchange_witness:
  "\<exists>req rep. build_request \<lparr>fh_local_id_hex = u ''aa'', fh_k = 20\<rparr> (bytes_hex (replicate 32 7)) = Inr req \<and>
     handle_request \<lparr>fh_local_id_hex = u ''bb'', fh_k = 8\<rparr> req ex_store = Inr (bytes_hex (replicate 32 7), rep) \<and>
     parse_response \<lparr>fh_local_id_hex = u ''aa'', fh_k = 20\<rparr> rep (bytes_hex (replicate 32 7))
       = find_closest \<lparr>pl_routing_table = ex_table, pl_k = 8\<rparr> (replicate 32 7)"
  using find_node_exchange [OF ex_store_inv, of "replicate 32 7" "\<lparr>fh_local_id_hex = u ''aa'', fh_k = 20\<rparr>"
      "\<lparr>fh_local_id_hex = u ''bb'', fh_k = 8\<rparr>"]
  by (simp add: is_node_id_def ex_store_def ex_table_def rt_get_all_contacts_def ex_contact_def)

lemma subscript_raises: "subscript v k = Inl e \<Longrightarrow> e \<in> {KeyError, TypeError}"
  by (cases v) (auto simp: subscript_def dict_item_def split: option.splits)

lemma node_id_from_value_raises: "node_id_from_value v = Inl e \<Longrightarrow> e \<in> {ValueError, TypeError}"
  by (cases v) (auto simp: node_id_from_value_def dest: node_id_from_hex_raises)

lemma dict_to_contact_raises:
  "dict_to_contact v = Inl e \<Longrightarrow> e \<in> {ValueError, KeyError, TypeError, OverflowError}"
  by (auto simp: dict_to_contact_def res_simps KademliaContact_raises
      dest!: node_id_from_value_raises py_int_raises subscript_raises)

lemma dicts_to_contacts_raises:
  "dicts_to_contacts v = Inl e \<Longrightarrow> e \<in> {ValueError, KeyError, TypeError, OverflowError}"
  by (cases v) (auto simp: dicts_to_contacts_def iter_items_def res_simps dest!: map_res_raises dict_to_contact_raises)

text \<open>
  \<open>parse_response\<close> on arbitrary bytes: it raises \<open>ValueError\<close> (or a subclass), \<open>KeyError\<close>, \<open>TypeError\<close> or
  \<open>OverflowError\<close> and nothing else, or it returns at most \<open>k\<close> well-formed contacts (32-byte ID, port in
  1..65535) in ascending XOR distance to the target.
\<close>

theorem parse_response_sound:
  "case parse_response fh bs t of
     Inl e \<Rightarrow> is_ValueError e \<or> e \<in> {KeyError, TypeError, OverflowError}
   | Inr cs \<Rightarrow> length cs \<le> nat (fh_k fh) \<and> set cs \<subseteq> Collect contact_ok \<and>
       (\<exists>tid. node_id_from_hex t = Inr tid \<and> sorted (map (dist_to tid) cs))"
proof (cases "parse_response fh bs t")
  case (Inl e)
  have "sort_by_distance tid cs \<noteq> Inl e'" if "dicts_to_contacts v = Inr cs" "node_id_from_hex t = Inr tid" for v cs tid e'
    using that sort_by_distance_ok [of tid cs] node_id_from_hex_ok dicts_to_contacts_contact_ok contact_ok_is_node_id
    by (metis Inl_Inr_False)
  with Inl have "is_ValueError e \<or> (\<exists>v. dicts_to_contacts v = Inl e)"
    by (auto simp: parse_response_def res_simps validate_message_PDict
        dest: decode_message_raises node_id_from_hex_raises split: if_splits)
  with Inl show ?thesis
    using dicts_to_contacts_raises by fastforce
next
  case (Inr cs)
  then obtain v ds tid where ds: "dicts_to_contacts v = Inr ds" "node_id_from_hex t = Inr tid"
    and cs: "and_then (sort_by_distance tid ds) (\<lambda>ss. Inr (take (nat (fh_k fh)) ss)) = Inr cs"
    by (auto simp: parse_response_def res_simps split: if_splits)
  have ok: "\<forall>c \<in> set ds. contact_ok c"
    using dicts_to_contacts_contact_ok [OF ds(1)] by blast
  then have "cs = take (nat (fh_k fh)) (sort_key (dist_to tid) ds)"
    using cs sort_by_distance_ok [of tid ds] node_id_from_hex_ok [OF ds(2)] contact_ok_is_node_id by auto
  moreover have "set cs \<subseteq> Collect contact_ok"
    using calculation ok set_take_sort_key [of "nat (fh_k fh)" "dist_to tid" ds] by auto
  ultimately show ?thesis
    using Inr ds(2) by auto
qed

end
