(* ===== verification/Peer_Growth.thy ===== *)
theory Peer_Growth
  imports Peer_Store "HOL-Library.Sublist"
begin

text \<open>
  How a peer store grows while the join (\<open>kademlia/bootstrap.py\<close>) and discovery (\<open>kademlia/discovery.py\<close>)
  procedures store contacts in it. They never remove a contact, so one that was refused because its
  distance range was full is still without a place at the end, and every admissible contact that was
  offered to a storing loop is either stored or belongs to a full range.
\<close>

lemma ps_contains_dom: "ps_contains s n \<longleftrightarrow> n \<in> dom (ps_lookup s)"
  by (auto simp: ps_contains_def ps_lookup_def)

lemma ps_local_store:
  assumes "ps_inv s" and "ps_store t1 t2 s c = Inr (b, s')"
  shows "ps_local s' = ps_local s"
proof -
  have "ps_admissible s c"
    using assms ps_store_raises by fastforce
  then show ?thesis
    using assms(2) by (cases rule: ps_store_cases [OF assms(1), of c t1 t2]) auto
qed

definition range_full :: "peer_store \<Rightarrow> bytes \<Rightarrow> bool" where
  "range_full s n \<longleftrightarrow> rt_k (ps_table s) \<le> int (card (spec_range (ps_local s) (ps_lookup s) (idx_of (ps_local s) n)))"

definition settled :: "peer_store \<Rightarrow> contact \<Rightarrow> bool" where
  "settled s c \<longleftrightarrow> c_node_id c \<in> dom (ps_lookup s) \<or> range_full s (c_node_id c) \<or> \<not> ps_admissible s c"

definition grows :: "peer_store \<Rightarrow> peer_store \<Rightarrow> bool" where
  "grows s s' \<longleftrightarrow> ps_inv s' \<and> ps_local s' = ps_local s \<and> rt_k (ps_table s') = rt_k (ps_table s) \<and> dom (ps_lookup s) \<subseteq> dom (ps_lookup s')"

lemma grows_refl: "ps_inv s \<Longrightarrow> grows s s"
  by (simp add: grows_def)

lemma grows_trans: "grows s s' \<Longrightarrow> grows s' s'' \<Longrightarrow> grows s s''"
  by (auto simp: grows_def)

lemma range_full_grows:
  assumes "grows s s'" and "range_full s n"
  shows "range_full s' n"
proof -
  let ?range = "\<lambda>s. spec_range (ps_local s) (ps_lookup s) (idx_of (ps_local s) n)"
  have "finite (dom (ps_lookup s'))"
    using finite_dom_map_of [of "ps_records s'"] by (rule finite_subset [rotated]) (auto simp: ps_lookup_def)
  then have "finite (?range s')"
    by (rule finite_subset [rotated]) (auto simp: spec_range_def)
  moreover have "?range s \<subseteq> ?range s'"
    using assms(1) by (auto simp: grows_def spec_range_def)
  ultimately have "card (?range s) \<le> card (?range s')"
    by (rule card_mono)
  with assms show ?thesis
    by (auto simp: grows_def range_full_def)
qed

lemma settled_grows: "grows s s' \<Longrightarrow> settled s c \<Longrightarrow> settled s' c"
  using range_full_grows by (auto simp: settled_def grows_def ps_admissible_def)

lemma rt_add_contact_k: "rt_add_contact rt c = Inr (b, rt') \<Longrightarrow> rt_k rt' = rt_k rt"
  by (auto simp: rt_add_contact_def res_simps split_beta split: if_splits)

lemma ps_store_settles:
  assumes "ps_inv s" and "ps_store t1 t2 s c = Inr (b, s')"
  shows "grows s s' \<and> settled s' c"
proof -
  have adm: "ps_admissible s c"
    using assms ps_store_raises by fastforce
  show ?thesis
  proof (cases b)
    case True
    then have "ps_lookup s' = (ps_lookup s)(c_node_id c \<mapsto> c)" "ps_inv s'"
      using ps.add_accepted [OF assms(1), of "\<lambda>_. (t1, t2)"] ps.add_inv [OF assms(1), of "\<lambda>_. (t1, t2)"] assms(2) by auto
    moreover have "rt_k (ps_table s') = rt_k (ps_table s)"
      using assms(2) by (cases rule: ps_store_cases [OF assms(1) adm, of t1 t2]) (auto dest: rt_add_contact_k)
    moreover have "ps_local s' = ps_local s"
      by (rule ps_local_store [OF assms])
    ultimately show ?thesis
      by (auto simp: grows_def settled_def)
  next
    case False
    then have s': "s' = s" "ps_lookup s (c_node_id c) = None"
      using ps.add_refused [OF assms(1), of "\<lambda>_. (t1, t2)"] assms(2) by auto
    have "rt_add_contact (ps_table s) c = Inr (False, ps_table s)"
      using assms(2) False by (cases rule: ps_store_cases [OF assms(1) adm, of t1 t2]) auto
    moreover have "rt_admissible (ps_table s) c"
      using adm by (simp add: ps_admissible_table [OF assms(1)])
    ultimately have "fst (spec_add (ps_local s) (rt_k (ps_table s)) (ps_lookup s) c) = False"
      using rt_add_spec [OF ps_invD(1) [OF assms(1)], of c] ps_invD(2,4) [OF assms(1)] by (metis Pair_inject fst_conv sum.inject(2))
    then have "range_full s (c_node_id c)"
      by (auto simp: spec_add_def range_full_def split: if_splits)
    then show ?thesis
      using s' by (simp add: settled_def grows_refl assms(1))
  qed
qed

section \<open>The storing loop\<close>

text \<open>
  What a storing loop makes of the contacts \<open>offered\<close> to it: it reports some of them, in their order, all
  admissible; the index afterwards is the one before overridden with the reported contacts; and an
  admissible contact goes unreported only when its distance range is full.
\<close>

definition stores_offered :: "peer_store \<Rightarrow> contact list \<Rightarrow> contact list \<Rightarrow> peer_store \<Rightarrow> bool" where
  "stores_offered s offered stored s' \<longleftrightarrow>
     grows s s' \<and> subseq stored offered \<and> (\<forall>c \<in> set stored. ps_admissible s c) \<and>
     ps_lookup s' = ps_lookup s ++ map_of (map (\<lambda>c. (c_node_id c, c)) (rev stored)) \<and>
     (\<forall>c \<in> set offered. ps_admissible s c \<longrightarrow> c \<in> set stored \<or> range_full s' (c_node_id c))"

lemma store_all_subseq: "store_all add i t vs = Inr (stored, t') \<Longrightarrow> subseq stored vs"
  by (induction vs arbitrary: i t stored) (fastforce simp: res_simps intro: list_emb_Cons subseq_Cons2 split: sum.splits if_splits)+

lemma store_all_offered:
  assumes "ps_inv s" and "store_all (\<lambda>i. ps_store (fst (clock i)) (snd (clock i))) i s vs = Inr (stored, s')"
  shows "grows s s' \<and> (\<forall>c \<in> set vs. ps_admissible s c \<longrightarrow> c \<in> set stored \<or> range_full s' (c_node_id c))"
  using assms
proof (induction vs arbitrary: i s stored)
  case Nil
  then show ?case by (simp add: grows_refl)
next
  case (Cons c cs)
  let ?add = "\<lambda>i. ps_store (fst (clock i)) (snd (clock i))"
  show ?case
  proof (cases rule: ps.add_total [OF Cons.prems(1), of c clock i])
    case 1
    then have "store_all ?add (Suc i) s cs = Inr (stored, s')"
      using Cons.prems(2) by simp
    with Cons.IH [OF Cons.prems(1)] 1 show ?thesis by auto
  next
    case (2 s1)
    then obtain rest where rest: "store_all ?add (Suc i) s1 cs = Inr (rest, s')" "stored = c # rest"
      using Cons.prems(2) by (auto simp: res_simps)
    have g: "grows s s1"
      using ps_store_settles [OF Cons.prems(1) 2(2)] by simp
    then have "grows s1 s' \<and> (\<forall>d \<in> set cs. ps_admissible s1 d \<longrightarrow> d \<in> set rest \<or> range_full s' (c_node_id d))"
      using Cons.IH [OF _ rest(1)] by (simp add: grows_def)
    moreover have "ps_admissible s1 = ps_admissible s"
      using g by (auto simp: grows_def ps_admissible_def fun_eq_iff)
    ultimately show ?thesis
      using g grows_trans rest(2) by auto
  next
    case 3
    then have rest: "store_all ?add (Suc i) s cs = Inr (stored, s')"
      using Cons.prems(2) by (auto simp: res_simps)
    note IH = Cons.IH [OF Cons.prems(1) rest]
    have "range_full s (c_node_id c)"
      using ps_store_settles [OF Cons.prems(1) 3(2)] 3(1,3) by (auto simp: settled_def)
    with IH range_full_grows show ?thesis by auto
  qed
qed

lemma store_all_stores:
  assumes "ps_inv s" and "store_all (\<lambda>i. ps_store (fst (clock i)) (snd (clock i))) i s vs = Inr (stored, s')"
  shows "stores_offered s vs stored s'"
  using ps.store_all_spec [OF assms] store_all_offered [OF assms] store_all_subseq [OF assms(2)]
  by (auto simp: stores_offered_def)

lemma stores_offered_append:
  assumes "stores_offered s xs as s1" and "stores_offered s1 ys bs s2"
  shows "stores_offered s (xs @ ys) (as @ bs) s2"
proof -
  have g: "grows s s1" "grows s1 s2"
    using assms by (simp_all add: stores_offered_def)
  then have "ps_admissible s1 = ps_admissible s"
    by (auto simp: grows_def ps_admissible_def fun_eq_iff)
  then show ?thesis
    using assms range_full_grows [OF g(2)] grows_trans [OF g] by (auto simp: stores_offered_def list_emb_append_mono)
qed

end
