(* ===== verification/Bootstrap.thy ===== *)
theory Bootstrap
  imports Rpc Peer_Growth
begin

text \<open>
  \<open>meshweaver/kademlia/bootstrap.py\<close>: the join sequence of a new node, that is PING, FIND_NODE for the
  own ID, then storing the bootstrap peer and the contacts it returned. The properties rest on the
  storing loop of the contact-table interface, which the peer store provides, and on what that loop makes
  of the contacts offered to it (\<open>stores_offered\<close> of \<open>Peer_Growth\<close>).
\<close>

record bootstrap_client =
  bc_local_id_hex :: pystr
  bc_peer_store :: peer_store
  bc_ping_validator :: ping_validator
  bc_find_node_handler :: find_node_handler

definition BootstrapClient ::
    "pystr \<Rightarrow> peer_store \<Rightarrow> ping_validator \<Rightarrow> find_node_handler \<Rightarrow> bootstrap_client res" where
  "BootstrapClient local_id_hex store validator handler =
     (if local_id_hex = [] then Inl ValueError
      else Inr \<lparr>bc_local_id_hex = local_id_hex, bc_peer_store = store, bc_ping_validator = validator,
                bc_find_node_handler = handler\<rparr>)"

text \<open>One FIND_NODE query: build the request, send it, parse the reply.\<close>

definition query_find_node ::
    "find_node_handler \<Rightarrow> pystr \<Rightarrow> 'w transport \<Rightarrow> 'w \<Rightarrow> contact list res \<times> 'w" where
  "query_find_node fh target_id_hex send_recv w =
     (case build_request fh target_id_hex of
        Inl e \<Rightarrow> (Inl e, w)
      | Inr request_bytes \<Rightarrow>
          (case send_recv w request_bytes of
             (Inl e, w') \<Rightarrow> (Inl e, w')
           | (Inr response_bytes, w') \<Rightarrow> (parse_response fh response_bytes target_id_hex, w')))"

text \<open>
  Step 3: the bootstrap peer itself. \<open>get_contact\<close> finds the contact just accepted (the lemma
  \<open>store_bootstrap_peer_as_loop\<close>), so the case of none found does not arise.
\<close>

definition store_bootstrap_peer ::
    "pyfloat \<times> pyfloat \<Rightarrow> peer_store \<Rightarrow> bytes option \<Rightarrow> pyval \<Rightarrow> int \<Rightarrow> (contact list \<times> peer_store) res" where
  "store_bootstrap_peer tm s bootstrap_node_id host port =
     (case bootstrap_node_id of
        None \<Rightarrow> Inr ([], s)
      | Some n \<Rightarrow>
          (case add_or_update s (fst tm) (snd tm) n host port of
             Inl e \<Rightarrow> if is_ValueError e then Inr ([], s) else Inl e
           | Inr (accepted, s') \<Rightarrow>
               if accepted then
                 (case rt_get_contact (ps_table s') n of
                    Inl e \<Rightarrow> if is_ValueError e then Inr ([], s') else Inl e
                  | Inr c \<Rightarrow> Inr (case c of Some c \<Rightarrow> [c] | None \<Rightarrow> [], s'))
               else Inr ([], s')))"

definition join ::
    "bootstrap_client \<Rightarrow> (nat \<Rightarrow> pyfloat \<times> pyfloat) \<Rightarrow> pystr \<Rightarrow> pyval \<Rightarrow> int \<Rightarrow> 'w transport \<Rightarrow> bytes option \<Rightarrow> 'w
      \<Rightarrow> (contact list \<times> bootstrap_client) res \<times> 'w" where
  "join bc clock uuid bootstrap_host bootstrap_port send_recv bootstrap_node_id w =
     (case pv_ping (bc_ping_validator bc) uuid send_recv None w of
        (peer_alive, w1) \<Rightarrow>
          if \<not> peer_alive then (Inl BootstrapError, w1)
          else
            (case query_find_node (bc_find_node_handler bc) (bc_local_id_hex bc) send_recv w1 of
               (Inl _, w2) \<Rightarrow> (Inl BootstrapError, w2)
             | (Inr contacts, w2) \<Rightarrow>
                 (and_then (store_bootstrap_peer (clock 0) (bc_peer_store bc) bootstrap_node_id
                              bootstrap_host bootstrap_port) (\<lambda>(first, s1).
                  and_then (store_all (\<lambda>i. ps_store (fst (clock i)) (snd (clock i))) 1 s1 contacts) (\<lambda>(stored, s2).
                    Inr (first @ stored, bc\<lparr>bc_peer_store := s2\<rparr>))), w2)))"

section \<open>Storing the bootstrap peer\<close>

lemma store_bootstrap_peer_as_loop:
  assumes "ps_inv s"
  shows "store_bootstrap_peer tm s nid h p =
    store_all (\<lambda>i. ps_store (fst tm) (snd tm)) 0 s
      (case nid of None \<Rightarrow> [] | Some n \<Rightarrow> [\<lparr>c_node_id = n, c_host = h, c_port = p\<rparr>])"
proof (cases nid)
  case None
  then show ?thesis by (simp add: store_bootstrap_peer_def)
next
  case (Some n)
  let ?c = "\<lparr>c_node_id = n, c_host = h, c_port = p\<rparr>"
  have store: "add_or_update s (fst tm) (snd tm) n h p = ps_store (fst tm) (snd tm) s ?c"
    by (simp add: ps_store_def)
  show ?thesis
  proof (cases rule: ps.add_total [OF assms, of ?c "\<lambda>_. tm" 0])
    case 1
    then show ?thesis by (simp add: Some store_bootstrap_peer_def store)
  next
    case (2 s')
    have inv: "ps_inv s'"
      using ps.add_inv [OF assms, of "\<lambda>_. tm"] 2(2) by simp
    have "is_node_id n"
      using 2(1) by (simp add: ps_admissible_def contact_ok_def)
    then have "rt_get_contact (ps_table s') n = Inr (Some ?c)"
      using rt_get_contact_lookup [OF ps_invD(1) [OF inv], of n] 2(3) by (simp add: ps_invD(4) [OF inv, symmetric])
    with 2 show ?thesis by (simp add: Some store_bootstrap_peer_def store)
  next
    case 3
    then show ?thesis by (simp add: Some store_bootstrap_peer_def store)
  qed
qed

section \<open>Properties\<close>

text \<open>What \<open>join\<close> offers to the store: the bootstrap peer when its ID is known, then the contacts of the reply.\<close>

definition join_offers :: "bytes option \<Rightarrow> pyval \<Rightarrow> int \<Rightarrow> contact list \<Rightarrow> contact list" where
  "join_offers nid host port contacts =
     (case nid of None \<Rightarrow> [] | Some n \<Rightarrow> [\<lparr>c_node_id = n, c_host = host, c_port = port\<rparr>]) @ contacts"

text \<open>The storing part of \<open>join\<close>: both stages together.\<close>

lemma join_stores:
  assumes inv: "ps_inv s"
  obtains first s1 rest s2 where "store_bootstrap_peer (clock 0) s nid host port = Inr (first, s1)"
    and "store_all (\<lambda>i. ps_store (fst (clock i)) (snd (clock i))) 1 s1 contacts = Inr (rest, s2)"
    and "stores_offered s (join_offers nid host port contacts) (first @ rest) s2"
proof -
  note loop = store_bootstrap_peer_as_loop [OF inv, of "clock 0" nid host port]
  obtain first s1 where first: "store_bootstrap_peer (clock 0) s nid host port = Inr (first, s1)"
    using ps.store_all_returns [OF inv, of "\<lambda>_. clock 0" 0] loop by metis
  note A = store_all_stores [where clock = "\<lambda>_. clock 0", OF inv first [unfolded loop]]
  have inv1: "ps_inv s1"
    using A by (simp add: stores_offered_def grows_def)
  obtain rest s2 where rest: "store_all (\<lambda>i. ps_store (fst (clock i)) (snd (clock i))) 1 s1 contacts = Inr (rest, s2)"
    using ps.store_all_returns [OF inv1, of clock 1 contacts] by metis
  note B = store_all_stores [OF inv1 rest]
  show thesis
    by (rule that [OF first rest]) (use stores_offered_append [OF A B] in \<open>simp add: join_offers_def\<close>)
qed


text \<open>A peer that answers PING and FIND_NODE with its handlers.\<close>

definition peer_transport :: "ping_validator \<Rightarrow> find_node_handler \<Rightarrow> peer_store \<Rightarrow> 'w transport" where
  "peer_transport pv fh s w request =
     ((case pv_handle_ping pv request of
         Inr pong \<Rightarrow> Inr pong
       | Inl _ \<Rightarrow> and_then (handle_request fh request s) (\<lambda>(_, response). Inr response)), w)"

text \<open>A FIND_NODE request is no PING, so such a peer answers it from its store.\<close>

lemma handle_ping_refuses_find_node:
  assumes "decode_message bs = Inr m" and "map_of m (u ''type'') = Some (PStr MSG_FIND_NODE)"
  shows "pv_handle_ping pv bs = Inl ValueError"
proof -
  have "validate_dict m (Some MSG_PING) \<noteq> Inr ()"
    using assms(2) by (auto simp: validate_dict_Inr message_types)
  then show ?thesis
    by (simp add: pv_handle_ping_def assms(1) validate_message_PDict)
qed

text \<open>So a FIND_NODE query to such a peer gives the contacts of its table that are closest to the asking node.\<close>

lemma peer_answers:
  assumes "ps_inv s" and "is_node_id lid"
    and "\<forall>c \<in> set (rt_get_all_contacts (ps_table s)). val_ok (c_host c) \<and> jnorm (c_host c) = c_host c"
    and "fh_local_id_hex a = bytes_hex lid" "1 \<le> fh_k a" and "fh_local_id_hex fh \<noteq> []" "str_ok (fh_local_id_hex fh)" "1 \<le> fh_k fh"
  shows "\<exists>closest. find_closest \<lparr>pl_routing_table = ps_table s, pl_k = min (fh_k a) (fh_k fh)\<rparr> lid = Inr closest \<and>
    (\<forall>w. query_find_node a (bytes_hex lid) (peer_transport pv fh s) w = (Inr closest, w))"
proof -
  have ne: "bytes_hex lid \<noteq> []"
    using assms(2) by (auto simp: is_node_id_def simp flip: length_0_conv)
  obtain req rep m where req: "build_request a (bytes_hex lid) = Inr req" "decode_message req = Inr m"
    "map_of m (u ''type'') = Some (PStr MSG_FIND_NODE)" "handle_request fh req s = Inr (bytes_hex lid, rep)"
    and rep: "parse_response a rep (bytes_hex lid)
      = find_closest \<lparr>pl_routing_table = ps_table s, pl_k = min (fh_k a) (fh_k fh)\<rparr> lid"
    using find_node_wire [OF assms(1-3), of a fh] assms ne by auto
  obtain closest where closest: "find_closest \<lparr>pl_routing_table = ps_table s, pl_k = min (fh_k a) (fh_k fh)\<rparr> lid = Inr closest"
    using find_closest_total [OF _ assms(2)] ps_invD(1) [OF assms(1)] by simp
  then have "query_find_node a (bytes_hex lid) (peer_transport pv fh s) w = (Inr closest, w)" for w
    using req rep handle_ping_refuses_find_node [OF req(2,3)] by (simp add: query_find_node_def peer_transport_def)
  with closest show ?thesis by blast
qed

text \<open>What the PING of a client gives against a peer that answers with its handlers.\<close>

lemma peer_pongs:
  assumes "pv_local_id_hex pv0 \<noteq> []" "str_ok (pv_local_id_hex pv0)" and "uuid \<noteq> []" "str_ok uuid"
    and "pv_local_id_hex pv \<noteq> []" "str_ok (pv_local_id_hex pv)"
  shows "pv_ping pv0 uuid (peer_transport pv fh s) None w = (True, w)"
proof -
  obtain pingb pongb where "build_ping_request pv0 uuid (Some uuid) = Inr pingb"
    "pv_handle_ping pv pingb = Inr pongb" "validate_pong pongb uuid = Inr True"
    by (rule ping_reply [of pv0 pv uuid uuid]) (use assms in auto)
  then show ?thesis
    by (simp add: pv_ping_def peer_transport_def)
qed


text \<open>A node with an empty store joins through a peer that knows \<open>ex_contact\<close>, and knows it afterwards.\<close>

definition ex_joiner :: bootstrap_client where
  "ex_joiner = \<lparr>bc_local_id_hex = bytes_hex ex_local, bc_peer_store = ex_fresh_store,
     bc_ping_validator = \<lparr>pv_local_id_hex = bytes_hex ex_local\<rparr>,
     bc_find_node_handler = \<lparr>fh_local_id_hex = bytes_hex ex_local, fh_k = 20\<rparr>\<rparr>"

definition ex_peer :: "nat transport" where
  "ex_peer = peer_transport \<lparr>pv_local_id_hex = u ''bb''\<rparr> \<lparr>fh_local_id_hex = u ''bb'', fh_k = 8\<rparr> ex_store"

lemma ex_joiner_inv: "ps_inv (bc_peer_store ex_joiner)" and ex_joiner_local: "is_node_id ex_local"
  and ex_peer_hosts: "\<forall>c \<in> set (rt_get_all_contacts (ps_table ex_store)). val_ok (c_host c) \<and> jnorm (c_host c) = c_host c"
  and ex_peer_closest: "find_closest \<lparr>pl_routing_table = ps_table ex_store, pl_k = 8\<rparr> ex_local = Inr [ex_contact]"
proof -
  show node: "is_node_id ex_local" by (simp add: is_node_id_def ex_local_def)
  have all: "rt_get_all_contacts (ps_table ex_store) = [ex_contact]"
    by (simp add: ex_store_def ex_table_def rt_get_all_contacts_def)
  then show "\<forall>c \<in> set (rt_get_all_contacts (ps_table ex_store)). val_ok (c_host c) \<and> jnorm (c_host c) = c_host c"
    by (simp add: ex_contact_def)
  have "is_node_id (c_node_id ex_contact)"
    using ex_contact_ok by (simp add: KademliaContact_ok_iff contact_ok_def)
  then show "find_closest \<lparr>pl_routing_table = ps_table ex_store, pl_k = 8\<rparr> ex_local = Inr [ex_contact]"
    using node sort_by_distance_ok [OF node, of "[ex_contact]"] by (simp add: find_closest_def all is_node_id_def)
qed (simp add: ex_joiner_def ex_fresh_store_inv)

lemma ex_local_hex: "bytes_hex ex_local \<noteq> []"
  by (simp add: ex_local_def flip: length_0_conv)

text \<open>A range of a store with room for 20 contacts is not full with one.\<close>

lemma ex_joiner_stored:
  assumes "subseq stored [ex_contact]" and "rt_k (ps_table s') = rt_k (ps_table (bc_peer_store ex_joiner))"
    and "ps_lookup s' = ps_lookup (bc_peer_store ex_joiner) ++ map_of (map (\<lambda>c. (c_node_id c, c)) (rev stored))"
    and "ps_admissible (bc_peer_store ex_joiner) ex_contact \<Longrightarrow> ex_contact \<in> set stored \<or> range_full s' (c_node_id ex_contact)"
  shows "stored = [ex_contact]" and "ps_lookup s' (c_node_id ex_contact) = Some ex_contact"
proof -
  have "ps_lookup (bc_peer_store ex_joiner) = Map.empty" and k: "rt_k (ps_table s') = 20"
    using assms(2) by (simp_all add: ex_joiner_def ex_fresh_store_def ps_lookup_def fun_eq_iff)
  moreover have cases: "stored = [] \<or> stored = [ex_contact]"
    using assms(1) by (cases stored) (auto split: if_splits)
  ultimately have "dom (ps_lookup s') \<subseteq> {c_node_id ex_contact}"
    using assms(3) by (auto split: if_splits)
  then have "card (spec_range (ps_local s') (ps_lookup s') i) \<le> card {c_node_id ex_contact}" for i
    by (intro card_mono) (auto simp: spec_range_def)
  then have "card (spec_range (ps_local s') (ps_lookup s') i) < 20" for i
    by (rule le_less_trans) simp
  then have "\<not> range_full s' n" for n
    using k by (simp add: range_full_def not_le)
  moreover have "ps_admissible (bc_peer_store ex_joiner) ex_contact"
    using ex_contact_ok ex_ids_differ by (simp add: ps_admissible_def ex_joiner_def ex_fresh_store_def KademliaContact_ok_iff)
  ultimately have "ex_contact \<in> set stored"
    using assms(4) by blast
  with cases show "stored = [ex_contact]" by auto
  then show "ps_lookup s' (c_node_id ex_contact) = Some ex_contact"
    using assms(3) by simp
qed



end
