(* ===== verification/Discovery.thy ===== *)
theory Discovery
  imports Bootstrap
begin

text \<open>
  \<open>meshweaver/kademlia/discovery.py\<close>: one round of FIND_NODE queries to known contacts, refreshing the
  ones that answer and storing the peers they report. \<open>clock j i\<close> are the clock readings of the \<open>i\<close>-th
  insertion made while handling the \<open>j\<close>-th contact.
\<close>

record peer_discovery =
  pd_local_id_hex :: pystr
  pd_peer_store :: peer_store
  pd_find_node_handler :: find_node_handler

definition PeerDiscovery :: "pystr \<Rightarrow> peer_store \<Rightarrow> find_node_handler \<Rightarrow> peer_discovery res" where
  "PeerDiscovery local_id_hex store handler =
     (if local_id_hex = [] then Inl ValueError
      else Inr \<lparr>pd_local_id_hex = local_id_hex, pd_peer_store = store, pd_find_node_handler = handler\<rparr>)"

text \<open>The inner loop over the contacts of one reply: what it stores, the IDs added in this round, the store.\<close>

fun store_discovered ::
    "pystr \<Rightarrow> (nat \<Rightarrow> pyfloat \<times> pyfloat) \<Rightarrow> nat \<Rightarrow> peer_store \<Rightarrow> bytes list \<Rightarrow> contact list
      \<Rightarrow> (contact list \<times> bytes list \<times> peer_store) res" where
  "store_discovered local_hex clock i s added [] = Inr ([], added, s)"
| "store_discovered local_hex clock i s added (c # cs) =
     (if bytes_hex (c_node_id c) = local_hex then store_discovered local_hex clock i s added cs
      else if ps_contains s (c_node_id c) \<or> c_node_id c \<in> set added
      then store_discovered local_hex clock i s added cs
      else
        (case ps_store (fst (clock i)) (snd (clock i)) s c of
           Inl e \<Rightarrow> if is_ValueError e then store_discovered local_hex clock (Suc i) s added cs else Inl e
         | Inr (accepted, s') \<Rightarrow>
             if accepted then
               and_then (store_discovered local_hex clock (Suc i) s' (c_node_id c # added) cs)
                 (\<lambda>(new, added', s''). Inr (c # new, added', s''))
             else store_discovered local_hex clock (Suc i) s' added cs))"

text \<open>The seed answered: refresh it, unless it is the local node.\<close>

definition refresh_seed ::
    "pystr \<Rightarrow> pyfloat \<times> pyfloat \<Rightarrow> peer_store \<Rightarrow> contact \<Rightarrow> peer_store res" where
  "refresh_seed local_hex tm s seed =
     (if bytes_hex (c_node_id seed) = local_hex then Inr s
      else case ps_store (fst tm) (snd tm) s seed of
        Inl e \<Rightarrow> if is_ValueError e then Inr s else Inl e
      | Inr (_, s') \<Rightarrow> Inr s')"

fun discover_loop ::
    "find_node_handler \<Rightarrow> pystr \<Rightarrow> (nat \<Rightarrow> nat \<Rightarrow> pyfloat \<times> pyfloat) \<Rightarrow> (contact \<Rightarrow> 'w transport res) \<Rightarrow> nat
      \<Rightarrow> peer_store \<Rightarrow> bytes list \<Rightarrow> contact list \<Rightarrow> 'w \<Rightarrow> (contact list \<times> peer_store) res \<times> 'w" where
  "discover_loop fh local_hex clock send_recv_for j s added [] w = (Inr ([], s), w)"
| "discover_loop fh local_hex clock send_recv_for j s added (seed # seeds) w =
     (case (case send_recv_for seed of
              Inl e \<Rightarrow> (Inl e, w)
            | Inr send_recv \<Rightarrow> query_find_node fh local_hex send_recv w) of
        (Inl _, w') \<Rightarrow> discover_loop fh local_hex clock send_recv_for (Suc j) s added seeds w'
      | (Inr discovered, w') \<Rightarrow>
          (case and_then (refresh_seed local_hex (clock j 0) s seed) (\<lambda>s1.
                  store_discovered local_hex (\<lambda>i. clock j (Suc i)) 0 s1 added discovered) of
             Inl e \<Rightarrow> (Inl e, w')
           | Inr (new, added', s2) \<Rightarrow>
               (case discover_loop fh local_hex clock send_recv_for (Suc j) s2 added' seeds w' of
                  (Inl e, w'') \<Rightarrow> (Inl e, w'')
                | (Inr (rest, s3), w'') \<Rightarrow> (Inr (new @ rest, s3), w''))))"

definition discover ::
    "peer_discovery \<Rightarrow> (nat \<Rightarrow> nat \<Rightarrow> pyfloat \<times> pyfloat) \<Rightarrow> contact list \<Rightarrow> (contact \<Rightarrow> 'w transport res) \<Rightarrow> 'w
      \<Rightarrow> (contact list \<times> peer_discovery) res \<times> 'w" where
  "discover pd clock contacts send_recv_for w =
     (case discover_loop (pd_find_node_handler pd) (pd_local_id_hex pd) clock send_recv_for 0
             (pd_peer_store pd) [] contacts w of
        (r, w') \<Rightarrow> (and_then r (\<lambda>(new, s). Inr (new, pd\<lparr>pd_peer_store := s\<rparr>)), w'))"

section \<open>The loops\<close>

text \<open>
  What a step from \<open>s\<close> to \<open>s'\<close> that reports \<open>new\<close> may do, with \<open>seeds\<close> the contacts it may refresh: the
  reported contacts have distinct IDs that \<open>s\<close> did not know and \<open>s'\<close> knows, and nothing else appears
  but seeds; nothing disappears.
\<close>

definition discovered_step :: "peer_store \<Rightarrow> contact list \<Rightarrow> contact list \<Rightarrow> peer_store \<Rightarrow> bool" where
  "discovered_step s seeds new s' \<longleftrightarrow>
     ps_inv s' \<and> ps_local s' = ps_local s \<and> distinct (map c_node_id new) \<and>
     c_node_id ` set new \<inter> dom (ps_lookup s) = {} \<and>
     set new \<subseteq> {c. ps_admissible s c} \<and>
     dom (ps_lookup s) \<union> c_node_id ` set new \<subseteq> dom (ps_lookup s') \<and>
     dom (ps_lookup s') \<subseteq> dom (ps_lookup s) \<union> c_node_id ` (set new \<union> set seeds)"

lemma discovered_step_refl: "ps_inv s \<Longrightarrow> discovered_step s seeds [] s"
  by (auto simp: discovered_step_def)

lemma grow_trans:
  assumes "N \<inter> D = {}" "D \<union> N \<subseteq> D'" "D' \<subseteq> D \<union> (N \<union> S)"
    and "R \<inter> D' = {}" "D' \<union> R \<subseteq> D''" "D'' \<subseteq> D' \<union> (R \<union> S')"
  shows "N \<inter> R = {}" "(N \<union> R) \<inter> D = {}" "D \<union> (N \<union> R) \<subseteq> D''" "D'' \<subseteq> D \<union> ((N \<union> R) \<union> (S \<union> S'))"
  using assms by blast+

lemma discovered_step_trans:
  assumes "discovered_step s seeds new s'" and "discovered_step s' seeds' rest s''"
  shows "discovered_step s (seeds @ seeds') (new @ rest) s''"
proof -
  let ?id = "\<lambda>cs. c_node_id ` set cs" and ?D = "\<lambda>s. dom (ps_lookup s)"
  have A: "?id new \<inter> ?D s = {}" "?D s \<union> ?id new \<subseteq> ?D s'" "?D s' \<subseteq> ?D s \<union> (?id new \<union> ?id seeds)"
    using assms(1) by (simp_all add: discovered_step_def image_Un)
  have B: "?id rest \<inter> ?D s' = {}" "?D s' \<union> ?id rest \<subseteq> ?D s''" "?D s'' \<subseteq> ?D s' \<union> (?id rest \<union> ?id seeds')"
    using assms(2) by (simp_all add: discovered_step_def image_Un)
  have "ps_admissible s' = ps_admissible s"
    using assms(1) by (auto simp: discovered_step_def ps_admissible_def fun_eq_iff)
  then show ?thesis
    using assms grow_trans [OF A B] unfolding discovered_step_def
    by (simp add: image_Un)
qed

text \<open>An accepted insertion of an unknown contact reports it; a refresh of a seed reports nothing.\<close>

lemma discovered_step_store:
  assumes "ps_inv s" and "ps_store t1 t2 s c = Inr (True, s')"
  shows "ps_lookup s (c_node_id c) = None \<Longrightarrow> discovered_step s [] [c] s'" and "discovered_step s [c] [] s'"
proof -
  have adm: "ps_admissible s c"
    using assms ps_store_raises by fastforce
  have look: "ps_lookup s' = (ps_lookup s)(c_node_id c \<mapsto> c)" and inv: "ps_inv s'"
    using ps.add_accepted [OF assms(1), of "\<lambda>_. (t1, t2)"] ps.add_inv [OF assms(1), of "\<lambda>_. (t1, t2)"] assms(2) by auto
  show "ps_lookup s (c_node_id c) = None \<Longrightarrow> discovered_step s [] [c] s'" and "discovered_step s [c] [] s'"
    using adm inv ps_local_store [OF assms] by (auto simp: discovered_step_def look domIff)
qed

lemma store_discovered_spec:
  assumes "ps_inv s"
  shows "\<exists>new added' s'. store_discovered local_hex clock i s added cs = Inr (new, added', s') \<and>
    discovered_step s [] new s' \<and> set new \<subseteq> set cs"
  using assms
proof (induction cs arbitrary: i s added)
  case Nil
  then show ?case by (simp add: discovered_step_refl)
next
  case (Cons c cs)
  show ?case
  proof (cases "bytes_hex (c_node_id c) = local_hex \<or> ps_contains s (c_node_id c) \<or> c_node_id c \<in> set added")
    case True
    with Cons.IH [OF Cons.prems, of i added] show ?thesis by auto
  next
    case False
    show ?thesis
    proof (cases rule: ps.add_total [OF Cons.prems, of c clock i])
      case 1
      with False Cons.IH [OF Cons.prems, of "Suc i" added] show ?thesis by auto
    next
      case (2 s1)
      have step: "discovered_step s [] [c] s1"
        using False 2(2) discovered_step_store(1) [OF Cons.prems] by (simp add: ps_contains_dom domIff)
      then have "ps_inv s1" by (simp add: discovered_step_def)
      from Cons.IH [OF this, of "Suc i" "c_node_id c # added"] obtain new added' s' where
        "store_discovered local_hex clock (Suc i) s1 (c_node_id c # added) cs = Inr (new, added', s')"
        "discovered_step s1 [] new s'" "set new \<subseteq> set cs" by blast
      with False 2 discovered_step_trans [OF step, of "[]" new s'] show ?thesis by auto
    next
      case 3
      with False Cons.IH [OF Cons.prems, of "Suc i" added] show ?thesis by auto
    qed
  qed
qed

lemma refresh_seed_spec:
  assumes "ps_inv s"
  shows "\<exists>s'. refresh_seed local_hex tm s seed = Inr s' \<and> discovered_step s [seed] [] s'"
proof (cases "bytes_hex (c_node_id seed) = local_hex")
  case True
  then show ?thesis by (simp add: refresh_seed_def discovered_step_refl assms)
next
  case False
  show ?thesis
    using False discovered_step_store(2) [OF assms] discovered_step_refl [OF assms]
    by (cases rule: ps.add_total [OF assms, of seed "\<lambda>_. tm" 0]) (auto simp: refresh_seed_def)
qed

lemma discover_loop_spec:
  assumes "ps_inv s"
  shows "\<exists>new s'. fst (discover_loop fh local_hex clock send_recv_for j s added seeds w) = Inr (new, s') \<and>
    discovered_step s seeds new s'"
  using assms
proof (induction seeds arbitrary: j s added w)
  case Nil
  then show ?case by (simp add: discovered_step_refl)
next
  case (Cons seed seeds)
  define q where "q = (case send_recv_for seed of Inl e \<Rightarrow> (Inl e, w) | Inr send_recv \<Rightarrow> query_find_node fh local_hex send_recv w)"
  obtain r w' where q': "q = (r, w')" by fastforce
  show ?case
  proof (cases r)
    case (Inl e)
    obtain new s' where rec: "fst (discover_loop fh local_hex clock send_recv_for (Suc j) s added seeds w') = Inr (new, s')"
      "discovered_step s seeds new s'"
      using Cons.IH [OF Cons.prems] by blast
    have "discovered_step s (seed # seeds) new s'"
      using discovered_step_trans [OF discovered_step_refl [OF Cons.prems, of "[seed]"] rec(2)] by simp
    with rec(1) q' Inl show ?thesis by (simp flip: q_def)
  next
    case (Inr discovered)
    obtain s1 where s1: "refresh_seed local_hex (clock j 0) s seed = Inr s1" "discovered_step s [seed] [] s1"
      using refresh_seed_spec [OF Cons.prems] by blast
    obtain new added' s2 where s2: "store_discovered local_hex (\<lambda>i. clock j (Suc i)) 0 s1 added discovered = Inr (new, added', s2)"
      "discovered_step s1 [] new s2"
      using store_discovered_spec [of s1] s1(2) by (metis discovered_step_def)
    obtain rest s3 where s3: "fst (discover_loop fh local_hex clock send_recv_for (Suc j) s2 added' seeds w') = Inr (rest, s3)"
      "discovered_step s2 seeds rest s3"
      using Cons.IH [of s2 "Suc j" added' w'] s2(2) by (auto simp: discovered_step_def)
    have "discovered_step s (seed # seeds) (new @ rest) s3"
      using discovered_step_trans [OF discovered_step_trans [OF s1(2) s2(2)] s3(2)] by simp
    moreover have "fst (discover_loop fh local_hex clock send_recv_for j s added (seed # seeds) w) = Inr (new @ rest, s3)"
      using s1(1) s2(1) s3(1) q' Inr by (auto simp flip: q_def split: prod.split)
    ultimately show ?thesis by blast
  qed
qed

section \<open>Properties\<close>

text \<open>
  C13. \<open>discover\<close> never raises, whatever the transports do and the peers answer. The contacts it returns
  have pairwise different IDs, none of them was known before, all are known afterwards, none is the
  local node and all are well-formed; no known peer is lost, no ID appears in the store other than
  those reported and those of the queried contacts, and the store stays well-formed.
\<close>

theorem discover_spec:
  assumes "ps_inv (pd_peer_store pd)"
  shows "\<exists>new pd'. fst (discover pd clock contacts send_recv_for w) = Inr (new, pd') \<and>
    ps_inv (pd_peer_store pd') \<and> distinct (map c_node_id new) \<and>
    set new \<subseteq> {c. ps_admissible (pd_peer_store pd) c} \<and>
    c_node_id ` set new \<inter> dom (ps_lookup (pd_peer_store pd)) = {} \<and>
    dom (ps_lookup (pd_peer_store pd)) \<union> c_node_id ` set new \<subseteq> dom (ps_lookup (pd_peer_store pd')) \<and>
    dom (ps_lookup (pd_peer_store pd'))
      \<subseteq> dom (ps_lookup (pd_peer_store pd)) \<union> c_node_id ` (set new \<union> set contacts)"
proof -
  obtain new s' where loop: "fst (discover_loop (pd_find_node_handler pd) (pd_local_id_hex pd) clock send_recv_for 0
      (pd_peer_store pd) [] contacts w) = Inr (new, s')" and step: "discovered_step (pd_peer_store pd) contacts new s'"
    using discover_loop_spec [OF assms, of "pd_find_node_handler pd" "pd_local_id_hex pd" clock send_recv_for 0 "[]"
        contacts w] by blast
  have "fst (discover pd clock contacts send_recv_for w) = Inr (new, pd\<lparr>pd_peer_store := s'\<rparr>)"
    using loop by (auto simp: discover_def split: prod.split)
  with step show ?thesis
    by (auto simp: discovered_step_def)
qed

theorem discover_spec_witness:
  "\<exists>new pd'. fst (discover \<lparr>pd_local_id_hex = bytes_hex ex_local, pd_peer_store = ex_store,
       pd_find_node_handler = \<lparr>fh_local_id_hex = bytes_hex ex_local, fh_k = 20\<rparr>\<rparr>
     (\<lambda>_ _. (FFin 1, FFin 2)) [ex_contact] (\<lambda>c. Inr (\<lambda>w req. (Inl TimeoutError, w))) (0 :: nat)) = Inr (new, pd') \<and>
     ps_inv (pd_peer_store pd')"
  using discover_spec [of "\<lparr>pd_local_id_hex = bytes_hex ex_local, pd_peer_store = ex_store,
      pd_find_node_handler = \<lparr>fh_local_id_hex = bytes_hex ex_local, fh_k = 20\<rparr>\<rparr>" "\<lambda>_ _. (FFin 1, FFin 2)" "[ex_contact]"
      "\<lambda>c. Inr (\<lambda>w req. (Inl TimeoutError, w))" "0 :: nat"] ex_store_inv
  by auto

end
