(* ===== verification/Discovery_Honest.thy ===== *)
theory Discovery_Honest
  imports Discovery
begin

text \<open>
  Discovery (\<open>meshweaver/kademlia/discovery.py\<close>) among peers that run the program: what a round learns from
  the contacts that answer from their own stores. The store only grows during a round (\<open>Peer_Growth\<close>), so a
  contact that was refused because its distance range was full is still without a place at the end.
\<close>

lemma refresh_seed_settles:
  assumes "ps_inv s" and "refresh_seed (bytes_hex (ps_local s)) tm s seed = Inr s'"
  shows "grows s s' \<and> settled s' seed"
proof (cases "bytes_hex (c_node_id seed) = bytes_hex (ps_local s) \<or> \<not> ps_admissible s seed")
  case True
  then have "\<not> ps_admissible s seed"
    by (auto simp: ps_admissible_def)
  moreover from this have "s' = s"
    using assms(2) ps_store_raises [of s seed] by (auto simp: refresh_seed_def split: if_splits)
  ultimately show ?thesis
    by (simp add: settled_def grows_refl assms(1))
next
  case False
  then obtain b where "ps_store (fst tm) (snd tm) s seed = Inr (b, s')"
    using assms(2) by (cases rule: ps.add_total [OF assms(1), of seed "\<lambda>_. tm" 0]) (auto simp: refresh_seed_def)
  then show ?thesis by (rule ps_store_settles [OF assms(1)])
qed

lemma store_discovered_settles:
  assumes "ps_inv s" and "store_discovered (bytes_hex (ps_local s)) clock i s added cs = Inr (new, added', s')"
    and "set added \<subseteq> dom (ps_lookup s)"
  shows "grows s s' \<and> (\<forall>c \<in> set cs. settled s' c) \<and> set added' \<subseteq> dom (ps_lookup s')"
  using assms
proof (induction cs arbitrary: i s added new)
  case Nil
  then show ?case by (simp add: grows_refl)
next
  case (Cons c cs)
  let ?hex = "bytes_hex (ps_local s)"
  have go: "grows s s' \<and> (\<forall>d \<in> set (c # cs). settled s' d) \<and> set added' \<subseteq> dom (ps_lookup s')"
    if step: "grows s s1" "settled s1 c" and rec: "store_discovered ?hex clock j s1 add1 cs = Inr (new1, added', s')"
      and add1: "set add1 \<subseteq> dom (ps_lookup s1)" for j s1 add1 new1
  proof -
    have "ps_inv s1" "ps_local s1 = ps_local s"
      using step(1) by (simp_all add: grows_def)
    with Cons.IH [of s1 j add1 new1] rec add1
    have "grows s1 s'" "\<forall>d \<in> set cs. settled s' d" "set added' \<subseteq> dom (ps_lookup s')" by simp_all
    with step show ?thesis
      using grows_trans settled_grows by auto
  qed
  show ?case
  proof (cases "bytes_hex (c_node_id c) = ?hex \<or> ps_contains s (c_node_id c) \<or> c_node_id c \<in> set added")
    case True
    then have "settled s c"
      using Cons.prems(3) by (auto simp: settled_def ps_admissible_def ps_contains_dom)
    moreover have "store_discovered ?hex clock i s added cs = Inr (new, added', s')"
      using True Cons.prems(2) by (auto split: if_splits)
    ultimately show ?thesis
      using go grows_refl [OF Cons.prems(1)] Cons.prems(3) by blast
  next
    case False
    show ?thesis
    proof (cases rule: ps.add_total [OF Cons.prems(1), of c clock i])
      case 1
      then have "store_discovered ?hex clock (Suc i) s added cs = Inr (new, added', s')"
        using False Cons.prems(2) by simp
      moreover have "settled s c" using 1 by (simp add: settled_def)
      ultimately show ?thesis
        using go grows_refl [OF Cons.prems(1)] Cons.prems(3) by blast
    next
      case (2 s1)
      then obtain new1 where "store_discovered ?hex clock (Suc i) s1 (c_node_id c # added) cs = Inr (new1, added', s')"
        using False Cons.prems(2) by (auto simp: res_simps)
      moreover have "grows s s1" "settled s1 c"
        using ps_store_settles [OF Cons.prems(1) 2(2)] by simp_all
      moreover have "set (c_node_id c # added) \<subseteq> dom (ps_lookup s1)"
        using 2(3) Cons.prems(3) by auto
      ultimately show ?thesis using go by blast
    next
      case 3
      then have "store_discovered ?hex clock (Suc i) s added cs = Inr (new, added', s')"
        using False Cons.prems(2) by simp
      then show ?thesis
        using go ps_store_settles [OF Cons.prems(1) 3(2)] Cons.prems(3) by blast
    qed
  qed
qed

text \<open>A whole round: every contact that answers is settled at the end, and so is everything it reported.\<close>

lemma discover_loop_settles:
  assumes "ps_inv s" and "set added \<subseteq> dom (ps_lookup s)"
    and "fst (discover_loop fh (bytes_hex (ps_local s)) clock send_recv_for j s added seeds w) = Inr (new, s')"
  shows "grows s s' \<and> (\<forall>c \<in> set seeds. \<forall>send reply. send_recv_for c = Inr send \<and>
      (\<forall>w. query_find_node fh (bytes_hex (ps_local s)) send w = (Inr reply, w)) \<longrightarrow> settled s' c \<and> (\<forall>d \<in> set reply. settled s' d))"
  using assms
proof (induction seeds arbitrary: j s added w new)
  case Nil
  then show ?case by (simp add: grows_refl)
next
  case (Cons seed seeds)
  let ?hex = "bytes_hex (ps_local s)"
  obtain r w' where q: "(case send_recv_for seed of Inl e \<Rightarrow> (Inl e, w) | Inr send_recv \<Rightarrow> query_find_node fh ?hex send_recv w) = (r, w')"
    by fastforce
  show ?case
  proof (cases r)
    case (Inl e)
    then have "fst (discover_loop fh ?hex clock send_recv_for (Suc j) s added seeds w') = Inr (new, s')"
      using Cons.prems(3) q by simp
    note IH = Cons.IH [OF Cons.prems(1,2) this]
    have "\<not> (send_recv_for seed = Inr send \<and> (\<forall>w. query_find_node fh ?hex send w = (Inr reply, w)))" for send reply
      using q Inl by (auto intro!: exI [of _ w])
    with IH show ?thesis by (simp only: list.set ball_simps) blast
  next
    case (Inr discovered)
    then obtain s1 new1 added1 s2 rest where s1: "refresh_seed ?hex (clock j 0) s seed = Inr s1"
      and s2: "store_discovered ?hex (\<lambda>i. clock j (Suc i)) 0 s1 added discovered = Inr (new1, added1, s2)"
      and s3: "fst (discover_loop fh ?hex clock send_recv_for (Suc j) s2 added1 seeds w') = Inr (rest, s')"
      using Cons.prems(3) q by (auto simp: res_simps split: sum.splits prod.splits)
    have A: "grows s s1" "settled s1 seed"
      using refresh_seed_settles [OF Cons.prems(1) s1] by simp_all
    then have l1: "ps_inv s1" "ps_local s1 = ps_local s" "set added \<subseteq> dom (ps_lookup s1)"
      using Cons.prems(2) by (auto simp: grows_def)
    have B: "grows s1 s2" "\<forall>d \<in> set discovered. settled s2 d" "set added1 \<subseteq> dom (ps_lookup s2)"
      using store_discovered_settles [OF l1(1), of _ 0 added discovered] s2 l1(2,3) by auto
    then have l2: "ps_inv s2" "ps_local s2 = ps_local s"
      using l1(2) by (simp_all add: grows_def)
    note C = Cons.IH [OF l2(1) B(3), unfolded l2(2), OF s3]
    have "settled s' seed" "\<forall>d \<in> set discovered. settled s' d"
      using A B C settled_grows grows_trans by blast+
    moreover have "reply = discovered" if "send_recv_for seed = Inr send" "\<forall>w. query_find_node fh ?hex send w = (Inr reply, w)" for send reply
      using that q Inr by auto
    moreover have "grows s s'"
      using A(1) B(1) C grows_trans by blast
    ultimately show ?thesis
      using C by auto
  qed
qed

section \<open>Properties\<close>

text \<open>
  C14. Discovery finds the neighbourhood: let some of the queried contacts be peers that answer from their own
  well-formed stores, and the others do whatever they like. The round returns, and for every such peer it
  asked, the peer itself and each of the contacts of the peer's table that are closest to the local node are
  known to the store afterwards, unless it is the local node or its distance range is full.
\<close>

theorem discover_honest_peers:
  fixes w :: 'w
  assumes inv: "ps_inv (pd_peer_store pd)" and lid: "lid = ps_local (pd_peer_store pd)"
    and hex: "pd_local_id_hex pd = bytes_hex lid" "fh_local_id_hex (pd_find_node_handler pd) = bytes_hex lid"
    and k: "1 \<le> fh_k (pd_find_node_handler pd)"
    and honest: "\<forall>c \<in> H. contact_ok c \<and> send_recv_for c = Inr (peer_transport (pv c) (fh c) (st c)) \<and> ps_inv (st c) \<and>
      fh_local_id_hex (fh c) \<noteq> [] \<and> str_ok (fh_local_id_hex (fh c)) \<and> 1 \<le> fh_k (fh c) \<and>
      (\<forall>d \<in> set (rt_get_all_contacts (ps_table (st c))). val_ok (c_host d) \<and> jnorm (c_host d) = c_host d)"
  shows "\<exists>new pd'. fst (discover pd clock contacts send_recv_for w) = Inr (new, pd') \<and>
    (\<forall>c \<in> H \<inter> set contacts. \<exists>closest.
       find_closest \<lparr>pl_routing_table = ps_table (st c), pl_k = min (fh_k (pd_find_node_handler pd)) (fh_k (fh c))\<rparr> lid = Inr closest \<and>
       (\<forall>d \<in> insert c (set closest). c_node_id d = lid \<or> c_node_id d \<in> dom (ps_lookup (pd_peer_store pd')) \<or>
          range_full (pd_peer_store pd') (c_node_id d)))"
proof -
  let ?s = "pd_peer_store pd" and ?fh = "pd_find_node_handler pd"
  have node: "is_node_id lid"
    using rt_invD(1) [OF ps_invD(1) [OF inv]] ps_invD(2) [OF inv] lid by simp
  obtain new s' where loop: "fst (discover_loop ?fh (bytes_hex lid) clock send_recv_for 0 ?s [] contacts w) = Inr (new, s')"
    using discover_loop_spec [OF inv, of ?fh "bytes_hex lid" clock send_recv_for 0 "[]" contacts w] by blast
  then have res: "fst (discover pd clock contacts send_recv_for w) = Inr (new, pd\<lparr>pd_peer_store := s'\<rparr>)"
    by (auto simp: discover_def hex(1) split: prod.split)
  note settles = discover_loop_settles [OF inv, of "[]", folded lid, OF _ loop]
  have known: "c_node_id d = lid \<or> c_node_id d \<in> dom (ps_lookup s') \<or> range_full s' (c_node_id d)" if "settled s' d" "contact_ok d" for d
    using that settles lid by (auto simp: settled_def ps_admissible_def grows_def)
  have "\<exists>closest. find_closest \<lparr>pl_routing_table = ps_table (st c), pl_k = min (fh_k ?fh) (fh_k (fh c))\<rparr> lid = Inr closest \<and>
      (\<forall>d \<in> insert c (set closest). c_node_id d = lid \<or> c_node_id d \<in> dom (ps_lookup s') \<or> range_full s' (c_node_id d))"
    if c: "c \<in> H" "c \<in> set contacts" for c
  proof -
    note h = honest [rule_format, OF c(1)]
    obtain closest where closest: "find_closest \<lparr>pl_routing_table = ps_table (st c), pl_k = min (fh_k ?fh) (fh_k (fh c))\<rparr> lid = Inr closest"
      and query: "\<forall>w :: 'w. query_find_node ?fh (bytes_hex lid) (peer_transport (pv c) (fh c) (st c)) w = (Inr closest, w)"
      using peer_answers [of "st c" lid ?fh "fh c" "pv c"] h node hex(2) k by auto
    have "settled s' c" "\<forall>d \<in> set closest. settled s' d"
      using settles [THEN conjunct2, rule_format, OF _ c(2), of "peer_transport (pv c) (fh c) (st c)" closest] h query by simp_all
    moreover have "contact_ok d" if "d \<in> set closest" for d
      using that closest find_closest_total [OF _ node, of "\<lparr>pl_routing_table = ps_table (st c), pl_k = min (fh_k ?fh) (fh_k (fh c))\<rparr>"]
        h ps_invD(1) [of "st c"] all_contacts_ok(1) [of "ps_table (st c)" d] by (auto dest: in_set_takeD)
    ultimately show ?thesis
      using closest known h by auto
  qed
  with res show ?thesis by auto
qed

theorem discover_honest_peers_witness:
  "\<exists>new pd'. fst (discover \<lparr>pd_local_id_hex = bytes_hex ex_local, pd_peer_store = ex_store,
       pd_find_node_handler = \<lparr>fh_local_id_hex = bytes_hex ex_local, fh_k = 20\<rparr>\<rparr>
     (\<lambda>_ _. (FFin 1, FFin 2)) [ex_contact] (\<lambda>c. Inr (peer_transport \<lparr>pv_local_id_hex = u ''bb''\<rparr> \<lparr>fh_local_id_hex = u ''bb'', fh_k = 8\<rparr> ex_store))
     (0 :: nat)) = Inr (new, pd')"
proof -
  let ?pd = "\<lparr>pd_local_id_hex = bytes_hex ex_local, pd_peer_store = ex_store,
    pd_find_node_handler = \<lparr>fh_local_id_hex = bytes_hex ex_local, fh_k = 20\<rparr>\<rparr>"
  let ?fh = "\<lparr>fh_local_id_hex = u ''bb'', fh_k = 8\<rparr>" and ?pv = "\<lparr>pv_local_id_hex = u ''bb''\<rparr>"
  have honest: "\<forall>c \<in> {ex_contact}. contact_ok c \<and> Inr (peer_transport ?pv ?fh ex_store) = Inr (peer_transport ?pv ?fh ex_store) \<and> ps_inv ex_store \<and>
      fh_local_id_hex ?fh \<noteq> [] \<and> str_ok (fh_local_id_hex ?fh) \<and> 1 \<le> fh_k ?fh \<and>
      (\<forall>d \<in> set (rt_get_all_contacts (ps_table ex_store)). val_ok (c_host d) \<and> jnorm (c_host d) = c_host d)"
    using ex_store_inv ex_contact_ok
    by (auto simp: KademliaContact_ok_iff ex_store_def ex_table_def rt_get_all_contacts_def ex_contact_def)
  have "ps_local ex_store = ex_local"
    by (simp add: ex_store_def)
  then show ?thesis
    using discover_honest_peers [where pd = ?pd and lid = ex_local and H = "{ex_contact}" and contacts = "[ex_contact]" and w = "0 :: nat"
        and send_recv_for = "\<lambda>_. Inr (peer_transport ?pv ?fh ex_store)" and pv = "\<lambda>_. ?pv" and fh = "\<lambda>_. ?fh" and st = "\<lambda>_. ex_store"
        and clock = "\<lambda>_ _. (FFin 1, FFin 2)", OF _ _ _ _ _ honest] ex_store_inv
    by auto
qed

end
