(* ===== verification/Base64.thy ===== *)
theory Base64
  imports Mesh_Prelude
begin

text \<open>
  \<open>base64.b64encode\<close> and \<open>base64.b64decode\<close> as CPython's \<open>binascii\<close> computes them (the decoder in its
  default, non-strict mode: characters outside the alphabet are skipped, input after a complete
  padding is ignored), with the lemma that decoding undoes encoding.
\<close>

definition b64_char :: "nat \<Rightarrow> nat" where
  "b64_char n =
     (if n < 26 then 65 + n else if n < 52 then 71 + n else if n < 62 then n - 4
      else if n = 62 then 43 else 47)"

definition b64_val :: "nat \<Rightarrow> nat option" where
  "b64_val c =
     (if 65 \<le> c \<and> c \<le> 90 then Some (c - 65) else if 97 \<le> c \<and> c \<le> 122 then Some (c - 71)
      else if 48 \<le> c \<and> c \<le> 57 then Some (c + 4) else if c = 43 then Some 62 else if c = 47 then Some 63
      else None)"

fun b64encode :: "bytes \<Rightarrow> pystr" where
  "b64encode [] = []"
| "b64encode [a] = [b64_char (unat a div 4), b64_char (unat a mod 4 * 16), 61, 61]"
| "b64encode [a, b] =
     [b64_char (unat a div 4), b64_char (unat a mod 4 * 16 + unat b div 16), b64_char (unat b mod 16 * 4), 61]"
| "b64encode (a # b # c # r) =
     b64_char (unat a div 4) # b64_char (unat a mod 4 * 16 + unat b div 16)
     # b64_char (unat b mod 16 * 4 + unat c div 64) # b64_char (unat c mod 64) # b64encode r"

text \<open>
  The decoder's loop: \<open>q\<close> is the position in the current group of four, \<open>l\<close> the bits left over,
  \<open>pads\<close> the number of padding characters since the last data character.
\<close>

fun b64_loop :: "nat \<Rightarrow> nat \<Rightarrow> nat \<Rightarrow> pystr \<Rightarrow> bytes res" where
  "b64_loop q l pads [] = (if q \<noteq> 0 then Inl ValueError else Inr [])"
| "b64_loop q l pads (c # cs) =
     (if c = 61 then
        (if 2 \<le> q \<and> 4 \<le> q + Suc pads then Inr []
         else b64_loop q l (if 2 \<le> q then Suc pads else pads) cs)
      else case b64_val c of
        None \<Rightarrow> b64_loop q l pads cs
      | Some v \<Rightarrow>
          if q = 0 then b64_loop 1 v 0 cs
          else if q = 1 then and_then (b64_loop 2 (v mod 16) 0 cs) (\<lambda>r. Inr (of_nat (l * 4 + v div 16) # r))
          else if q = 2 then and_then (b64_loop 3 (v mod 4) 0 cs) (\<lambda>r. Inr (of_nat (l * 16 + v div 4) # r))
          else and_then (b64_loop 0 0 0 cs) (\<lambda>r. Inr (of_nat (l * 64 + v) # r)))"

definition b64decode :: "pystr \<Rightarrow> bytes res" where
  "b64decode s = b64_loop 0 0 0 s"

section \<open>Decoding undoes encoding\<close>

lemma b64_val_char [simp]: "n < 64 \<Longrightarrow> b64_val (b64_char n) = Some n"
  by (auto simp: b64_val_def b64_char_def)

lemma b64_char_not_pad [simp]: "b64_char n \<noteq> 61" "n < 64 \<Longrightarrow> 43 \<le> b64_char n" "n < 64 \<Longrightarrow> b64_char n \<le> 122" "b64_char n \<noteq> 45"
  by (auto simp: b64_char_def)

lemma six_bits:
  "unat (a :: byte) div 4 < 64" "unat a mod 4 * 16 + unat (b :: byte) div 16 < 64" "unat a mod 4 * 16 < 64"
  "unat b mod 16 * 4 + unat (c :: byte) div 64 < 64" "unat b mod 16 * 4 < 64" "unat c mod 64 < 64"
proof -
  have "unat a div 4 < 64" "unat b div 16 < 16" "unat c div 64 < 4"
    using unat_byte_less [of a] unat_byte_less [of b] unat_byte_less [of c]
    by (simp_all add: less_mult_imp_div_less del: unat_byte_less)
  moreover have "unat a mod 4 \<le> 3" "unat b mod 16 \<le> 15" by simp_all
  ultimately show "unat a div 4 < 64" "unat a mod 4 * 16 + unat b div 16 < 64" "unat a mod 4 * 16 < 64"
    "unat b mod 16 * 4 + unat c div 64 < 64" "unat b mod 16 * 4 < 64" "unat c mod 64 < 64"
    by (linarith | simp)+
qed

lemma byte_from_bits:
  "unat (a :: byte) div 4 * 4 + (unat a mod 4 * 16 + y) div 16 = unat a" if "y < 16"
  using that by simp

lemma byte_from_bits2:
  "(unat a mod 4 * 16 + unat (b :: byte) div 16) mod 16 * 16 + (unat b mod 16 * 4 + y) div 4 = unat b" if "y < 4"
proof -
  have "unat b div 16 < 16"
    using unat_byte_less [of b] by (simp add: less_mult_imp_div_less del: unat_byte_less)
  then have "(unat a mod 4 * 16 + unat b div 16) mod 16 = unat b div 16"
    by simp
  moreover have "(unat b mod 16 * 4 + y) div 4 = unat b mod 16"
    using that by simp
  ultimately show ?thesis by simp
qed

lemma byte_from_bits3:
  "(unat (b :: byte) mod 16 * 4 + unat (c :: byte) div 64) mod 4 * 64 + unat c mod 64 = unat c"
proof -
  have "unat c div 64 < 4"
    using unat_byte_less [of c] by (simp add: less_mult_imp_div_less del: unat_byte_less)
  then have "(unat b mod 16 * 4 + unat c div 64) mod 4 = unat c div 64"
    by simp
  then show ?thesis by simp
qed

lemma b64_loop_data:
  assumes "n < 64"
  shows "b64_loop q l p (b64_char n # cs) =
     (if q = 0 then b64_loop 1 n 0 cs
      else if q = 1 then and_then (b64_loop 2 (n mod 16) 0 cs) (\<lambda>r. Inr (of_nat (l * 4 + n div 16) # r))
      else if q = 2 then and_then (b64_loop 3 (n mod 4) 0 cs) (\<lambda>r. Inr (of_nat (l * 16 + n div 4) # r))
      else and_then (b64_loop 0 0 0 cs) (\<lambda>r. Inr (of_nat (l * 64 + n) # r)))"
  by (simp add: assms)

lemma of_nat_unat_byte: "n = unat b \<Longrightarrow> (of_nat n :: byte) = b"
  by simp

lemma b64decode_encode: "b64decode (b64encode bs) = Inr bs"
  unfolding b64decode_def
proof (induction bs rule: b64encode.induct)
  case (2 a)
  have "(of_nat (unat a div 4 * 4 + (unat a mod 4 * 16) div 16) :: byte) = a"
    using byte_from_bits [of 0 a] by (intro of_nat_unat_byte) simp
  then show ?case
    using six_bits by (simp add: b64_loop_data del: b64_loop.simps(2)) simp
next
  case (3 a b)
  have "unat b div 16 < 16"
    using unat_byte_less [of b] by (simp add: less_mult_imp_div_less del: unat_byte_less)
  then have "(of_nat (unat a div 4 * 4 + (unat a mod 4 * 16 + unat b div 16) div 16) :: byte) = a"
    "(of_nat ((unat a mod 4 * 16 + unat b div 16) mod 16 * 16 + (unat b mod 16 * 4) div 4) :: byte) = b"
    using byte_from_bits [of _ a] byte_from_bits2 [of 0 a b] by (auto intro!: of_nat_unat_byte)
  then show ?case
    using six_bits by (simp add: b64_loop_data del: b64_loop.simps(2) of_nat_add of_nat_mult) simp
next
  case (4 a b c r)
  have "unat b div 16 < 16" "unat c div 64 < 4"
    using unat_byte_less [of b] unat_byte_less [of c] by (simp_all add: less_mult_imp_div_less del: unat_byte_less)
  then have "(of_nat (unat a div 4 * 4 + (unat a mod 4 * 16 + unat b div 16) div 16) :: byte) = a"
    "(of_nat ((unat a mod 4 * 16 + unat b div 16) mod 16 * 16 + (unat b mod 16 * 4 + unat c div 64) div 4) :: byte) = b"
    "(of_nat ((unat b mod 16 * 4 + unat c div 64) mod 4 * 64 + unat c mod 64) :: byte) = c"
    using byte_from_bits [of _ a] byte_from_bits2 [of _ a b] byte_from_bits3 [of b c]
    by (intro of_nat_unat_byte; blast)+
  then show ?case
    using six_bits 4 by (simp add: b64_loop_data del: b64_loop.simps(2) of_nat_add of_nat_mult)
qed simp

lemma b64encode_chars: "c \<in> set (b64encode bs) \<Longrightarrow> 43 \<le> c \<and> c \<le> 122 \<and> c \<noteq> 45"
  by (induction bs rule: b64encode.induct) (auto simp: six_bits)

lemma b64decode_raises: "b64decode s = Inl e \<Longrightarrow> e = ValueError"
proof -
  have "b64_loop q l p s = Inl e \<Longrightarrow> e = ValueError" for q l p
    by (induction q l p s rule: b64_loop.induct) (auto simp: res_simps split: if_splits option.splits)
  then show "b64decode s = Inl e \<Longrightarrow> e = ValueError"
    by (simp add: b64decode_def)
qed

end
