(* ===== verification/Task_Signing.thy ===== *)
theory Task_Signing
  imports Protocol Identity
begin

text \<open>
  \<open>meshweaver/kademlia/signer.py\<close>, \<open>meshweaver/kademlia/verifier.py\<close> and \<open>meshweaver/security.py\<close>: signed
  task requests under the public key of the sender, and the shared-secret identity of the control
  plane. The task signature keeps the contract of signed messages on the four fields it covers.
\<close>

section \<open>Signing and verifying task requests\<close>

definition canonical_payload :: "pydict \<Rightarrow> bytes res" where
  "canonical_payload message =
     (if dict_get message (u ''type'') \<noteq> PStr MSG_TASK_REQUEST then Inl ValueError
      else and_then (dict_item message (u ''payload'')) (\<lambda>payload.
           and_then (dict_item message (u ''sender_id'')) (\<lambda>sender_id.
           and_then (dict_item message (u ''task_id'')) (\<lambda>task_id.
           and_then (dict_item message (u ''type'')) (\<lambda>ty.
             utf8_encode (json_dumps (PDict [(u ''payload'', payload), (u ''sender_id'', sender_id),
                                             (u ''task_id'', task_id), (u ''type'', ty)])))))))"

definition sign_request :: "node_key_pair \<Rightarrow> pydict \<Rightarrow> pydict res" where
  "sign_request keypair message =
     and_then (canonical_payload message) (\<lambda>payload_bytes.
       (let sig_bytes = hmac_sha256 (kp_public_key keypair) payload_bytes
        in Inr (AList.update (u ''signature'') (PStr (bytes_hex sig_bytes)) message)))"

text \<open>The inner check, which may raise, and the public method, which returns \<open>False\<close> instead.\<close>

definition verify_inner :: "pyval \<Rightarrow> bytes \<Rightarrow> bool res" where
  "verify_inner message public_key =
     (case message of
        PDict m \<Rightarrow>
          if length public_key \<noteq> 32 then Inr False
          else
            (let sig_hex = dict_get m (u ''signature'') in
             if \<not> truthy sig_hex then Inr False
             else case sig_hex of
               PStr s \<Rightarrow>
                 if length s \<noteq> 64 then Inr False
                 else (case fromhex s of
                         Inl e \<Rightarrow> if is_ValueError e then Inr False else Inl e
                       | Inr sig_bytes \<Rightarrow>
                           and_then (canonical_payload m) (\<lambda>payload_bytes.
                             Inr (hmac_sha256 public_key payload_bytes = sig_bytes)))
             | _ \<Rightarrow> Inr False)
      | _ \<Rightarrow> Inr False)"

definition verify_request :: "pyval \<Rightarrow> bytes \<Rightarrow> bool" where
  "verify_request message public_key =
     (case verify_inner message public_key of Inl _ \<Rightarrow> False | Inr b \<Rightarrow> b)"

section \<open>The shared-secret identity\<close>

record node_identity =
  ni_node_id :: pystr
  ni_secret :: bytes

definition NodeIdentity :: "pystr \<Rightarrow> bytes \<Rightarrow> node_identity res" where
  "NodeIdentity node_id secret =
     (if node_id = [] \<or> secret = [] then Inl ValueError else Inr \<lparr>ni_node_id = node_id, ni_secret = secret\<rparr>)"

text \<open>\<open>generate\<close>: with the random bytes that \<open>secrets.token_bytes(size)\<close> returns.\<close>

definition ni_generate :: "pystr \<Rightarrow> bytes \<Rightarrow> node_identity res" where
  "ni_generate node_id token_bytes = NodeIdentity node_id token_bytes"

definition fingerprint :: "node_identity \<Rightarrow> pystr" where
  "fingerprint ni = take 16 (bytes_hex (sha256 (ni_secret ni)))"

definition ni_sign :: "node_identity \<Rightarrow> pydict \<Rightarrow> pydict res" where
  "ni_sign ni message = sign_message message (ni_secret ni)"

definition ni_verify :: "node_identity \<Rightarrow> pydict \<Rightarrow> bool res" where
  "ni_verify ni message = verify_message_signature message (ni_secret ni)"

definition ni_save :: "node_identity \<Rightarrow> bytes" where
  "ni_save ni = ni_secret ni"

definition ni_load :: "pystr \<Rightarrow> bytes option \<Rightarrow> node_identity res" where
  "ni_load node_id key_file =
     (case key_file of None \<Rightarrow> Inl FileNotFoundError | Some content \<Rightarrow> NodeIdentity node_id content)"

section \<open>The signed fields\<close>

definition task_fields :: "pystr list" where
  "task_fields = [u ''payload'', u ''sender_id'', u ''task_id'', u ''type'']"

definition task_view :: "pydict \<Rightarrow> pyval option list" where
  "task_view m = map (\<lambda>f. map_option jnorm (map_of m f)) task_fields"

definition task_ok :: "pydict \<Rightarrow> bool" where
  "task_ok m \<longleftrightarrow> list_all (\<lambda>f. val_ok (dict_get m f)) task_fields"

definition task_tag :: "pydict \<Rightarrow> bytes option" where
  "task_tag m =
     (case dict_get m (u ''signature'') of
        PStr s \<Rightarrow> if length s \<noteq> 64 then None else (case fromhex s of Inr t \<Rightarrow> Some t | Inl _ \<Rightarrow> None)
      | _ \<Rightarrow> None)"

text \<open>The dictionary that is signed.\<close>

definition signing_dict :: "pydict \<Rightarrow> pydict" where
  "signing_dict m = map (\<lambda>f. (f, dict_get m f)) task_fields"

lemma canonical_payload_iff:
  "canonical_payload m = Inr c \<longleftrightarrow>
     map_of m (u ''type'') = Some (PStr MSG_TASK_REQUEST) \<and>
     list_all (\<lambda>f. map_of m f \<noteq> None) task_fields \<and> c = map byte_of (json_dumps (PDict (signing_dict m)))"
proof -
  have enc: "utf8_encode (json_dumps v) = Inr (map byte_of (json_dumps v))" for v
    by (rule utf8_encode_ascii [OF json_dumps_all_ascii])
  show ?thesis
    unfolding canonical_payload_def signing_dict_def task_fields_def get_PStr
    by (auto simp: dict_item_def dict_get_def res_simps enc simp del: json_dumps.simps split: option.splits)
qed

lemma canonical_payload_errors:
  "canonical_payload m = Inl e \<longleftrightarrow>
     (if map_of m (u ''type'') \<noteq> Some (PStr MSG_TASK_REQUEST) then e = ValueError
      else e = KeyError \<and> \<not> list_all (\<lambda>f. map_of m f \<noteq> None) task_fields)"
proof -
  have enc: "utf8_encode (json_dumps v) = Inr (map byte_of (json_dumps v))" for v
    by (rule utf8_encode_ascii [OF json_dumps_all_ascii])
  show ?thesis
    unfolding canonical_payload_def task_fields_def get_PStr
    by (auto simp: dict_item_def res_simps enc simp del: json_dumps.simps split: option.splits)
qed

lemma distinct_task_fields: "distinct task_fields"
  by (simp add: task_fields_def)

lemma signing_dict_ok: "task_ok m \<Longrightarrow> val_ok (PDict (signing_dict m))"
  by (simp add: task_ok_def signing_dict_def task_fields_def)

lemma jnorm_signing_dict:
  "jnorm (PDict (signing_dict m)) = PDict (sort_key fst (map (\<lambda>f. (f, jnorm (dict_get m f))) task_fields))"
  by (simp add: signing_dict_def comp_def)

lemma signing_dict_eq_iff:
  "jnorm (PDict (signing_dict m')) = jnorm (PDict (signing_dict m)) \<longleftrightarrow>
     (\<forall>f \<in> set task_fields. jnorm (dict_get m' f) = jnorm (dict_get m f))"
proof -
  let ?l = "\<lambda>m. map (\<lambda>f. (f, jnorm (dict_get m f))) task_fields"
  have keys: "distinct (map fst (?l m))" for m
    using distinct_task_fields by (simp add: comp_def)
  have at: "map_of (sort_key fst (?l m)) f = Some (jnorm (dict_get m f))" if "f \<in> set task_fields" for m f
    unfolding map_of_sort_key [OF keys] using that by (simp add: map_of_map_restrict)
  show ?thesis
    unfolding jnorm_signing_dict pyval.inject
  proof
    assume "sort_key fst (?l m') = sort_key fst (?l m)"
    then show "\<forall>f \<in> set task_fields. jnorm (dict_get m' f) = jnorm (dict_get m f)"
      using at by (metis option.inject)
  next
    assume "\<forall>f \<in> set task_fields. jnorm (dict_get m' f) = jnorm (dict_get m f)"
    then have "?l m' = ?l m" by (intro map_cong) auto
    then show "sort_key fst (?l m') = sort_key fst (?l m)" by (rule arg_cong)
  qed
qed

lemma task_canon_iff:
  assumes "task_ok m" and "task_ok m'" and "canonical_payload m = Inr c"
  shows "canonical_payload m' = Inr c \<longleftrightarrow> task_view m' = task_view m"
proof -
  have m: "map_of m (u ''type'') = Some (PStr MSG_TASK_REQUEST)" "\<forall>f \<in> set task_fields. map_of m f \<noteq> None"
    and c: "c = map byte_of (json_dumps (PDict (signing_dict m)))"
    using assms(3) by (auto simp: canonical_payload_iff list_all_iff)
  have ty: "u ''type'' \<in> set task_fields" by (simp add: task_fields_def)
  have view: "task_view m' = task_view m \<longleftrightarrow> (\<forall>f \<in> set task_fields. map_option jnorm (map_of m' f) = map_option jnorm (map_of m f))"
    by (auto simp: task_view_def)
  have get: "map_option jnorm (map_of m' f) = map_option jnorm (map_of m f) \<longleftrightarrow>
      map_of m' f \<noteq> None \<and> jnorm (dict_get m' f) = jnorm (dict_get m f)" if "f \<in> set task_fields" for f
    using m(2) that by (cases "map_of m' f"; cases "map_of m f") (auto simp: dict_get_def)
  have "json_dumps (PDict (signing_dict m')) = json_dumps (PDict (signing_dict m)) \<longleftrightarrow>
      (\<forall>f \<in> set task_fields. jnorm (dict_get m' f) = jnorm (dict_get m f))"
    using assms(1,2) by (simp only: json_dumps_eq_iff signing_dict_ok signing_dict_eq_iff)
  then have "canonical_payload m' = Inr c \<longleftrightarrow> map_of m' (u ''type'') = Some (PStr MSG_TASK_REQUEST) \<and>
      (\<forall>f \<in> set task_fields. map_of m' f \<noteq> None \<and> jnorm (dict_get m' f) = jnorm (dict_get m f))"
    unfolding canonical_payload_iff c dumps_bytes_eq_iff by (auto simp: list_all_iff simp del: json_dumps.simps)
  also have "\<dots> \<longleftrightarrow> task_view m' = task_view m"
    using view get ty m(1) by (auto simp: dict_get_def)
  finally show ?thesis .
qed

lemma sign_request_public: "sign_request kp m = sign_request \<lparr>kp_private_key = [], kp_public_key = kp_public_key kp\<rparr> m"
  by (simp add: sign_request_def)

lemma verify_request_iff:
  "verify_request (PDict m) k \<longleftrightarrow> length k = 32 \<and> (\<exists>c. canonical_payload m = Inr c \<and> task_tag m = Some (hmac_sha256 k c))"
proof (cases "dict_get m (u ''signature'')")
  case (PStr s)
  have "s = [] \<Longrightarrow> length s \<noteq> 64" by simp
  moreover have "fromhex s = Inl e \<Longrightarrow> is_ValueError e" for e
    using fromhex_raises_only_ValueError by fastforce
  ultimately show ?thesis
    by (cases "fromhex s"; cases "canonical_payload m")
      (auto simp: verify_request_def verify_inner_def task_tag_def PStr Let_def)
qed (auto simp: verify_request_def verify_inner_def task_tag_def Let_def)

interpretation ts: signed_message canonical_payload task_view task_ok "\<lambda>k. length k = 32" task_tag
  "\<lambda>k m. sign_request \<lparr>kp_private_key = [], kp_public_key = k\<rparr> m" "\<lambda>k m. verify_request (PDict m) k"
proof unfold_locales
  fix k m s
  assume "sign_request \<lparr>kp_private_key = [], kp_public_key = k\<rparr> m = Inr s"
  then obtain c where c: "canonical_payload m = Inr c"
    and s: "s = AList.update (u ''signature'') (PStr (bytes_hex (hmac_sha256 k c))) m"
    by (auto simp: sign_request_def Let_def res_simps)
  have "map_of s f = map_of m f" if "f \<in> set task_fields" for f
    using that by (auto simp: s update_conv' task_fields_def)
  then have "canonical_payload s = canonical_payload m"
    by (simp add: canonical_payload_def dict_get_def dict_item_def task_fields_def)
  with c show "\<exists>c. canonical_payload m = Inr c \<and> canonical_payload s = Inr c \<and> task_tag s = Some (hmac_sha256 k c)"
    by (simp add: task_tag_def s dict_get_def update_conv')
next
  fix k :: bytes and m
  assume "length k = 32"
  then show "verify_request (PDict m) k \<longleftrightarrow> (\<exists>c. canonical_payload m = Inr c \<and> task_tag m = Some (hmac_sha256 k c))"
    by (simp only: verify_request_iff simp_thms)
qed (rule task_canon_iff)

section \<open>Properties\<close>

text \<open>
  \<open>sign_request\<close> on every message: a message that is no TASK_REQUEST raises \<open>ValueError\<close>, a TASK_REQUEST
  without one of its four fields raises \<open>KeyError\<close>, and otherwise the signed copy differs from the
  message in the signature field only and passes \<open>verify_request\<close> under the public key, which is all
  of the key pair that signing uses.
\<close>

theorem sign_request_spec:
  assumes "NodeKeyPair a b = Inr kp"
  shows "case sign_request kp m of
      Inl e \<Rightarrow> if dict_get m (u ''type'') \<noteq> PStr MSG_TASK_REQUEST then e = ValueError
               else e = KeyError \<and> \<not> list_all (\<lambda>f. map_of m f \<noteq> None) task_fields
    | Inr s \<Rightarrow> verify_request (PDict s) (kp_public_key kp) \<and> length (kp_public_key kp) = 32 \<and>
        (\<exists>tag. length tag = 32 \<and> s = AList.update (u ''signature'') (PStr (bytes_hex tag)) m) \<and>
        sign_request \<lparr>kp_private_key = [], kp_public_key = kp_public_key kp\<rparr> m = Inr s"
proof -
  have k: "length (kp_public_key kp) = 32"
    using assms by (auto simp: NodeKeyPair_Inr KEY_BYTES_def)
  show ?thesis
  proof (cases "sign_request kp m")
    case (Inl e)
    then have "canonical_payload m = Inl e"
      by (auto simp: sign_request_def Let_def res_simps)
    with Inl show ?thesis
      by (simp add: canonical_payload_errors get_PStr)
  next
    case (Inr s)
    have "verify_request (PDict s) (kp_public_key kp)"
      using Inr k by (intro ts.verify_signed) (simp_all flip: sign_request_public)
    moreover have "\<exists>tag. length tag = 32 \<and> s = AList.update (u ''signature'') (PStr (bytes_hex tag)) m"
      using Inr by (auto simp: sign_request_def Let_def res_simps intro: exI [of _ "hmac_sha256 _ _"])
    ultimately show ?thesis
      using Inr k by (simp flip: sign_request_public)
  qed
qed

definition ex_task :: pydict where
  "ex_task = [(u ''type'', PStr (u ''TASK_REQUEST'')), (u ''sender_id'', PStr (u ''n1'')),
     (u ''task_id'', PStr (u ''t1'')), (u ''payload'', PDict [(u ''fn'', PStr (u ''add''))])]"

definition ex_keypair :: node_key_pair where
  "ex_keypair = \<lparr>kp_private_key = replicate 32 9, kp_public_key = sha256 (replicate 32 9)\<rparr>"

lemma ex_keypair_ok: "NodeKeyPair (replicate 32 9) (sha256 (replicate 32 9)) = Inr ex_keypair"
  by (simp add: NodeKeyPair_Inr KEY_BYTES_def ex_keypair_def)

lemma ex_task_signed: "\<exists>s. sign_request ex_keypair ex_task = Inr s"
  by (simp add: sign_request_def canonical_payload_iff [THEN iffD2] ex_task_def task_fields_def message_types Let_def)

theorem sign_request_spec_witness:
  "\<exists>s. sign_request ex_keypair ex_task = Inr s \<and> verify_request (PDict s) (sha256 (replicate 32 9))"
  using sign_request_spec [OF ex_keypair_ok, of ex_task] ex_task_signed
  by (auto simp: ex_keypair_def)

text \<open>
  \<open>verify_request\<close> never raises and answers \<open>True\<close> exactly for a dictionary and a 32-byte key such that
  the four signed fields are present with type TASK_REQUEST and the signature field is a 64-character
  hex string of the HMAC-SHA256 of the canonical payload.
\<close>

theorem verify_request_exact:
  "verify_request v k \<longleftrightarrow>
     (\<exists>m c s. v = PDict m \<and> length k = 32 \<and> canonical_payload m = Inr c \<and>
        map_of m (u ''signature'') = Some (PStr s) \<and> length s = 64 \<and> fromhex s = Inr (hmac_sha256 k c))"
proof (cases v)
  case (PDict m)
  have "task_tag m = Some t \<longleftrightarrow>
      (\<exists>s. map_of m (u ''signature'') = Some (PStr s) \<and> length s = 64 \<and> fromhex s = Inr t)" for t
    by (cases "map_of m (u ''signature'')"; cases "the (map_of m (u ''signature''))")
      (auto simp: task_tag_def dict_get_def split: sum.splits)
  then show ?thesis
    by (auto simp: PDict verify_request_iff)
qed (simp_all add: verify_request_def verify_inner_def)

text \<open>
  C39. A task request that carries the signature of another request \<open>m\<close> is accepted exactly when its four
  signed fields equal those of \<open>m\<close> (up to the order of dictionary keys), or its canonical payload is
  a different byte string with the same tag under the key: changing the type, sender, task ID or payload
  of a signed request is caught unless HMAC-SHA256 collides.
\<close>

theorem accepted_request_iff:
  assumes "task_ok m" and "task_ok m'" and "NodeKeyPair a b = Inr kp" and "sign_request kp m = Inr s"
    and "dict_get m' (u ''signature'') = dict_get s (u ''signature'')"
  shows "verify_request (PDict m') (kp_public_key kp) \<longleftrightarrow> task_view m' = task_view m \<or>
    (\<exists>c c'. c \<noteq> c' \<and> canonical_payload m = Inr c \<and> canonical_payload m' = Inr c' \<and>
      hmac_sha256 (kp_public_key kp) c = hmac_sha256 (kp_public_key kp) c')"
proof (rule ts.accepted_iff [OF _ assms(1,2)])
  show "length (kp_public_key kp) = 32"
    using assms(3) by (auto simp: NodeKeyPair_Inr KEY_BYTES_def)
  show "sign_request \<lparr>kp_private_key = [], kp_public_key = kp_public_key kp\<rparr> m = Inr s"
    using assms(4) by (simp flip: sign_request_public)
  show "task_tag m' = task_tag s"
    by (simp add: task_tag_def assms(5))
qed

theorem accepted_request_iff_witness:
  "\<exists>s. sign_request ex_keypair ex_task = Inr s \<and>
     verify_request (PDict ((u ''signature'', dict_get s (u ''signature'')) # (u ''extra'', PNone) # ex_task))
       (sha256 (replicate 32 9))"
proof -
  obtain s where s: "sign_request ex_keypair ex_task = Inr s"
    using ex_task_signed by blast
  let ?m' = "(u ''signature'', dict_get s (u ''signature'')) # (u ''extra'', PNone) # ex_task"
  have "task_ok ex_task" "task_ok ?m'" "task_view ?m' = task_view ex_task"
    "dict_get ?m' (u ''signature'') = dict_get s (u ''signature'')"
    by (simp_all add: task_ok_def task_view_def task_fields_def dict_get_def ex_task_def)
  then show ?thesis
    using accepted_request_iff [OF _ _ ex_keypair_ok s, of ?m'] s by (auto simp: ex_keypair_def)
qed

text \<open>
  A node identity made from a non-empty ID and secret and saved to a file is restored by \<open>load\<close> with the
  same ID, signs messages that it and the restored identity verify, and has a 16-character fingerprint;
  an empty ID or secret raises \<open>ValueError\<close>.
\<close>

theorem node_identity_roundtrip:
  "case NodeIdentity n secret of
     Inl e \<Rightarrow> e = ValueError \<and> (n = [] \<or> secret = [])
   | Inr ni \<Rightarrow> ni_load n (Some (ni_save ni)) = Inr ni \<and> length (fingerprint ni) = 16 \<and>
       (\<exists>s. ni_sign ni m = Inr s \<and> ni_verify ni s = Inr True)"
proof -
  have "\<exists>s. sign_message m k = Inr s \<and> verify_message_signature s k = Inr True" for k
    using ms.verify_signed [OF TrueI, where k = k and m = m]
    by (simp add: sign_message_def canonical_bytes_ascii del: json_dumps.simps)
  then show ?thesis
    by (auto simp: NodeIdentity_def ni_load_def ni_save_def fingerprint_def ni_sign_def ni_verify_def)
qed

end
