(* ===== verification/Key_Order.thy ===== *)
theory Key_Order
  imports Py_Float
begin

text \<open>
  \<open>min\<close> and \<open>sorted\<close> with a key function, for keys that are compared with \<open><\<close> only. Floats with a NaN
  among them are not ordered, so the interface of an order is relative to a set of keys (\<open>ok\<close>) on which the
  comparison is a strict weak order. It is provided by the floats without NaN, and by pairs of such a
  float and a text under Python's comparison of tuples.
\<close>

text \<open>
  \<open>sorted(xs, key=key)\<close>: Python's list sort is stable, so for keys that are ordered its result is that
  of inserting the elements from the left, each behind all that are not greater.
\<close>

fun insert_by :: "('k \<Rightarrow> 'k \<Rightarrow> bool) \<Rightarrow> ('a \<Rightarrow> 'k) \<Rightarrow> 'a \<Rightarrow> 'a list \<Rightarrow> 'a list" where
  "insert_by lt key x [] = [x]"
| "insert_by lt key x (y # ys) = (if lt (key x) (key y) then x # y # ys else y # insert_by lt key x ys)"

definition py_sorted :: "('k \<Rightarrow> 'k \<Rightarrow> bool) \<Rightarrow> ('a \<Rightarrow> 'k) \<Rightarrow> 'a list \<Rightarrow> 'a list" where
  "py_sorted lt key xs = foldl (\<lambda>acc x. insert_by lt key x acc) [] xs"

lemma mset_insert_by: "mset (insert_by lt key x ys) = add_mset x (mset ys)"
  by (induction ys) auto

lemma set_insert_by [simp]: "set (insert_by lt key x ys) = insert x (set ys)"
  using arg_cong [OF mset_insert_by, of set_mset lt key x ys] by simp

lemma mset_py_sorted [simp]: "mset (py_sorted lt key xs) = mset xs"
proof -
  have "mset (foldl (\<lambda>acc x. insert_by lt key x acc) acc xs) = mset acc + mset xs" for acc
    by (induction xs arbitrary: acc) (simp_all add: mset_insert_by)
  then show ?thesis by (simp add: py_sorted_def)
qed

locale key_order =
  fixes ok :: "'k \<Rightarrow> bool" and lt :: "'k \<Rightarrow> 'k \<Rightarrow> bool"
  assumes lt_asym: "ok x \<Longrightarrow> ok y \<Longrightarrow> lt x y \<Longrightarrow> \<not> lt y x"
    and not_lt_trans: "ok x \<Longrightarrow> ok y \<Longrightarrow> ok z \<Longrightarrow> \<not> lt y x \<Longrightarrow> \<not> lt z y \<Longrightarrow> \<not> lt z x"
begin

lemma lt_irrefl: "ok x \<Longrightarrow> \<not> lt x x"
  using lt_asym by blast

lemma min_by_least:
  assumes "\<And>y. y \<in> insert x (set xs) \<Longrightarrow> ok (key y)" and "y \<in> insert x (set xs)"
  shows "\<not> lt (key y) (key (min_by lt key x xs))"
  using assms
proof (induction xs arbitrary: x y)
  case Nil
  then show ?case by (simp add: min_by_def lt_irrefl)
next
  case (Cons z zs)
  define b where "b = (if lt (key z) (key x) then z else x)"
  have step: "min_by lt key x (z # zs) = min_by lt key b zs"
    by (simp add: min_by_def b_def)
  have okb: "\<And>w. w \<in> insert b (set zs) \<Longrightarrow> ok (key w)"
    using Cons.prems(1) by (auto simp: b_def split: if_splits)
  have least: "\<not> lt (key w) (key (min_by lt key b zs))" if "w \<in> insert b (set zs)" for w
    by (rule Cons.IH [OF okb that])
  have m: "ok (key (min_by lt key b zs))"
    using okb min_by_in [of lt key b zs] by blast
  have "\<not> lt (key w) (key b)" if "w = x \<or> w = z" for w
    using that Cons.prems(1) lt_irrefl lt_asym by (auto simp: b_def)
  then have "\<not> lt (key w) (key (min_by lt key b zs))" if "w = x \<or> w = z" for w
    using that not_lt_trans [OF m okb Cons.prems(1)] least [of b] by auto
  with least Cons.prems(2) show ?case
    unfolding step by auto
qed

lemma insert_by_sorted:
  assumes "sorted_wrt (\<lambda>x y. \<not> lt (key y) (key x)) ys" and "\<forall>y \<in> set (x # ys). ok (key y)"
  shows "sorted_wrt (\<lambda>x y. \<not> lt (key y) (key x)) (insert_by lt key x ys)"
  using assms
proof (induction ys)
  case (Cons y ys)
  show ?case
  proof (cases "lt (key x) (key y)")
    case True
    then have "\<not> lt (key y) (key x)"
      using Cons.prems(2) lt_asym by auto
    moreover have "\<not> lt (key z) (key x)" if "z \<in> set ys" for z
      using that Cons.prems calculation not_lt_trans [of "key x" "key y" "key z"] by auto
    ultimately show ?thesis
      using True Cons.prems(1) by auto
  qed (use Cons in auto)
qed simp

lemma py_sorted_sorted:
  assumes "\<forall>x \<in> set xs. ok (key x)"
  shows "sorted_wrt (\<lambda>x y. \<not> lt (key y) (key x)) (py_sorted lt key xs)"
proof -
  have "sorted_wrt (\<lambda>x y. \<not> lt (key y) (key x)) (foldl (\<lambda>acc x. insert_by lt key x acc) acc xs)"
    if "sorted_wrt (\<lambda>x y. \<not> lt (key y) (key x)) acc" "\<forall>x \<in> set acc \<union> set xs. ok (key x)" for acc
    using that by (induction xs arbitrary: acc) (auto simp: insert_by_sorted)
  then show ?thesis
    using assms by (simp add: py_sorted_def)
qed

end

interpretation float_order: key_order "\<lambda>x. \<not> is_nan x" flt
proof unfold_locales
  show "\<not> is_nan x \<Longrightarrow> \<not> is_nan y \<Longrightarrow> flt x y \<Longrightarrow> \<not> flt y x" for x y
    using fle_total by (auto simp: flt_iff)
  show "\<not> is_nan x \<Longrightarrow> \<not> is_nan y \<Longrightarrow> \<not> is_nan z \<Longrightarrow> \<not> flt y x \<Longrightarrow> \<not> flt z y \<Longrightarrow> \<not> flt z x" for x y z
    using fle_trans by (auto simp: flt_iff)
qed

end
