(* ===== verification/Load_Selector.thy ===== *)
theory Load_Selector
  imports Protocol Key_Order
begin

text \<open>
  \<open>meshweaver/kademlia/load_selector.py\<close>: load records from the gossip table, the exclusion of malformed,
  local and stale ones, and the choice of the least loaded peer. \<open>str(x)\<close> of a record's \<open>node_id\<close> is
  an argument (\<open>py_str\<close>): the properties hold for any such function. The clock reading is an argument.
\<close>

record load_entry =
  le_node_id :: pystr
  le_cpu_percent :: pyfloat
  le_ram_percent :: pyfloat
  le_timestamp :: pyfloat

text \<open>\<open>data[k]\<close> of a raw record; only a dictionary has string keys.\<close>

definition raw_item :: "pyval \<Rightarrow> pystr \<Rightarrow> pyval res" where
  "raw_item data k = (case data of PDict d \<Rightarrow> dict_item d k | _ \<Rightarrow> Inl TypeError)"

definition from_dict :: "(pyval \<Rightarrow> pystr) \<Rightarrow> pyval \<Rightarrow> load_entry res" where
  "from_dict py_str data =
     and_then (raw_item data (u ''node_id'')) (\<lambda>n.
     and_then (and_then (raw_item data (u ''cpu_percent'')) py_float) (\<lambda>cpu.
     and_then (and_then (raw_item data (u ''ram_percent'')) py_float) (\<lambda>ram.
     and_then (and_then (raw_item data (u ''timestamp'')) py_float) (\<lambda>ts.
       Inr \<lparr>le_node_id = py_str n, le_cpu_percent = cpu, le_ram_percent = ram, le_timestamp = ts\<rparr>))))"

definition age :: "load_entry \<Rightarrow> pyfloat \<Rightarrow> pyfloat" where
  "age e now = fsub now (le_timestamp e)"

record selection_result =
  sr_winner :: "load_entry option"
  sr_candidates :: "load_entry list"
  sr_excluded_stale :: nat
  sr_excluded_local :: nat

definition has_winner :: "selection_result \<Rightarrow> bool" where
  "has_winner r \<longleftrightarrow> sr_winner r \<noteq> None"

record load_selector =
  ls_local_node_id :: pystr
  ls_stale_after :: pyfloat

definition DEFAULT_STALE_AFTER :: pyfloat where
  "DEFAULT_STALE_AFTER = FFin 30"

definition LoadSelector :: "pystr \<Rightarrow> pyfloat \<Rightarrow> load_selector res" where
  "LoadSelector local_node_id stale_after =
     (if local_node_id = [] then Inl ValueError
      else if fle stale_after (FFin 0) then Inl ValueError
      else Inr \<lparr>ls_local_node_id = local_node_id, ls_stale_after = stale_after\<rparr>)"

text \<open>The loop over the table: the candidates in order and the two counters.\<close>

fun select_loop ::
    "(pyval \<Rightarrow> pystr) \<Rightarrow> load_selector \<Rightarrow> pyfloat \<Rightarrow> ('k \<times> pyval) list \<Rightarrow> (load_entry list \<times> nat \<times> nat) res" where
  "select_loop py_str ls now [] = Inr ([], 0, 0)"
| "select_loop py_str ls now ((key, raw) # table) =
     (case from_dict py_str raw of
        Inl e \<Rightarrow>
          if is_ValueError e \<or> e = KeyError \<or> e = TypeError then select_loop py_str ls now table else Inl e
      | Inr entry \<Rightarrow>
          if le_node_id entry = ls_local_node_id ls then
            and_then (select_loop py_str ls now table) (\<lambda>(cs, st, lo). Inr (cs, st, Suc lo))
          else if fle (ls_stale_after ls) (age entry now) then
            and_then (select_loop py_str ls now table) (\<lambda>(cs, st, lo). Inr (cs, Suc st, lo))
          else and_then (select_loop py_str ls now table) (\<lambda>(cs, st, lo). Inr (entry # cs, st, lo)))"

definition pick_winner :: "load_entry list \<Rightarrow> load_entry option" where
  "pick_winner candidates =
     (case candidates of [] \<Rightarrow> None | c # cs \<Rightarrow> Some (min_by flt le_cpu_percent c cs))"

definition select :: "(pyval \<Rightarrow> pystr) \<Rightarrow> load_selector \<Rightarrow> ('k \<times> pyval) list \<Rightarrow> pyfloat \<Rightarrow> selection_result res" where
  "select py_str ls peer_table now =
     and_then (select_loop py_str ls now peer_table) (\<lambda>(candidates, stale, loc).
       Inr \<lparr>sr_winner = pick_winner candidates, sr_candidates = candidates,
            sr_excluded_stale = stale, sr_excluded_local = loc\<rparr>)"

definition sort_by_cpu :: "load_entry list \<Rightarrow> load_entry list" where
  "sort_by_cpu es = py_sorted flt le_cpu_percent es"

definition filter_candidates ::
    "(pyval \<Rightarrow> pystr) \<Rightarrow> load_selector \<Rightarrow> ('k \<times> pyval) list \<Rightarrow> pyfloat \<Rightarrow> load_entry list res" where
  "filter_candidates py_str ls peer_table now =
     and_then (select py_str ls peer_table now) (\<lambda>r. Inr (sort_by_cpu (sr_candidates r)))"

section \<open>The loop\<close>

text \<open>The entries a table offers: the parsed records, in the order of the table.\<close>

definition entries :: "(pyval \<Rightarrow> pystr) \<Rightarrow> ('k \<times> pyval) list \<Rightarrow> load_entry list" where
  "entries py_str table = List.map_filter (\<lambda>kr. case from_dict py_str (snd kr) of Inr e \<Rightarrow> Some e | Inl _ \<Rightarrow> None) table"

definition eligible :: "load_selector \<Rightarrow> pyfloat \<Rightarrow> load_entry \<Rightarrow> bool" where
  "eligible ls now e \<longleftrightarrow> le_node_id e \<noteq> ls_local_node_id ls \<and> \<not> fle (ls_stale_after ls) (age e now)"

text \<open>No number in the table is an integer out of the range of floats.\<close>

definition floats_in_range :: "(pyval \<Rightarrow> pystr) \<Rightarrow> ('k \<times> pyval) list \<Rightarrow> bool" where
  "floats_in_range py_str table \<longleftrightarrow> list_all (\<lambda>kr. from_dict py_str (snd kr) \<noteq> Inl OverflowError) table"

lemma from_dict_raises: "from_dict py_str v = Inl e \<Longrightarrow> e \<in> {KeyError, TypeError, ValueError, OverflowError}"
proof -
  have "raw_item v k = Inl e \<Longrightarrow> e \<in> {KeyError, TypeError}" for k
    by (cases v) (auto simp: raw_item_def dict_item_def split: option.splits)
  then show "from_dict py_str v = Inl e \<Longrightarrow> e \<in> {KeyError, TypeError, ValueError, OverflowError}"
    by (auto simp: from_dict_def res_simps dest: py_float_raises)
qed

lemma select_loop_spec:
  assumes "floats_in_range py_str table"
  shows "select_loop py_str ls now table =
    (let es = entries py_str table in
     Inr (filter (eligible ls now) es,
          length (filter (\<lambda>e. le_node_id e \<noteq> ls_local_node_id ls \<and> fle (ls_stale_after ls) (age e now)) es),
          length (filter (\<lambda>e. le_node_id e = ls_local_node_id ls) es)))"
  using assms
proof (induction table)
  case Nil
  then show ?case by (simp add: entries_def)
next
  case (Cons kr table)
  obtain k raw where kr: "kr = (k, raw)" by fastforce
  have IH: "select_loop py_str ls now table =
    (let es = entries py_str table in
     Inr (filter (eligible ls now) es,
          length (filter (\<lambda>e. le_node_id e \<noteq> ls_local_node_id ls \<and> fle (ls_stale_after ls) (age e now)) es),
          length (filter (\<lambda>e. le_node_id e = ls_local_node_id ls) es)))"
    using Cons by (simp add: floats_in_range_def)
  show ?case
  proof (cases "from_dict py_str raw")
    case (Inl e)
    then have "is_ValueError e \<or> e = KeyError \<or> e = TypeError"
      using from_dict_raises [OF Inl] Cons.prems by (auto simp: floats_in_range_def kr)
    with Inl IH show ?thesis
      by (simp add: kr entries_def)
  next
    case (Inr e)
    with IH show ?thesis
      by (simp add: kr entries_def eligible_def [of ls now e] Let_def)
  qed
qed

lemma select_loop_overflow:
  "\<not> floats_in_range py_str table \<Longrightarrow> select_loop py_str ls now table = Inl OverflowError"
proof (induction table)
  case (Cons kr table)
  obtain k raw where kr: "kr = (k, raw)" by fastforce
  show ?case
  proof (cases "from_dict py_str raw")
    case (Inl e)
    then show ?thesis
      using Cons from_dict_raises [OF Inl] by (auto simp: kr floats_in_range_def)
  next
    case (Inr e)
    then show ?thesis
      using Cons by (simp add: kr floats_in_range_def)
  qed
qed (simp add: floats_in_range_def)

lemma pick_winner_spec:
  assumes "\<forall>e \<in> set cs. \<not> is_nan (le_cpu_percent e)"
  shows "case pick_winner cs of None \<Rightarrow> cs = []
    | Some w \<Rightarrow> w \<in> set cs \<and> (\<forall>e \<in> set cs. fle (le_cpu_percent w) (le_cpu_percent e))"
proof (cases cs)
  case (Cons x xs)
  then show ?thesis
    using assms min_by_in [of flt le_cpu_percent x xs] float_order.min_by_least [of x xs le_cpu_percent]
    by (auto simp: pick_winner_def not_flt_iff)
qed (simp add: pick_winner_def)

lemma sort_by_cpu_sorted:
  assumes "\<forall>e \<in> set es. \<not> is_nan (le_cpu_percent e)"
  shows "sorted_wrt (\<lambda>e f. fle (le_cpu_percent e) (le_cpu_percent f)) (sort_by_cpu es)"
proof -
  have "set (sort_by_cpu es) = set es"
    by (metis mset_py_sorted set_mset_mset sort_by_cpu_def)
  then show ?thesis
    using float_order.py_sorted_sorted [OF assms] assms
    by (auto simp: sort_by_cpu_def not_flt_iff elim!: sorted_wrt_mono_rel [rotated])
qed

lemma select_in_range:
  assumes "floats_in_range py_str table"
  shows "\<exists>r. select py_str ls table now = Inr r \<and> sr_candidates r = filter (eligible ls now) (entries py_str table) \<and>
    length (entries py_str table) = length (sr_candidates r) + sr_excluded_stale r + sr_excluded_local r \<and>
    ((\<forall>e \<in> set (sr_candidates r). \<not> is_nan (le_cpu_percent e)) \<longrightarrow>
      (case sr_winner r of None \<Rightarrow> sr_candidates r = []
       | Some w \<Rightarrow> w \<in> set (sr_candidates r) \<and> (\<forall>e \<in> set (sr_candidates r). fle (le_cpu_percent w) (le_cpu_percent e))))"
proof -
  define es where "es = entries py_str table"
  define cs where "cs = filter (eligible ls now) es"
  define st where "st = length (filter (\<lambda>e. le_node_id e \<noteq> ls_local_node_id ls \<and> fle (ls_stale_after ls) (age e now)) es)"
  define lo where "lo = length (filter (\<lambda>e. le_node_id e = ls_local_node_id ls) es)"
  have count: "length es = length cs + st + lo"
    unfolding cs_def st_def lo_def by (induction es) (auto simp: eligible_def)
  have "select py_str ls table now
      = Inr \<lparr>sr_winner = pick_winner cs, sr_candidates = cs, sr_excluded_stale = st, sr_excluded_local = lo\<rparr>"
    using select_loop_spec [OF assms, of ls now] unfolding select_def Let_def
    by (simp add: cs_def st_def lo_def es_def)
  then show ?thesis
    using count pick_winner_spec [of cs] by (cases "pick_winner cs") (simp_all flip: es_def cs_def)
qed

lemma select_out_of_range: "\<not> floats_in_range py_str table \<Longrightarrow> select py_str ls table now = Inl OverflowError"
  by (simp add: select_def select_loop_overflow)

section \<open>Properties\<close>

text \<open>
  C24. \<open>select\<close> on any gossip table: the candidates are the well-formed records of other nodes whose age is
  below the threshold, in table order; stale and local records are counted, each well-formed record
  exactly once; and if no candidate's load is NaN the winner is a candidate with the least CPU load,
  absent only when there is no candidate. It raises only when a record holds an integer too large for
  a float, and then \<open>OverflowError\<close>.
\<close>

theorem select_spec:
  "case select py_str ls table now of
     Inl e \<Rightarrow> e = OverflowError \<and> \<not> floats_in_range py_str table
   | Inr r \<Rightarrow> floats_in_range py_str table \<and>
       sr_candidates r = filter (eligible ls now) (entries py_str table) \<and>
       length (entries py_str table) = length (sr_candidates r) + sr_excluded_stale r + sr_excluded_local r \<and>
       ((\<forall>e \<in> set (sr_candidates r). \<not> is_nan (le_cpu_percent e)) \<longrightarrow>
          (case sr_winner r of None \<Rightarrow> sr_candidates r = []
           | Some w \<Rightarrow> w \<in> set (sr_candidates r) \<and> (\<forall>e \<in> set (sr_candidates r). fle (le_cpu_percent w) (le_cpu_percent e))))"
proof (cases "floats_in_range py_str table")
  case True
  with select_in_range [OF True, of ls now] show ?thesis by (elim exE conjE) simp
qed (simp add: select_out_of_range)

definition ex_table_entry :: "string \<Rightarrow> int \<Rightarrow> pyval" where
  "ex_table_entry n cpu = PDict [(u ''node_id'', PStr (u n)), (u ''cpu_percent'', PFloat (FFin (of_int cpu))),
     (u ''ram_percent'', PFloat (FFin 1)), (u ''timestamp'', PFloat (FFin 100))]"

definition ex_gossip_table :: "(pystr \<times> pyval) list" where
  "ex_gossip_table = [(u ''a'', ex_table_entry ''a'' 20), (u ''me'', ex_table_entry ''me'' 1), (u ''b'', ex_table_entry ''b'' 10),
     (u ''x'', PNone)]"

definition ex_selector :: load_selector where
  "ex_selector = \<lparr>ls_local_node_id = u ''me'', ls_stale_after = FFin 30\<rparr>"

definition ex_str :: "pyval \<Rightarrow> pystr" where
  "ex_str v = (case v of PStr s \<Rightarrow> s | _ \<Rightarrow> [])"

lemma ex_age: "fsub (FFin 100) (FFin 100) = FFin 0"
  by (simp add: fval_def round64_def)

theorem select_spec_witness:
  "\<exists>r w. select ex_str ex_selector ex_gossip_table (FFin 100) = Inr r \<and> sr_winner r = Some w \<and>
     le_node_id w = u ''b'' \<and> sr_excluded_local r = 1 \<and>
     fle (le_cpu_percent w) (FFin 20)"
proof -
  have sel: "select ex_str ex_selector ex_gossip_table (FFin 100) = Inr
     \<lparr>sr_winner = Some \<lparr>le_node_id = u ''b'', le_cpu_percent = FFin 10, le_ram_percent = FFin 1, le_timestamp = FFin 100\<rparr>,
      sr_candidates = [\<lparr>le_node_id = u ''a'', le_cpu_percent = FFin 20, le_ram_percent = FFin 1, le_timestamp = FFin 100\<rparr>,
        \<lparr>le_node_id = u ''b'', le_cpu_percent = FFin 10, le_ram_percent = FFin 1, le_timestamp = FFin 100\<rparr>],
      sr_excluded_stale = 0, sr_excluded_local = 1\<rparr>"
    by (simp add: select_def ex_gossip_table_def ex_table_entry_def ex_selector_def ex_str_def from_dict_def raw_item_def
        dict_item_def py_float_def age_def ex_age pick_winner_def min_by_def fval_def del: fsub.simps)
  show ?thesis
    using select_spec [where py_str = ex_str and ls = ex_selector and table = ex_gossip_table and now = "FFin 100"] unfolding sel by (simp add: is_nan_def)
qed

text \<open>
  \<open>filter_candidates\<close> returns, for loads without NaN, exactly the candidates of \<open>select\<close> (with
  multiplicity), in ascending order of CPU load.
\<close>

theorem filter_candidates_sorted:
  assumes "select py_str ls table now = Inr r" and "\<forall>e \<in> set (sr_candidates r). \<not> is_nan (le_cpu_percent e)"
  shows "\<exists>es. filter_candidates py_str ls table now = Inr es \<and> mset es = mset (sr_candidates r) \<and>
    sorted_wrt (\<lambda>e f. fle (le_cpu_percent e) (le_cpu_percent f)) es"
  using sort_by_cpu_sorted [OF assms(2)] assms(1)
  by (simp add: filter_candidates_def sort_by_cpu_def)

theorem filter_candidates_sorted_witness:
  "\<exists>es. filter_candidates ex_str ex_selector [(u ''a'', ex_table_entry ''a'' 20), (u ''b'', ex_table_entry ''b'' 10)] (FFin 100) = Inr es \<and>
     sorted_wrt (\<lambda>e f. fle (le_cpu_percent e) (le_cpu_percent f)) es \<and> length es = 2"
proof -
  let ?cs = "[\<lparr>le_node_id = u ''a'', le_cpu_percent = FFin 20, le_ram_percent = FFin 1, le_timestamp = FFin 100\<rparr>,
        \<lparr>le_node_id = u ''b'', le_cpu_percent = FFin 10, le_ram_percent = FFin 1, le_timestamp = FFin 100\<rparr>]"
  have sel: "select ex_str ex_selector [(u ''a'', ex_table_entry ''a'' 20), (u ''b'', ex_table_entry ''b'' 10)] (FFin 100)
      = Inr \<lparr>sr_winner = Some (?cs ! 1), sr_candidates = ?cs, sr_excluded_stale = 0, sr_excluded_local = 0\<rparr>"
    by (simp add: select_def ex_table_entry_def ex_selector_def ex_str_def from_dict_def raw_item_def
        dict_item_def py_float_def age_def ex_age pick_winner_def min_by_def fval_def del: fsub.simps)
  obtain es where "filter_candidates ex_str ex_selector [(u ''a'', ex_table_entry ''a'' 20), (u ''b'', ex_table_entry ''b'' 10)] (FFin 100) = Inr es"
    "mset es = mset ?cs" "sorted_wrt (\<lambda>e f. fle (le_cpu_percent e) (le_cpu_percent f)) es"
    using filter_candidates_sorted [OF sel] by (auto simp: is_nan_def)
  moreover from this(2) have "length es = 2"
    by (metis (no_types, lifting) length_Cons list.size(3) mset_eq_length numeral_2_eq_2)
  ultimately show ?thesis by blast
qed

end
