(* ===== verification/Dht.thy ===== *)
theory Dht
  imports Py_Convert Key_Order Sha256 Node_Id
begin

text \<open>
  \<open>meshweaver/routing.py\<close> and \<open>meshweaver/dht.py\<close>: the choice of the live peer with the lowest load and
  the table of peers keyed by node ID. A load is any value (\<open>pyval\<close>), because the code converts it with
  \<open>float\<close> where it compares loads; the conversion may raise. Peers are compared by the pair of load and
  node ID, which is Python's comparison of tuples: the first component that differs decides.
\<close>

section \<open>Selecting the lowest load\<close>

record peer_load =
  pl_node_id :: pystr
  pl_cpu_load :: pyval
  pl_host :: pystr
  pl_port :: int
  pl_state :: pystr
  pl_last_seen :: pyfloat

text \<open>\<open>x == y\<close> on floats: the two zeros are equal, a NaN equals nothing.\<close>

definition feq :: "pyfloat \<Rightarrow> pyfloat \<Rightarrow> bool" where
  "feq x y \<longleftrightarrow> fle x y \<and> fle y x"

fun load_key_lt :: "pyfloat \<times> pystr \<Rightarrow> pyfloat \<times> pystr \<Rightarrow> bool" where
  "load_key_lt (x, a) (y, b) = (if feq x y then a < b else flt x y)"

definition load_key :: "peer_load \<Rightarrow> (pyfloat \<times> pystr) res" where
  "load_key p = and_then (py_float (pl_cpu_load p)) (\<lambda>x. Inr (x, pl_node_id p))"

definition is_available :: "pystr option \<Rightarrow> peer_load \<Rightarrow> bool" where
  "is_available source_node p \<longleftrightarrow>
     pl_state p = u ''ALIVE'' \<and> (source_node = None \<or> pl_node_id p \<noteq> the source_node)"

definition select_lowest_load :: "peer_load list \<Rightarrow> pystr option \<Rightarrow> peer_load option res" where
  "select_lowest_load peers source_node =
     and_then (map_res (\<lambda>p. and_then (load_key p) (\<lambda>k. Inr (k, p))) (filter (is_available source_node) peers))
       (\<lambda>kps. Inr (case kps of [] \<Rightarrow> None | kp # rest \<Rightarrow> Some (snd (min_by load_key_lt fst kp rest))))"

section \<open>The peer table\<close>

record peer_info =
  pi_node_id :: pystr
  pi_host :: pystr
  pi_port :: int
  pi_cpu_load :: pyval
  pi_ram_percent :: pyval
  pi_state :: pystr
  pi_last_seen :: pyfloat

type_synonym peer_table = "(pystr \<times> peer_info) list"

definition PeerTable :: peer_table where
  "PeerTable = []"

definition upsert :: "peer_table \<Rightarrow> peer_info \<Rightarrow> peer_table" where
  "upsert t peer = AList.update (pi_node_id peer) peer t"

definition pt_remove :: "peer_table \<Rightarrow> pystr \<Rightarrow> peer_table" where
  "pt_remove t node_id = AList.delete node_id t"

definition pt_available :: "peer_table \<Rightarrow> pystr option \<Rightarrow> peer_info list" where
  "pt_available t source_node =
     filter (\<lambda>p. pi_state p = u ''ALIVE'' \<and> Some (pi_node_id p) \<noteq> source_node) (map snd t)"

definition info_load :: "peer_info \<Rightarrow> peer_load" where
  "info_load p = \<lparr>pl_node_id = pi_node_id p, pl_cpu_load = pi_cpu_load p, pl_host = pi_host p, pl_port = pi_port p,
     pl_state = pi_state p, pl_last_seen = pi_last_seen p\<rparr>"

definition lowest_load :: "peer_table \<Rightarrow> pystr option \<Rightarrow> peer_load option res" where
  "lowest_load t source_node = select_lowest_load (map (\<lambda>kp. info_load (snd kp)) t) source_node"

definition node_hash :: "pystr \<Rightarrow> nat res" where
  "node_hash node_id = and_then (utf8_encode node_id) (\<lambda>bs. Inr (from_bytes_big (sha256 bs)))"

text \<open>\<open>xs[:k]\<close>: a negative \<open>k\<close> counts from the end.\<close>

definition slice_to :: "int \<Rightarrow> 'a list \<Rightarrow> 'a list" where
  "slice_to k xs = (if 0 \<le> k then take (nat k) xs else take (length xs - nat (- k)) xs)"

definition pt_find_closest :: "peer_table \<Rightarrow> pystr \<Rightarrow> int \<Rightarrow> peer_info list res" where
  "pt_find_closest t target_node_id k =
     and_then (node_hash target_node_id) (\<lambda>target.
     and_then (map_res (\<lambda>p. and_then (node_hash (pi_node_id p)) (\<lambda>h. Inr (h XOR target, p))) (map snd t))
       (\<lambda>dps. Inr (slice_to k (map snd (sort_key fst dps)))))"

section \<open>The order of loads\<close>

lemma fle_cases: "\<not> is_nan x \<Longrightarrow> \<not> is_nan y \<Longrightarrow> \<not> fle x y \<Longrightarrow> fle y x"
  using fle_total by blast

interpretation load_order: key_order "\<lambda>k. \<not> is_nan (fst k)" load_key_lt
proof unfold_locales
  fix k l m :: "pyfloat \<times> pystr"
  assume k: "\<not> is_nan (fst k)" and l: "\<not> is_nan (fst l)"
  obtain x a y b z c where kl [simp]: "k = (x, a)" "l = (y, b)" "m = (z, c)" by (metis surj_pair)
  show "load_key_lt k l \<Longrightarrow> \<not> load_key_lt l k"
    using k l fle_total [of x y] by (auto simp: feq_def flt_iff split: if_splits)
  assume m: "\<not> is_nan (fst m)" and nlk: "\<not> load_key_lt l k" and nml: "\<not> load_key_lt m l"
  have xy: "fle x y" and yz: "fle y z"
    using k l m nlk nml by (auto simp: feq_def flt_iff split: if_splits)
  then have xz: "fle x z" by (rule fle_trans)
  have "fle y x \<and> fle z y" if "fle z x"
    using that xy yz fle_trans by blast
  then show "\<not> load_key_lt m k"
    using k l m nlk nml xy yz xz by (auto simp: feq_def flt_iff split: if_splits)
qed

lemma load_key_lt_total:
  assumes "\<not> is_nan (fst k)" and "\<not> is_nan (fst l)" and "snd k \<noteq> snd l"
  shows "load_key_lt k l \<or> load_key_lt l k"
  using assms fle_total [of "fst k" "fst l"]
  by (cases k; cases l) (auto simp: feq_def flt_iff)

lemma select_lowest_load_spec:
  assumes key: "\<And>p. p \<in> set peers \<Longrightarrow> is_available src p \<Longrightarrow> load_key p = Inr (key p) \<and> \<not> is_nan (fst (key p))"
  shows "\<exists>r. select_lowest_load peers src = Inr r \<and>
    (case r of None \<Rightarrow> filter (is_available src) peers = []
     | Some w \<Rightarrow> w \<in> set (filter (is_available src) peers) \<and>
         (\<forall>p \<in> set (filter (is_available src) peers). \<not> load_key_lt (key p) (key w)))"
proof -
  define ps where "ps = filter (is_available src) peers"
  have keys: "map_res (\<lambda>p. and_then (load_key p) (\<lambda>k. Inr (k, p))) ps = Inr (map (\<lambda>p. (key p, p)) ps)"
    using key by (intro map_res_InrI) (auto simp: ps_def)
  show ?thesis
  proof (cases ps)
    case Nil
    then show ?thesis by (simp add: select_lowest_load_def ps_def)
  next
    case (Cons p qs)
    let ?w = "min_by load_key_lt fst (key p, p) (map (\<lambda>p. (key p, p)) qs)"
    have "?w \<in> insert (key p, p) (set (map (\<lambda>p. (key p, p)) qs))"
      by (rule min_by_in)
    then have w: "snd ?w \<in> set ps" "fst ?w = key (snd ?w)"
      by (auto simp: Cons)
    have "\<not> is_nan (fst (key q))" if "q \<in> set ps" for q
      using that key by (auto simp: ps_def)
    then have nan: "\<not> is_nan (fst (fst kp))" if "kp \<in> insert (key p, p) (set (map (\<lambda>p. (key p, p)) qs))" for kp
      using that by (auto simp: Cons)
    have "\<not> load_key_lt (key q) (key (snd ?w))" if "q \<in> set ps" for q
      using load_order.min_by_least [of "(key p, p)" "map (\<lambda>p. (key p, p)) qs" fst "(key q, q)"] nan that w(2)
      by (auto simp: Cons)
    moreover have "select_lowest_load peers src = Inr (Some (snd ?w))"
      using keys by (simp add: select_lowest_load_def Cons flip: ps_def)
    ultimately show ?thesis
      using w(1) by (auto simp flip: ps_def)
  qed
qed

section \<open>Reachable tables\<close>

inductive pt_reachable :: "peer_table \<Rightarrow> bool" where
  pt_new: "pt_reachable PeerTable"
| pt_upsert: "pt_reachable t \<Longrightarrow> pt_reachable (upsert t p)"
| pt_drop: "pt_reachable t \<Longrightarrow> pt_reachable (pt_remove t n)"

lemma pt_reachable_keys:
  "pt_reachable t \<Longrightarrow> distinct (map fst t) \<and> (\<forall>(n, p) \<in> set t. n = pi_node_id p)"
proof (induction rule: pt_reachable.induct)
  case (pt_upsert t p)
  then show ?case
    using set_update_subset [of "pi_node_id p" p t] by (fastforce simp: upsert_def distinct_update)
next
  case (pt_drop t n)
  then show ?case
    using set_delete_subset [of n t] by (fastforce simp: pt_remove_def distinct_delete)
qed (simp add: PeerTable_def)

lemma pt_ids_distinct:
  assumes "pt_reachable t"
  shows "distinct (map pi_node_id (map snd t))"
proof -
  have "map pi_node_id (map snd t) = map fst t"
    using pt_reachable_keys [OF assms] by auto
  then show ?thesis
    using pt_reachable_keys [OF assms] by (simp only:)
qed

lemma pt_available_filter:
  "map info_load (pt_available t src) = filter (is_available src) (map (\<lambda>kp. info_load (snd kp)) t)"
  by (induction t) (auto simp: pt_available_def is_available_def info_load_def)

section \<open>An example\<close>

definition ex_info :: "string \<Rightarrow> int \<Rightarrow> string \<Rightarrow> peer_info" where
  "ex_info n load st = \<lparr>pi_node_id = u n, pi_host = u ''127.0.0.1'', pi_port = 9000, pi_cpu_load = PFloat (FFin (of_int load)),
     pi_ram_percent = PInt 0, pi_state = u st, pi_last_seen = FFin 0\<rparr>"

definition ex_peer_table :: peer_table where
  "ex_peer_table = pt_remove (upsert (upsert (upsert (upsert (upsert PeerTable
     (ex_info ''d'' 1 ''ALIVE'')) (ex_info ''a'' 5 ''ALIVE'')) (ex_info ''b'' 3 ''OFFLINE'')) (ex_info ''c'' 5 ''ALIVE''))
     (ex_info ''me'' 0 ''ALIVE'')) (u ''d'')"

lemma ex_peer_table_items:
  "ex_peer_table = [(u ''a'', ex_info ''a'' 5 ''ALIVE''), (u ''b'', ex_info ''b'' 3 ''OFFLINE''), (u ''c'', ex_info ''c'' 5 ''ALIVE''),
     (u ''me'', ex_info ''me'' 0 ''ALIVE'')]"
  by (simp add: ex_peer_table_def PeerTable_def upsert_def pt_remove_def ex_info_def)

lemma ex_peer_table_reachable: "pt_reachable ex_peer_table"
  unfolding ex_peer_table_def by (intro pt_reachable.intros)

section \<open>Properties\<close>

lemma lowest_load_least:
  assumes "pt_reachable t"
    and "\<forall>p \<in> set (pt_available t src). py_float (pi_cpu_load p) = Inr (load p) \<and> \<not> is_nan (load p)"
  shows "case lowest_load t src of
      Inl e \<Rightarrow> False
    | Inr None \<Rightarrow> pt_available t src = []
    | Inr (Some w) \<Rightarrow> (\<exists>p \<in> set (pt_available t src). w = info_load p \<and>
        (\<forall>q \<in> set (pt_available t src). q \<noteq> p \<longrightarrow>
           load_key_lt (load p, pi_node_id p) (load q, pi_node_id q)))"
proof -
  let ?ps = "pt_available t src" and ?key = "\<lambda>l. (projr (py_float (pl_cpu_load l)), pl_node_id l)"
  have key: "?key (info_load p) = (load p, pi_node_id p)" if "p \<in> set ?ps" for p
    using that assms(2) by (simp add: info_load_def)
  have "load_key l = Inr (?key l) \<and> \<not> is_nan (fst (?key l))" if "l \<in> info_load ` set ?ps" for l
    using that assms(2) by (auto simp: load_key_def info_load_def)
  then have "load_key l = Inr (?key l) \<and> \<not> is_nan (fst (?key l))"
    if "l \<in> set (map (\<lambda>kp. info_load (snd kp)) t)" "is_available src l" for l
    using that arg_cong [OF pt_available_filter, of set t src] by auto
  from select_lowest_load_spec [of "map (\<lambda>kp. info_load (snd kp)) t" src ?key, OF this]
  obtain r where r: "lowest_load t src = Inr r"
    and spec: "case r of None \<Rightarrow> ?ps = [] | Some w \<Rightarrow> w \<in> info_load ` set ?ps \<and>
      (\<forall>l \<in> info_load ` set ?ps. \<not> load_key_lt (?key l) (?key w))"
    unfolding lowest_load_def pt_available_filter [symmetric] by (auto simp only: list.map_disc_iff set_map)
  have "load_key_lt (load p, pi_node_id p) (load q, pi_node_id q)"
    if "\<not> load_key_lt (load q, pi_node_id q) (load p, pi_node_id p)" "p \<in> set ?ps" "q \<in> set ?ps" "q \<noteq> p" for p q
  proof -
    have "inj_on pi_node_id (set (map snd t))"
      using pt_ids_distinct [OF assms(1)] by (simp only: distinct_map [of pi_node_id])
    moreover have "set ?ps \<subseteq> set (map snd t)"
      by (auto simp: pt_available_def)
    ultimately have "pi_node_id p \<noteq> pi_node_id q"
      using that(2-4) by (blast dest: inj_onD)
    then show ?thesis
      using load_key_lt_total [of "(load p, pi_node_id p)" "(load q, pi_node_id q)"] that assms(2) by auto
  qed
  then have "\<exists>p \<in> set ?ps. w = info_load p \<and>
      (\<forall>q \<in> set ?ps. q \<noteq> p \<longrightarrow> load_key_lt (load p, pi_node_id p) (load q, pi_node_id q))"
    if "w \<in> info_load ` set ?ps" "\<forall>l \<in> info_load ` set ?ps. \<not> load_key_lt (?key l) (?key w)" for w
    using that key by (auto simp del: load_key_lt.simps)
  with r spec show ?thesis
    by (auto simp del: load_key_lt.simps split: option.splits)
qed

text \<open>
  In a reachable table whose loads convert to floats other than NaN, \<open>lowest_load\<close> finds no peer exactly
  when no live peer other than the source is known, and otherwise returns the one live peer other than the
  source that is strictly below every other one in load, equal loads being decided by the node ID: the
  answer does not depend on the order in which the peers were inserted.
\<close>

theorem lowest_load_spec:
  assumes "pt_reachable t"
    and "\<forall>p \<in> set (pt_available t src). py_float (pi_cpu_load p) = Inr (load p) \<and> \<not> is_nan (load p)"
  shows "case lowest_load t src of
      Inl e \<Rightarrow> False
    | Inr None \<Rightarrow> pt_available t src = []
    | Inr (Some w) \<Rightarrow> (\<exists>p \<in> set (pt_available t src). w = info_load p \<and>
        (\<forall>q \<in> set (pt_available t src). q \<noteq> p \<longrightarrow>
           load_key_lt (load p, pi_node_id p) (load q, pi_node_id q)))"
  by (rule lowest_load_least [OF assms])

theorem lowest_load_spec_witness:
  "\<exists>w. lowest_load ex_peer_table (Some (u ''me'')) = Inr (Some w) \<and> w = info_load (ex_info ''a'' 5 ''ALIVE'')"
proof -
  have av: "pt_available ex_peer_table (Some (u ''me'')) = [ex_info ''a'' 5 ''ALIVE'', ex_info ''c'' 5 ''ALIVE'']"
    by (simp add: ex_peer_table_items pt_available_def ex_info_def)
  have load: "\<forall>p \<in> set (pt_available ex_peer_table (Some (u ''me''))).
      py_float (pi_cpu_load p) = Inr (FFin 5) \<and> \<not> is_nan (FFin 5)"
    by (simp add: av ex_info_def py_float_def is_nan_def)
  have "\<not> load_key_lt (FFin 5, u ''c'') (FFin 5, u ''a'')" and "pi_node_id (ex_info n l st) = u n" for n l st
    by (simp_all add: feq_def u_def ex_info_def)
  then show ?thesis
    using lowest_load_spec [OF ex_peer_table_reachable load]
    by (auto simp: av simp del: load_key_lt.simps split: sum.splits option.splits)
qed

text \<open>
  In a reachable table whose node IDs can be encoded, \<open>find_closest\<close> with \<open>k \<ge> 0\<close> returns \<open>k\<close> different peers
  of the table (all of them when there are fewer) in ascending XOR distance of the hashes, and no peer
  left out is nearer to the target than one returned.
\<close>

theorem pt_find_closest_spec:
  assumes "pt_reachable t" and "node_hash target = Inr d" and "0 \<le> k"
    and "\<forall>p \<in> snd ` set t. node_hash (pi_node_id p) = Inr (h p)"
  shows "\<exists>ps. pt_find_closest t target k = Inr ps \<and> distinct ps \<and> set ps \<subseteq> snd ` set t \<and>
    length ps = min (nat k) (length t) \<and> sorted (map (\<lambda>p. h p XOR d) ps) \<and>
    (\<forall>p \<in> set ps. \<forall>q \<in> snd ` set t - set ps. h p XOR d \<le> h q XOR d)"
proof -
  let ?f = "\<lambda>p. h p XOR d" and ?vs = "map snd t"
  let ?ps = "take (nat k) (sort_key ?f ?vs)"
  have "map_res (\<lambda>p. and_then (node_hash (pi_node_id p)) (\<lambda>h. Inr (h XOR d, p))) ?vs = Inr (map (\<lambda>p. (?f p, p)) ?vs)"
    by (rule map_res_InrI) (use assms(4) in auto)
  then have res: "pt_find_closest t target k = Inr ?ps"
    using assms(2,3) by (simp only: pt_find_closest_def and_then_simps sort_key_decorated slice_to_def if_True)
  have dist: "distinct ?ps"
    using pt_ids_distinct [OF assms(1)] by (simp only: distinct_map [of pi_node_id] distinct_sort distinct_take)
  have "?f p \<le> ?f q" if "p \<in> set ?ps" "q \<in> set ?vs - set ?ps" for p q
  proof -
    have "q \<in> set (take (nat k) (sort_key ?f ?vs)) \<union> set (drop (nat k) (sort_key ?f ?vs))"
      using that(2) by (metis Diff_iff append_take_drop_id set_append set_sort)
    then show ?thesis
      using that by (intro sorted_take_le_drop [of ?f "sort_key ?f ?vs" p "nat k" q]) auto
  qed
  then show ?thesis
    using res dist set_take_sort_key [of "nat k" ?f ?vs] by (intro exI [of _ ?ps]) auto
qed

theorem pt_find_closest_spec_witness:
  "\<exists>ps. pt_find_closest ex_peer_table (u ''target'') 2 = Inr ps \<and> length ps = 2 \<and> distinct ps"
proof -
  obtain d where d: "node_hash (u ''target'') = Inr d"
    by (simp add: node_hash_def)
  have h: "\<forall>p \<in> snd ` set ex_peer_table. node_hash (pi_node_id p) = Inr (projr (node_hash (pi_node_id p)))"
    by (simp add: node_hash_def ex_peer_table_items ex_info_def)
  show ?thesis
    using pt_find_closest_spec [OF ex_peer_table_reachable d _ h, of 2] by (auto simp: ex_peer_table_items)
qed

end
