(* ===== verification/Polling_Loop.thy ===== *)
theory Polling_Loop
  imports Mesh_Prelude "HOL-Library.While_Combinator"
begin

text \<open>
  The background loops of the program: \<open>while running: body; await sleep\<close>. While the loop sleeps, other
  coroutines call the same object; \<open>calls k\<close> are the calls made during the \<open>k\<close>-th sleep, in order, and
  \<open>inputs k\<close> is what round \<open>k\<close> reads from outside (the clock, the sensors). The result \<open>None\<close> is a loop that
  never ends; otherwise it carries how the loop ended and the number of rounds that were completed.
\<close>

definition poll_round ::
    "('x \<Rightarrow> 's \<Rightarrow> unit res \<times> 's) \<Rightarrow> ('c \<Rightarrow> 's \<Rightarrow> 's) \<Rightarrow> (nat \<Rightarrow> 'x) \<Rightarrow> (nat \<Rightarrow> 'c list) \<Rightarrow> nat \<times> 's \<times> pyexc option
      \<Rightarrow> nat \<times> 's \<times> pyexc option" where
  "poll_round body call inputs calls = (\<lambda>(k, s, _).
     (case body (inputs k) s of
        (Inl e, s') \<Rightarrow> (k, s', Some e)
      | (Inr _, s') \<Rightarrow> (Suc k, fold call (calls k) s', None)))"

definition poll_from ::
    "('s \<Rightarrow> bool) \<Rightarrow> ('x \<Rightarrow> 's \<Rightarrow> unit res \<times> 's) \<Rightarrow> ('c \<Rightarrow> 's \<Rightarrow> 's) \<Rightarrow> (nat \<Rightarrow> 'x) \<Rightarrow> (nat \<Rightarrow> 'c list) \<Rightarrow> nat \<Rightarrow> 's
      \<Rightarrow> (unit res \<times> nat \<times> 's) option" where
  "poll_from running body call inputs calls k s =
     map_option (\<lambda>(k, s, e). (case e of Some e \<Rightarrow> Inl e | None \<Rightarrow> Inr (), k, s))
       (while_option (\<lambda>(k, s, e). e = None \<and> running s) (poll_round body call inputs calls) (k, s, None))"

lemma poll_from_unfold:
  "poll_from running body call inputs calls k s =
     (if \<not> running s then Some (Inr (), k, s)
      else
        (case body (inputs k) s of
           (Inl e, s') \<Rightarrow> Some (Inl e, k, s')
         | (Inr _, s') \<Rightarrow> poll_from running body call inputs calls (Suc k) (fold call (calls k) s')))"
proof -
  let ?b = "\<lambda>(k, s, e). e = None \<and> running s" and ?c = "poll_round body call inputs calls"
  have "while_option ?b ?c (k, s, None) = (if running s then while_option ?b ?c (?c (k, s, None)) else Some (k, s, None))"
    by (subst while_option_unfold) simp
  moreover have "while_option ?b ?c (k, s', Some e) = Some (k, s', Some e)" for s' e
    by (subst while_option_unfold) simp
  ultimately show ?thesis
    by (auto simp: poll_from_def poll_round_def split: prod.split sum.split)
qed

primrec poll_rounds ::
    "('x \<Rightarrow> 's \<Rightarrow> unit res \<times> 's) \<Rightarrow> ('c \<Rightarrow> 's \<Rightarrow> 's) \<Rightarrow> (nat \<Rightarrow> 'x) \<Rightarrow> (nat \<Rightarrow> 'c list) \<Rightarrow> nat \<Rightarrow> 's \<Rightarrow> 's" where
  "poll_rounds body call inputs calls 0 s = s"
| "poll_rounds body call inputs calls (Suc n) s =
     fold call (calls n) (snd (body (inputs n) (poll_rounds body call inputs calls n s)))"

text \<open>
  The contract of such a loop: only a call that stops it clears the flag, and the body does not touch the
  flag.
\<close>

locale polling_loop =
  fixes running :: "'s \<Rightarrow> bool"
    and body :: "'x \<Rightarrow> 's \<Rightarrow> unit res \<times> 's"
    and call :: "'c \<Rightarrow> 's \<Rightarrow> 's"
    and stops :: "'c \<Rightarrow> bool"
  assumes body_running: "running s \<Longrightarrow> running (snd (body x s))"
    and call_running: "running (call c s) \<longleftrightarrow> running s \<and> \<not> stops c"
begin

lemma calls_running: "running (fold call cs s) \<longleftrightarrow> running s \<and> \<not> list_ex stops cs"
  by (induction cs arbitrary: s) (auto simp: call_running)

text \<open>
  A round that does not raise and whose sleep has no stop leads to the next one.
\<close>

lemma reaches:
  assumes "running s" and "\<forall>i < n. fst (body (inputs i) (poll_rounds body call inputs calls i s)) = Inr () \<and> \<not> list_ex stops (calls i)"
  shows "running (poll_rounds body call inputs calls n s) \<and>
    poll_from running body call inputs calls 0 s = poll_from running body call inputs calls n (poll_rounds body call inputs calls n s)"
  using assms(2)
proof (induction n)
  case (Suc n)
  let ?s = "poll_rounds body call inputs calls n s"
  have s: "running ?s" and at: "poll_from running body call inputs calls 0 s = poll_from running body call inputs calls n ?s"
    and round: "fst (body (inputs n) ?s) = Inr ()" "\<not> list_ex stops (calls n)"
    using Suc by simp_all
  then show ?case
    using body_running [OF s, of "inputs n"] unfolding at
    by (subst poll_from_unfold) (auto simp: calls_running split: prod.splits)
qed (simp add: assms(1))

lemma forever:
  assumes "running s" and "\<forall>i. fst (body (inputs i) (poll_rounds body call inputs calls i s)) = Inr () \<and> \<not> list_ex stops (calls i)"
  shows "poll_from running body call inputs calls 0 s = None"
proof (rule ccontr)
  let ?b = "\<lambda>(k, s, e). e = None \<and> running s" and ?c = "poll_round body call inputs calls"
  let ?P = "\<lambda>(k, t, e). e = None \<and> t = poll_rounds body call inputs calls k s"
  assume "poll_from running body call inputs calls 0 s \<noteq> None"
  then obtain k t e where w: "while_option ?b ?c (0, s, None) = Some (k, t, e)"
    by (auto simp: poll_from_def)
  have "?P (?c x)" if "?P x" for x
    using that assms(2) [rule_format, of "fst x"] by (auto simp: poll_round_def split: prod.splits)
  then have "?P (k, t, e)"
    by (intro while_option_rule [where P = ?P, OF _ w]) simp_all
  moreover have "running (poll_rounds body call inputs calls k s)"
    using reaches [of s k inputs calls] assms by blast
  ultimately show False
    using while_option_stop [OF w] by simp
qed

definition round_ok :: "(nat \<Rightarrow> 'x) \<Rightarrow> (nat \<Rightarrow> 'c list) \<Rightarrow> 's \<Rightarrow> nat \<Rightarrow> bool" where
  "round_ok inputs calls s i \<longleftrightarrow>
     fst (body (inputs i) (poll_rounds body call inputs calls i s)) = Inr () \<and> \<not> list_ex stops (calls i)"

text \<open>Every loop runs forever, or ends in its first round that raises or right after the sleep of its first stop.\<close>

lemma outcome [consumes 1, case_names never raised stopped]:
  assumes "running s"
  obtains "\<forall>i. round_ok inputs calls s i" and "poll_from running body call inputs calls 0 s = None"
  | n e s' where "\<forall>i < n. round_ok inputs calls s i" and "body (inputs n) (poll_rounds body call inputs calls n s) = (Inl e, s')"
      and "\<not> round_ok inputs calls s n" and "poll_from running body call inputs calls 0 s = Some (Inl e, n, s')"
  | n where "\<forall>i < n. round_ok inputs calls s i" and "fst (body (inputs n) (poll_rounds body call inputs calls n s)) = Inr ()"
      and "list_ex stops (calls n)" and "\<not> round_ok inputs calls s n"
      and "poll_from running body call inputs calls 0 s = Some (Inr (), Suc n, poll_rounds body call inputs calls (Suc n) s)"
proof (cases "\<forall>i. round_ok inputs calls s i")
  case True
  then show ?thesis
    using forever [OF assms, of inputs calls] that(1) by (simp add: round_ok_def)
next
  case False
  let ?R = "\<lambda>n. poll_rounds body call inputs calls n s"
  obtain n where n: "\<not> round_ok inputs calls s n" "\<forall>i < n. round_ok inputs calls s i"
    using False exists_least_iff [of "\<lambda>i. \<not> round_ok inputs calls s i"] by blast
  have run: "running (?R n)" and at: "poll_from running body call inputs calls 0 s = poll_from running body call inputs calls n (?R n)"
    using reaches [OF assms, of n inputs calls] n(2) by (simp_all add: round_ok_def)
  obtain res s' where body: "body (inputs n) (?R n) = (res, s')" by fastforce
  show ?thesis
  proof (cases res)
    case (Inl e)
    then have "poll_from running body call inputs calls n (?R n) = Some (Inl e, n, s')"
      using run body by (subst poll_from_unfold) simp
    then show ?thesis
      using that(2) [OF n(2)] n(1) body at by (simp add: Inl)
  next
    case (Inr x)
    then have stop: "list_ex stops (calls n)"
      using n(1) body by (simp add: round_ok_def)
    then have "\<not> running (?R (Suc n))"
      by (simp add: calls_running)
    then have "poll_from running body call inputs calls n (?R n) = Some (Inr (), Suc n, ?R (Suc n))"
      using run body Inr by (subst poll_from_unfold) (simp add: poll_from_unfold [of _ _ _ _ _ "Suc n"])
    then show ?thesis
      using that(3) [OF n(2)] n(1) body stop at by (simp add: Inr)
  qed
qed

lemma first_bad: "\<lbrakk>\<forall>i < n. round_ok inputs calls s i; \<not> round_ok inputs calls s n; \<forall>i < m. round_ok inputs calls s i; \<not> round_ok inputs calls s m\<rbrakk> \<Longrightarrow> m = n"
  by (metis linorder_neqE_nat)

lemma never_ends_iff:
  "running s \<Longrightarrow> poll_from running body call inputs calls 0 s = None \<longleftrightarrow> (\<forall>i. round_ok inputs calls s i)"
  by (cases s rule: outcome [where inputs = inputs and calls = calls]) auto

lemma raises_iff:
  assumes "running s"
  shows "poll_from running body call inputs calls 0 s = Some (Inl e, n, s') \<longleftrightarrow>
    (\<forall>i < n. round_ok inputs calls s i) \<and> body (inputs n) (poll_rounds body call inputs calls n s) = (Inl e, s')"
  (is "_ \<longleftrightarrow> ?rhs")
proof -
  have bad: "\<not> round_ok inputs calls s n" if ?rhs
    using that by (simp add: round_ok_def)
  show ?thesis
    using assms
  proof (cases s rule: outcome [where inputs = inputs and calls = calls])
    case (stopped m)
    then have "\<not> ?rhs"
      using bad first_bad [of n inputs calls s m] by (metis fst_conv sum.distinct(1))
    then show ?thesis using stopped by simp
  next
    case (raised m e1 s1)
    then have "?rhs \<Longrightarrow> m = n"
      using bad first_bad [of n inputs calls s m] by blast
    then show ?thesis using raised by auto
  next
    case never
    then show ?thesis using bad by auto
  qed
qed

lemma stops_iff:
  assumes "running s"
  shows "poll_from running body call inputs calls 0 s = Some (Inr (), Suc n, s') \<longleftrightarrow>
    (\<forall>i < n. round_ok inputs calls s i) \<and> fst (body (inputs n) (poll_rounds body call inputs calls n s)) = Inr () \<and>
    list_ex stops (calls n) \<and> s' = poll_rounds body call inputs calls (Suc n) s"
  (is "_ \<longleftrightarrow> ?rhs")
proof -
  have bad: "\<not> round_ok inputs calls s n" if ?rhs
    using that by (simp add: round_ok_def)
  show ?thesis
    using assms
  proof (cases s rule: outcome [where inputs = inputs and calls = calls])
    case (raised m e s1)
    then have "\<not> ?rhs"
      using bad first_bad [of n inputs calls s m] by (metis fst_conv sum.distinct(1))
    then show ?thesis using raised by simp
  next
    case (stopped m)
    then have "?rhs \<Longrightarrow> m = n"
      using bad first_bad [of n inputs calls s m] by blast
    then show ?thesis using stopped by auto
  next
    case never
    then show ?thesis using bad by auto
  qed
qed

text \<open>A loop whose body does not raise ends exactly by a stop.\<close>

lemma total_outcome:
  assumes "running s" and total: "\<And>x t. fst (body x t) = Inr ()"
  shows "case poll_from running body call inputs calls 0 s of
     None \<Rightarrow> \<forall>i. \<not> list_ex stops (calls i)
   | Some (res, k, s') \<Rightarrow> res = Inr () \<and> \<not> running s' \<and>
       (\<exists>n. k = Suc n \<and> list_ex stops (calls n) \<and> (\<forall>i < n. \<not> list_ex stops (calls i)))"
  using assms(1)
proof (cases s rule: outcome [where inputs = inputs and calls = calls])
  case (raised n e s')
  then show ?thesis using total [of "inputs n" "poll_rounds body call inputs calls n s"] by simp
qed (auto simp: round_ok_def calls_running)

end

end
