(* ===== verification/Py_Dict.thy ===== *)
theory Py_Dict
  imports Protocol
begin

text \<open>
  Dictionaries whose keys come from messages. A key may be any hashable value, and keys that compare
  equal are the same key (\<open>1\<close>, \<open>1.0\<close> and \<open>True\<close>): \<open>dict_key\<close> maps a value to the representative of its
  key, and raises \<open>TypeError\<close> for a list or a dictionary. A NaN is a key equal to itself only, as is the one
  NaN object the JSON reader produces.
\<close>

definition dict_key :: "pyval \<Rightarrow> pyval res" where
  "dict_key v =
     (case v of
        PList _ \<Rightarrow> Inl TypeError
      | PDict _ \<Rightarrow> Inl TypeError
      | PBool b \<Rightarrow> Inr (PInt (if b then 1 else 0))
      | PFloat x \<Rightarrow> Inr (case x of FFin q \<Rightarrow> if of_int \<lfloor>q\<rfloor> = q then PInt \<lfloor>q\<rfloor> else v | FNegZero \<Rightarrow> PInt 0 | _ \<Rightarrow> v)
      | _ \<Rightarrow> Inr v)"

lemma dict_key_PStr [simp]: "dict_key (PStr s) = Inr (PStr s)"
  by (simp add: dict_key_def)

lemma dict_key_idem: "dict_key v = Inr k \<Longrightarrow> dict_key k = Inr k"
  by (auto simp: dict_key_def split: pyval.splits pyfloat.splits if_splits)

lemma dict_key_eq_PStr [simp]: "dict_key v = Inr (PStr s) \<longleftrightarrow> v = PStr s"
  by (auto simp: dict_key_def split: pyval.splits pyfloat.splits if_splits)

lemma dict_key_raises: "dict_key v = Inl e \<Longrightarrow> e = TypeError"
  by (auto simp: dict_key_def split: pyval.splits)

end
