(* ===== verification/Failure_Detector.thy ===== *)
theory Failure_Detector
  imports Py_Float
begin

text \<open>
  The contract the two failure detectors of the program share: a peer that is heard from is alive, and a
  check classifies every peer by how long it has been silent, worse the longer. The locale states what
  one operation does; its lemma is about whole histories of heartbeats and checks: what a check reports
  depends on the time since the last heartbeat only, not on the checks in between.
\<close>

definition is_finite :: "pyfloat \<Rightarrow> bool" where
  "is_finite x \<longleftrightarrow> x \<notin> {FInf, FNegInf, FNaN}"

lemma fsub_mono:
  assumes "fle a b" and "is_finite a" and "is_finite b" and "is_finite t"
  shows "fle (fsub a t) (fsub b t)"
proof -
  have "fval a \<le> fval b"
    using assms(1-3) by (cases a; cases b) (auto simp: is_finite_def fval_def)
  then have "fle (round64 (fval a - fval t)) (round64 (fval b - fval t))"
    by (intro round64_mono) simp
  moreover have "round64 0 = FFin 0"
    by (simp add: round64_def)
  moreover have "fle x FNegZero \<longleftrightarrow> fle x (FFin 0)" "fle FNegZero x \<longleftrightarrow> fle (FFin 0) x" for x
    by (cases x; simp add: fval_def)+
  ultimately show ?thesis
    using assms(2-4) by (cases a; cases b; cases t) (auto simp: is_finite_def fval_def)
qed

datatype 'x detector_event = Beat pyfloat 'x | Check pyfloat

fun event_time :: "'x detector_event \<Rightarrow> pyfloat" where
  "event_time (Beat t x) = t"
| "event_time (Check t) = t"

text \<open>The time of the last heartbeat of a peer in a history (newest event first).\<close>

fun last_beat :: "('x \<Rightarrow> 'p option) \<Rightarrow> 'x detector_event list \<Rightarrow> 'p \<Rightarrow> pyfloat option" where
  "last_beat who [] p = None"
| "last_beat who (Beat t x # es) p = (if who x = Some p then Some t else last_beat who es p)"
| "last_beat who (Check t # es) p = last_beat who es p"

text \<open>A history, newest event first, whose clock readings are finite and never go back.\<close>

definition clock_ok :: "'x detector_event list \<Rightarrow> bool" where
  "clock_ok es \<longleftrightarrow> list_all (\<lambda>e. is_finite (event_time e)) es \<and> sorted_wrt (\<lambda>e f. fle (event_time f) (event_time e)) es"

text \<open>The state after a history, for given operations.\<close>

fun detector_run ::
    "(pyfloat \<Rightarrow> 'x \<Rightarrow> 's \<Rightarrow> 's) \<Rightarrow> (pyfloat \<Rightarrow> 's \<Rightarrow> 's) \<Rightarrow> 's \<Rightarrow> 'x detector_event list \<Rightarrow> 's" where
  "detector_run beat check s [] = s"
| "detector_run beat check s (Beat t x # es) = beat t x (detector_run beat check s es)"
| "detector_run beat check s (Check t # es) = check t (detector_run beat check s es)"

locale failure_detector =
  fixes inv :: "'s \<Rightarrow> bool"
    and look :: "'s \<Rightarrow> 'p \<Rightarrow> (pyfloat \<times> 'st) option"
    and who :: "'x \<Rightarrow> 'p option"
    and beat :: "pyfloat \<Rightarrow> 'x \<Rightarrow> 's \<Rightarrow> 's"
    and check :: "pyfloat \<Rightarrow> 's \<Rightarrow> 's"
    and verdict :: "'s \<Rightarrow> pyfloat \<Rightarrow> 'st"
    and alive :: 'st
    and rank :: "'st \<Rightarrow> nat"
  assumes inv_beat: "inv s \<Longrightarrow> inv (beat t x s)"
    and inv_check: "inv s \<Longrightarrow> inv (check t s)"
    and look_beat: "inv s \<Longrightarrow> look (beat t x s) = (case who x of None \<Rightarrow> look s | Some p \<Rightarrow> (look s)(p \<mapsto> (t, alive)))"
    and look_check_None: "inv s \<Longrightarrow> look s p = None \<Longrightarrow> look (check now s) p = None"
    and look_check: "inv s \<Longrightarrow> look s p = Some (t, st) \<Longrightarrow> rank st \<le> rank (verdict s (fsub now t)) \<Longrightarrow>
      look (check now s) p = Some (t, verdict s (fsub now t))"
    and verdict_beat: "verdict (beat t x s) = verdict s"
    and verdict_check: "verdict (check t s) = verdict s"
    and rank_alive: "rank alive = 0"
    and verdict_mono: "fle d d' \<Longrightarrow> rank (verdict s d) \<le> rank (verdict s d')"
begin

lemma inv_run: "inv s \<Longrightarrow> inv (detector_run beat check s es)"
proof (induction es)
  case (Cons e es)
  then show ?case by (cases e) (simp_all add: inv_beat inv_check)
qed simp

lemma verdict_run: "verdict (detector_run beat check s es) = verdict s"
proof (induction es)
  case (Cons e es)
  then show ?case by (cases e) (simp_all add: verdict_beat verdict_check)
qed simp

text \<open>
  The entry of a peer after a history: its time is that of its last heartbeat, its state is that of a
  fresh peer or the verdict at an earlier time.
\<close>

definition entry_ok :: "'s \<Rightarrow> 'x detector_event list \<Rightarrow> 'p \<Rightarrow> (pyfloat \<times> 'st) option \<Rightarrow> bool" where
  "entry_ok s es p entry \<longleftrightarrow>
     (case entry of None \<Rightarrow> last_beat who es p = None
      | Some (t, st) \<Rightarrow> last_beat who es p = Some t \<and> is_finite t \<and>
          (st = alive \<or> (\<exists>c \<in> event_time ` set es. st = verdict s (fsub c t))))"

lemma check_entry:
  assumes "clock_ok (Check now # es)" and "verdict s' = verdict s" and "entry_ok s es p (look s' p)" and "inv s'"
  shows "look (check now s') p = map_option (\<lambda>t. (t, verdict s (fsub now t))) (last_beat who es p)"
proof (cases "look s' p")
  case None
  then show ?thesis using assms(3) by (simp add: look_check_None assms(4) entry_ok_def)
next
  case (Some ts)
  have fin: "is_finite now" and le: "\<And>c. c \<in> event_time ` set es \<Longrightarrow> fle c now \<and> is_finite c"
    using assms(1) by (auto simp: clock_ok_def list_all_iff)
  obtain t st where ts: "ts = (t, st)" by fastforce
  have t: "last_beat who es p = Some t" "is_finite t"
    and st: "st = alive \<or> (\<exists>c \<in> event_time ` set es. st = verdict s (fsub c t))"
    using assms(3) by (auto simp: Some ts entry_ok_def)
  have "rank st \<le> rank (verdict s (fsub now t))"
    using st rank_alive t(2) fin by (auto intro!: verdict_mono fsub_mono dest!: le [OF imageI])
  then show ?thesis
    using look_check [OF assms(4), of p t st now] t assms(2) by (simp add: Some ts)
qed

lemma entry_run:
  assumes "inv s" and "look s p = None" and "clock_ok es"
  shows "entry_ok s es p (look (detector_run beat check s es) p)"
  using assms(3)
proof (induction es)
  case (Cons e es)
  have ok: "clock_ok es" and fin: "is_finite (event_time e)"
    using Cons.prems by (auto simp: clock_ok_def list_all_iff)
  note IH = Cons.IH [OF ok]
  show ?case
  proof (cases e)
    case (Beat t x)
    then show ?thesis
      using IH fin by (cases "who x") (auto simp: look_beat [OF inv_run [OF assms(1)]] entry_ok_def split: option.splits prod.splits)
  next
    case (Check now)
    have "is_finite t" if "last_beat who es p = Some t" for t
      using that IH by (auto simp: entry_ok_def split: option.splits prod.splits)
    then show ?thesis
      using check_entry [OF Cons.prems [unfolded Check] verdict_run IH inv_run [OF assms(1)]]
      by (auto simp: Check entry_ok_def split: option.splits)
  qed
qed (simp add: assms(2) entry_ok_def)

lemma checked:
  assumes "inv s" and "look s p = None" and "clock_ok (Check now # es)"
  shows "look (check now (detector_run beat check s es)) p
    = map_option (\<lambda>t. (t, verdict s (fsub now t))) (last_beat who es p)"
proof -
  have "clock_ok es"
    using assms(3) by (simp add: clock_ok_def)
  then show ?thesis
    by (intro check_entry [OF assms(3) verdict_run] entry_run [OF assms(1,2)] inv_run assms(1))
qed

end

end
