(* ===== verification/Heartbeat.thy ===== *)
theory Heartbeat
  imports Py_Dict Failure_Detector
begin

text \<open>
  \<open>meshweaver/heartbeat.py\<close>: the heartbeat manager. It keeps when each peer was last heard and a state per
  peer, degrades the state in \<open>check_node_health\<close> and calls the offline callbacks when a peer goes offline.
  Callbacks and the network sender thread a world \<open>'w\<close> and may raise; the clock is an argument.
\<close>

datatype node_state = NS_ALIVE | NS_SUSPECTED | NS_OFFLINE

type_synonym 'w offline_callback = "'w \<Rightarrow> pyval \<Rightarrow> unit res \<times> 'w"
type_synonym 'w net_send = "'w \<Rightarrow> pydict \<Rightarrow> unit res \<times> 'w"

record 'w heartbeat_manager =
  hb_node_id :: pystr
  hb_interval :: pyfloat
  hb_suspect_t :: pyfloat
  hb_offline_t :: pyfloat
  hb_last_seen :: "(pyval \<times> pyfloat) list"
  hb_peer_states :: "(pyval \<times> node_state) list"
  hb_active :: bool
  hb_offline_cb_list :: "'w offline_callback list"
  hb_net_send :: "'w net_send option"

definition HeartbeatManager :: "pystr \<Rightarrow> pyfloat \<Rightarrow> pyfloat \<Rightarrow> pyfloat \<Rightarrow> 'w heartbeat_manager" where
  "HeartbeatManager node_id heartbeat_interval suspect_timeout offline_timeout =
     \<lparr>hb_node_id = node_id, hb_interval = heartbeat_interval, hb_suspect_t = suspect_timeout,
      hb_offline_t = offline_timeout, hb_last_seen = [], hb_peer_states = [], hb_active = False,
      hb_offline_cb_list = [], hb_net_send = None\<rparr>"

definition register_network_callback :: "'w heartbeat_manager \<Rightarrow> 'w net_send \<Rightarrow> 'w heartbeat_manager" where
  "register_network_callback m cb = m\<lparr>hb_net_send := Some cb\<rparr>"

definition register_offline_callback :: "'w heartbeat_manager \<Rightarrow> 'w offline_callback \<Rightarrow> 'w heartbeat_manager" where
  "register_offline_callback m cb = m\<lparr>hb_offline_cb_list := hb_offline_cb_list m @ [cb]\<rparr>"

definition process_incoming_heartbeat ::
    "'w heartbeat_manager \<Rightarrow> pyfloat \<Rightarrow> pyval \<Rightarrow> unit res \<times> 'w heartbeat_manager" where
  "process_incoming_heartbeat m now msg =
     (case msg of
        PDict d \<Rightarrow>
          if dict_get d (u ''message_type'') \<noteq> PStr (u ''HEARTBEAT_PING'') then (Inr (), m)
          else
            (let sender = dict_get d (u ''sender_id'') in
             if \<not> truthy sender \<or> sender = PStr (hb_node_id m) then (Inr (), m)
             else
               (case dict_key sender of
                  Inl e \<Rightarrow> (Inl e, m)
                | Inr k \<Rightarrow> (Inr (), m\<lparr>hb_last_seen := AList.update k now (hb_last_seen m),
                                      hb_peer_states := AList.update k NS_ALIVE (hb_peer_states m)\<rparr>)))
      | _ \<Rightarrow> (Inr (), m))"

text \<open>The callbacks of a peer that went offline: all of them, in order, exceptions logged.\<close>

fun run_offline_callbacks :: "'w offline_callback list \<Rightarrow> pyval \<Rightarrow> 'w \<Rightarrow> 'w" where
  "run_offline_callbacks [] peer w = w"
| "run_offline_callbacks (fn # fns) peer w = run_offline_callbacks fns peer (snd (fn w peer))"

text \<open>The loop of \<open>check_node_health\<close> over a copy of the items of \<open>last_seen\<close>.\<close>

fun health_loop ::
    "'w heartbeat_manager \<Rightarrow> pyfloat \<Rightarrow> (pyval \<times> pyfloat) list \<Rightarrow> (pyval \<times> node_state) list \<Rightarrow> 'w
      \<Rightarrow> (pyval \<times> node_state) list \<times> 'w" where
  "health_loop m now [] states w = (states, w)"
| "health_loop m now ((peer, ts) # rest) states w =
     (let delta = fsub now ts;
          st = (case map_of states peer of Some s \<Rightarrow> s | None \<Rightarrow> NS_ALIVE)
      in if fle (hb_offline_t m) delta then
           (if st \<noteq> NS_OFFLINE
            then health_loop m now rest (AList.update peer NS_OFFLINE states)
                   (run_offline_callbacks (hb_offline_cb_list m) peer w)
            else health_loop m now rest states w)
         else if fle (hb_suspect_t m) delta then
           (if st = NS_ALIVE
            then health_loop m now rest (AList.update peer NS_SUSPECTED states) w
            else health_loop m now rest states w)
         else health_loop m now rest states w)"

definition check_node_health :: "'w heartbeat_manager \<Rightarrow> pyfloat \<Rightarrow> 'w \<Rightarrow> 'w heartbeat_manager \<times> 'w" where
  "check_node_health m now w =
     (let (states, w') = health_loop m now (hb_last_seen m) (hb_peer_states m) w
      in (m\<lparr>hb_peer_states := states\<rparr>, w'))"

text \<open>
  \<open>start_heartbeat_loop\<close>: it sets the active flag and repeats its body while the flag is set. The body
  sends a heartbeat and then checks the peers; an exception of the sender skips the check of this round.
\<close>

definition hb_start :: "'w heartbeat_manager \<Rightarrow> 'w heartbeat_manager" where
  "hb_start m = m\<lparr>hb_active := True\<rparr>"

definition heartbeat_payload :: "'w heartbeat_manager \<Rightarrow> pyfloat \<Rightarrow> pydict" where
  "heartbeat_payload m now = [(u ''message_type'', PStr (u ''HEARTBEAT_PING'')), (u ''sender_id'', PStr (hb_node_id m)),
     (u ''timestamp'', PFloat now)]"

definition heartbeat_loop_body ::
    "'w heartbeat_manager \<Rightarrow> pyfloat \<Rightarrow> pyfloat \<Rightarrow> 'w \<Rightarrow> 'w heartbeat_manager \<times> 'w" where
  "heartbeat_loop_body m t_send t_check w =
     (if \<not> hb_active m then (m, w)
      else
        (case hb_net_send m of
           None \<Rightarrow> check_node_health m t_check w
         | Some send \<Rightarrow>
             (case send w (heartbeat_payload m t_send) of
                (Inl _, w') \<Rightarrow> (m, w')
              | (Inr _, w') \<Rightarrow> check_node_health m t_check w')))"

definition hb_stop :: "'w heartbeat_manager \<Rightarrow> 'w heartbeat_manager" where
  "hb_stop m = m\<lparr>hb_active := False\<rparr>"

section \<open>A check\<close>

definition state_in :: "(pyval \<times> node_state) list \<Rightarrow> pyval \<Rightarrow> node_state" where
  "state_in states p = (case map_of states p of Some st \<Rightarrow> st | None \<Rightarrow> NS_ALIVE)"

abbreviation hb_state :: "'w heartbeat_manager \<Rightarrow> pyval \<Rightarrow> node_state" where
  "hb_state m \<equiv> state_in (hb_peer_states m)"

lemma state_in_update: "state_in (AList.update q st states) p = (if p = q then st else state_in states p)"
  by (simp add: state_in_def update_conv')

text \<open>What silence of a given length makes of a peer, and of a peer in a given state.\<close>

definition silence_state :: "'w heartbeat_manager \<Rightarrow> pyfloat \<Rightarrow> node_state" where
  "silence_state m d = (if fle (hb_offline_t m) d then NS_OFFLINE else if fle (hb_suspect_t m) d then NS_SUSPECTED else NS_ALIVE)"

definition degrade :: "'w heartbeat_manager \<Rightarrow> pyfloat \<Rightarrow> node_state \<Rightarrow> node_state" where
  "degrade m d st =
     (if fle (hb_offline_t m) d then NS_OFFLINE
      else if fle (hb_suspect_t m) d \<and> st = NS_ALIVE then NS_SUSPECTED else st)"

definition newly_offline :: "'w heartbeat_manager \<Rightarrow> pyfloat \<Rightarrow> (pyval \<times> pyfloat) list \<Rightarrow> (pyval \<Rightarrow> node_state) \<Rightarrow> pyval list" where
  "newly_offline m now items state =
     map fst (filter (\<lambda>(p, ts). fle (hb_offline_t m) (fsub now ts) \<and> state p \<noteq> NS_OFFLINE) items)"

lemma newly_offline_cong:
  "\<forall>(p, ts) \<in> set items. f p = g p \<Longrightarrow> newly_offline m now items f = newly_offline m now items g"
  by (fastforce simp: newly_offline_def intro!: arg_cong [where f = "map fst"] filter_cong)

lemma health_loop_spec:
  assumes "distinct (map fst items)"
  shows "state_in (fst (health_loop m now items states w)) p =
      (case map_of items p of None \<Rightarrow> state_in states p | Some ts \<Rightarrow> degrade m (fsub now ts) (state_in states p)) \<and>
    snd (health_loop m now items states w) =
      fold (run_offline_callbacks (hb_offline_cb_list m)) (newly_offline m now items (state_in states)) w"
  using assms
proof (induction items arbitrary: states w)
  case (Cons it items)
  obtain q ts where it: "it = (q, ts)" by fastforce
  have d: "distinct (map fst items)" and q: "q \<notin> fst ` set items"
    using Cons.prems by (auto simp: it)
  then have "map_of items q = None"
    by (simp add: map_of_eq_None_iff)
  moreover have "newly_offline m now items (state_in (AList.update q st states)) = newly_offline m now items (state_in states)" for st
    using q by (intro newly_offline_cong) (force simp: state_in_update)
  moreover have "(case map_of states q of None \<Rightarrow> NS_ALIVE | Some s \<Rightarrow> s) = state_in states q"
    by (simp add: state_in_def)
  moreover have "newly_offline m now (it # items) f =
      (if fle (hb_offline_t m) (fsub now ts) \<and> f q \<noteq> NS_OFFLINE then [q] else []) @ newly_offline m now items f" for f
    by (simp add: it newly_offline_def)
  moreover note Cons.IH [OF d, THEN conjunct1] Cons.IH [OF d, THEN conjunct2]
  ultimately show ?case
    by (cases "p = q"; cases "map_of items p") (simp_all add: it Let_def state_in_update degrade_def)
qed (simp add: newly_offline_def)

section \<open>The manager as a failure detector\<close>

definition hb_look :: "'w heartbeat_manager \<Rightarrow> pyval \<Rightarrow> (pyfloat \<times> node_state) option" where
  "hb_look m p = map_option (\<lambda>t. (t, hb_state m p)) (map_of (hb_last_seen m) p)"

text \<open>The peer a message is a heartbeat of, for a manager of the given node.\<close>

definition hb_who :: "pystr \<Rightarrow> pyval \<Rightarrow> pyval option" where
  "hb_who node_id msg =
     (case msg of
        PDict d \<Rightarrow>
          (let sender = dict_get d (u ''sender_id'') in
           if dict_get d (u ''message_type'') = PStr (u ''HEARTBEAT_PING'') \<and> truthy sender \<and> sender \<noteq> PStr node_id
           then (case dict_key sender of Inl _ \<Rightarrow> None | Inr k \<Rightarrow> Some k) else None)
      | _ \<Rightarrow> None)"

definition hb_beat :: "pyfloat \<Rightarrow> pyval \<Rightarrow> 'w heartbeat_manager \<Rightarrow> 'w heartbeat_manager" where
  "hb_beat now msg m = snd (process_incoming_heartbeat m now msg)"

text \<open>The manager after a check; which callbacks ran does not matter for it.\<close>

definition hb_check :: "pyfloat \<Rightarrow> 'w heartbeat_manager \<Rightarrow> 'w heartbeat_manager" where
  "hb_check now m = fst (check_node_health m now undefined)"

definition hb_inv :: "pystr \<Rightarrow> 'w heartbeat_manager \<Rightarrow> bool" where
  "hb_inv node_id m \<longleftrightarrow> hb_node_id m = node_id \<and> distinct (map fst (hb_last_seen m))"

fun node_state_rank :: "node_state \<Rightarrow> nat" where
  "node_state_rank NS_ALIVE = 0"
| "node_state_rank NS_SUSPECTED = 1"
| "node_state_rank NS_OFFLINE = 2"

lemma health_loop_world: "fst (health_loop m now items states w) = fst (health_loop m now items states w')"
proof (induction items arbitrary: states w w')
  case (Cons it items)
  obtain q ts where it: "it = (q, ts)" by fastforce
  show ?case
    unfolding it by (simp add: Let_def) (intro conjI impI Cons)
qed simp

lemma check_node_health_fst: "fst (check_node_health m now w) = hb_check now m"
  using health_loop_world [of m now "hb_last_seen m" "hb_peer_states m" w undefined]
  by (simp add: check_node_health_def hb_check_def split_beta)

lemma hb_check_state:
  assumes "distinct (map fst (hb_last_seen m))"
  shows "hb_state (hb_check now m) p =
    (case map_of (hb_last_seen m) p of None \<Rightarrow> hb_state m p | Some ts \<Rightarrow> degrade m (fsub now ts) (hb_state m p))"
  using health_loop_spec [OF assms, of m now "hb_peer_states m" undefined p]
  by (simp add: hb_check_def check_node_health_def split_beta)

lemma hb_check_fields [simp]:
  "hb_last_seen (hb_check now m) = hb_last_seen m" "hb_node_id (hb_check now m) = hb_node_id m"
  "hb_suspect_t (hb_check now m) = hb_suspect_t m" "hb_offline_t (hb_check now m) = hb_offline_t m"
  "hb_offline_cb_list (hb_check now m) = hb_offline_cb_list m"
  by (simp_all add: hb_check_def check_node_health_def Let_def split: prod.splits)

lemma process_incoming_heartbeat_spec:
  "snd (process_incoming_heartbeat m now msg) =
    (case hb_who (hb_node_id m) msg of
       None \<Rightarrow> m
     | Some k \<Rightarrow> m\<lparr>hb_last_seen := AList.update k now (hb_last_seen m), hb_peer_states := AList.update k NS_ALIVE (hb_peer_states m)\<rparr>)"
  by (auto simp: process_incoming_heartbeat_def hb_who_def Let_def split: pyval.splits sum.splits)

interpretation hb: failure_detector "hb_inv node_id" hb_look "hb_who node_id" hb_beat hb_check silence_state NS_ALIVE node_state_rank
  for node_id :: pystr
proof unfold_locales
  fix m :: "'w heartbeat_manager" and t now x p st d d'
  show "hb_inv node_id m \<Longrightarrow> hb_inv node_id (hb_beat t x m)"
    by (auto simp: hb_inv_def hb_beat_def process_incoming_heartbeat_spec distinct_update split: option.splits)
  show "hb_inv node_id m \<Longrightarrow> hb_inv node_id (hb_check t m)"
    by (simp add: hb_inv_def)
  show "hb_inv node_id m \<Longrightarrow>
      hb_look (hb_beat t x m) = (case hb_who node_id x of None \<Rightarrow> hb_look m | Some p \<Rightarrow> (hb_look m)(p \<mapsto> (t, NS_ALIVE)))"
    by (auto simp: hb_inv_def hb_beat_def process_incoming_heartbeat_spec hb_look_def state_in_update update_conv' fun_eq_iff
        split: option.splits)
  show "hb_inv node_id m \<Longrightarrow> hb_look m p = None \<Longrightarrow> hb_look (hb_check now m) p = None"
    by (simp add: hb_look_def)
  show "hb_inv node_id m \<Longrightarrow> hb_look m p = Some (t, st) \<Longrightarrow> node_state_rank st \<le> node_state_rank (silence_state m (fsub now t)) \<Longrightarrow>
      hb_look (hb_check now m) p = Some (t, silence_state m (fsub now t))"
    by (cases st) (auto simp: hb_look_def hb_check_state hb_inv_def degrade_def silence_state_def split: if_splits)
  show "silence_state (hb_beat t x m) = silence_state m"
    by (auto simp: hb_beat_def process_incoming_heartbeat_spec silence_state_def fun_eq_iff split: option.splits)
  show "silence_state (hb_check t m) = silence_state m"
    by (simp add: silence_state_def fun_eq_iff)
  show "node_state_rank NS_ALIVE = 0" by simp
  assume "fle d d'"
  then have "fle x d \<Longrightarrow> fle x d'" for x
    using fle_trans by blast
  then show "node_state_rank (silence_state m d) \<le> node_state_rank (silence_state m d')"
    by (auto simp: silence_state_def)
qed

section \<open>Properties\<close>

lemma hb_run_callbacks: "hb_offline_cb_list (detector_run hb_beat hb_check m es) = hb_offline_cb_list m"
proof (induction es)
  case (Cons e es)
  then show ?case
    by (cases e) (auto simp: hb_beat_def process_incoming_heartbeat_spec split: option.splits)
qed simp

lemma hb_register_all:
  "foldl register_offline_callback m cbs = m\<lparr>hb_offline_cb_list := hb_offline_cb_list m @ cbs\<rparr>"
  by (induction cbs arbitrary: m) (simp_all add: register_offline_callback_def)

lemma newly_offline_checked:
  assumes "distinct (map fst (hb_last_seen m))"
  shows "newly_offline m now (hb_last_seen m) (hb_state m) =
    filter (\<lambda>q. hb_state m q \<noteq> NS_OFFLINE \<and> hb_state (hb_check now m) q = NS_OFFLINE) (map fst (hb_last_seen m))"
proof -
  have "hb_state (hb_check now m) q = degrade m (fsub now ts) (hb_state m q)" if "(q, ts) \<in> set (hb_last_seen m)" for q ts
    using that map_of_is_SomeI [OF assms] by (simp add: hb_check_state [OF assms])
  then show ?thesis
    by (auto simp: newly_offline_def filter_map comp_def degrade_def intro!: arg_cong [where f = "map fst"] filter_cong split: if_splits)
qed

text \<open>
  C15. The verdict of the heartbeat manager over any history of incoming messages and checks whose clock does
  not go back: after a check at \<open>now\<close> a peer last heard from at \<open>t\<close> is OFFLINE when it has been silent for
  the offline timeout, else SUSPECTED when silent for the suspect timeout, else ALIVE, whatever the checks
  in between did. The check runs every registered offline callback, in order, once for each peer that this
  check takes offline and for no other, whether or not callbacks raise.
\<close>

theorem heartbeat_history_verdict:
  assumes "clock_ok (Check now # es)"
    and m0: "m0 = foldl register_offline_callback (HeartbeatManager node_id interval suspect_timeout offline_timeout) cbs"
    and m: "m = detector_run hb_beat hb_check m0 es" and check: "check_node_health m now w = (m', w')"
    and t: "last_beat (hb_who node_id) es p = Some t"
  shows "hb_state m' p =
      (if fle offline_timeout (fsub now t) then NS_OFFLINE
       else if fle suspect_timeout (fsub now t) then NS_SUSPECTED else NS_ALIVE) \<and>
    distinct (map fst (hb_last_seen m)) \<and>
    w' = fold (run_offline_callbacks cbs)
      (filter (\<lambda>q. hb_state m q \<noteq> NS_OFFLINE \<and> hb_state m' q = NS_OFFLINE) (map fst (hb_last_seen m))) w"
proof -
  have m0': "hb_inv node_id m0" "hb_look m0 p = None" "hb_offline_cb_list m0 = cbs"
    "silence_state m0 d = (if fle offline_timeout d then NS_OFFLINE else if fle suspect_timeout d then NS_SUSPECTED else NS_ALIVE)" for d
    by (simp_all add: m0 hb_register_all HeartbeatManager_def hb_inv_def hb_look_def silence_state_def)
  have dist: "distinct (map fst (hb_last_seen m))"
    using hb.inv_run [OF m0'(1), of es] by (simp add: hb_inv_def m)
  have m': "m' = hb_check now m"
    using check_node_health_fst [of m now w] by (simp add: check)
  have "hb_state m' p = silence_state m0 (fsub now t)"
    using hb.checked [OF m0'(1,2) assms(1)] by (auto simp: t m' hb_look_def simp flip: m)
  moreover have "w' = fold (run_offline_callbacks cbs) (newly_offline m now (hb_last_seen m) (hb_state m)) w"
    using health_loop_spec [OF dist, of m now "hb_peer_states m" w] check hb_run_callbacks [of m0 es] m0'(3)
    by (simp add: check_node_health_def split_beta m prod_eq_iff)
  ultimately show ?thesis
    using dist by (simp add: m0'(4) newly_offline_checked [OF dist] m')
qed

definition ex_beat :: "string \<Rightarrow> pyval" where
  "ex_beat n = PDict [(u ''message_type'', PStr (u ''HEARTBEAT_PING'')), (u ''sender_id'', PStr (u n)), (u ''timestamp'', PFloat (FFin 1))]"

text \<open>A callback that records the peer and then raises.\<close>

definition ex_record_peer :: "pyval list offline_callback" where
  "ex_record_peer w p = (Inl ValueError, w @ [p])"

theorem heartbeat_history_verdict_witness:
  "\<exists>m'. check_node_health (detector_run hb_beat hb_check
        (foldl register_offline_callback (HeartbeatManager (u ''me'') (FFin 2) (FFin 6) (FFin 10)) [ex_record_peer])
        [Beat (FFin 108) (ex_beat ''b''), Beat (FFin 100) (ex_beat ''a'')]) (FFin 111) []
      = (m', [PStr (u ''a'')]) \<and> hb_state m' (PStr (u ''a'')) = NS_OFFLINE"
proof -
  let ?es = "[Beat (FFin 108) (ex_beat ''b''), Beat (FFin 100) (ex_beat ''a'')]"
  define m0 where "m0 = foldl register_offline_callback (HeartbeatManager (u ''me'') (FFin 2) (FFin 6) (FFin 10)) [ex_record_peer]"
  define m where "m = detector_run hb_beat hb_check m0 ?es"
  obtain m' w' where check: "check_node_health m (FFin 111) [] = (m', w')" by fastforce
  have clock: "clock_ok (Check (FFin 111) # ?es)"
    by (simp add: clock_ok_def is_finite_def fval_def)
  have beats: "last_beat (hb_who (u ''me'')) ?es (PStr (u ''a'')) = Some (FFin 100)" "last_beat (hb_who (u ''me'')) ?es (PStr (u ''b'')) = Some (FFin 108)"
    by (simp_all add: hb_who_def ex_beat_def dict_get_def)
  have times: "fsub (FFin 111) (FFin 100) = FFin 11" "fsub (FFin 111) (FFin 108) = FFin 3"
    using fsub_of_int [of 111 100] fsub_of_int [of 111 108] by simp_all
  have seen: "map fst (hb_last_seen m) = [PStr (u ''a''), PStr (u ''b'')]" and alive: "hb_state m (PStr (u ''a'')) = NS_ALIVE"
    by (simp_all add: m_def m0_def hb_beat_def process_incoming_heartbeat_def ex_beat_def dict_get_def HeartbeatManager_def
        register_offline_callback_def state_in_def Let_def)
  note A = heartbeat_history_verdict [OF clock m0_def m_def check beats(1)]
  note B = heartbeat_history_verdict [OF clock m0_def m_def check beats(2)]
  have "hb_state m' (PStr (u ''a'')) = NS_OFFLINE" "hb_state m' (PStr (u ''b'')) = NS_ALIVE"
    using A [THEN conjunct1] B [THEN conjunct1] unfolding times by (simp_all add: fval_def)
  moreover have "w' = [PStr (u ''a'')]"
    using A [THEN conjunct2, THEN conjunct2] calculation alive unfolding seen by (simp add: ex_record_peer_def)
  ultimately show ?thesis
    using check unfolding m_def m0_def by blast
qed

end
