(* ===== verification/Monitoring.thy ===== *)
theory Monitoring
  imports Protocol Failure_Detector
begin

text \<open>
  \<open>meshweaver/monitoring.py\<close>: the heartbeat monitor with its three peer states, and the resource status
  that nodes gossip. The clock and the sensors are arguments: a sensor reading is \<open>None\<close> when \<open>psutil\<close>
  cannot be imported. The state-change callback threads a world \<open>'w\<close> and may raise.
\<close>

section \<open>The heartbeat monitor\<close>

definition ALIVE :: pystr where "ALIVE = u ''ALIVE''"
definition SUSPECTED :: pystr where "SUSPECTED = u ''SUSPECTED''"
definition OFFLINE :: pystr where "OFFLINE = u ''OFFLINE''"

lemmas peer_states = ALIVE_def SUSPECTED_def OFFLINE_def

definition local_cpu_load :: "pyval option \<Rightarrow> pyfloat res" where
  "local_cpu_load sensor = (case sensor of Some v \<Rightarrow> py_float v | None \<Rightarrow> Inr (FFin 0))"

definition local_ram_percent :: "pyval option \<Rightarrow> pyfloat res" where
  "local_ram_percent sensor = (case sensor of Some v \<Rightarrow> py_float v | None \<Rightarrow> Inr (FFin 0))"

text \<open>The record of a peer is a dictionary; a field is \<open>None\<close> where the dictionary has no such key.\<close>

record 'a hb_item =
  it_last_seen :: "pyfloat option"
  it_state :: "pystr option"
  it_cpu_load :: "pyfloat option"
  it_ram_percent :: "pyfloat option"
  it_address :: "'a option"

definition empty_item :: "'a hb_item" where
  "empty_item = \<lparr>it_last_seen = None, it_state = None, it_cpu_load = None, it_ram_percent = None, it_address = None\<rparr>"

record 'a heartbeat_monitor =
  hm_timeout :: pyfloat
  hm_interval :: pyfloat
  hm_peers :: "(pystr \<times> 'a hb_item) list"
  hm_task :: bool
  hm_running :: bool

definition HeartbeatMonitor :: "pyfloat \<Rightarrow> pyfloat \<Rightarrow> 'a heartbeat_monitor" where
  "HeartbeatMonitor timeout interval =
     \<lparr>hm_timeout = timeout, hm_interval = interval, hm_peers = [], hm_task = False, hm_running = False\<rparr>"

text \<open>
  \<open>update\<close>: the entry is created before the loads are converted, so a load that does not convert leaves
  an empty entry behind for a new peer and an unchanged one for a known peer.
\<close>

definition hm_update ::
    "'a heartbeat_monitor \<Rightarrow> pyfloat \<Rightarrow> pystr \<Rightarrow> pyval \<Rightarrow> pyval \<Rightarrow> 'a option \<Rightarrow> unit res \<times> 'a heartbeat_monitor" where
  "hm_update m now node_id cpu_load ram_percent address =
     (let m1 = (if map_of (hm_peers m) node_id = None
                then m\<lparr>hm_peers := AList.update node_id empty_item (hm_peers m)\<rparr> else m)
      in case py_float cpu_load of
           Inl e \<Rightarrow> (Inl e, m1)
         | Inr c \<Rightarrow>
             (case py_float ram_percent of
                Inl e \<Rightarrow> (Inl e, m1)
              | Inr r \<Rightarrow> (Inr (), m1\<lparr>hm_peers := AList.update node_id
                    \<lparr>it_last_seen = Some now, it_state = Some ALIVE, it_cpu_load = Some c, it_ram_percent = Some r,
                      it_address = address\<rparr> (hm_peers m1)\<rparr>)))"

definition hm_state :: "'a heartbeat_monitor \<Rightarrow> pystr \<Rightarrow> pystr" where
  "hm_state m node_id =
     (case map_of (hm_peers m) node_id of
        None \<Rightarrow> OFFLINE
      | Some item \<Rightarrow> (case it_state item of None \<Rightarrow> OFFLINE | Some st \<Rightarrow> st))"

text \<open>The new state of a peer by its age.\<close>

definition age_state :: "pyfloat \<Rightarrow> pyfloat \<Rightarrow> pystr" where
  "age_state timeout age =
     (if fle age timeout then ALIVE else if fle age (fdouble timeout) then SUSPECTED else OFFLINE)"

definition item_age :: "pyfloat \<Rightarrow> 'a hb_item \<Rightarrow> pyfloat" where
  "item_age now item = fsub now (case it_last_seen item of None \<Rightarrow> FFin 0 | Some t \<Rightarrow> t)"

type_synonym 'w state_callback = "'w \<Rightarrow> pystr \<Rightarrow> pystr \<Rightarrow> unit res \<times> 'w"

text \<open>
  The loop of \<open>check_once\<close>: the entries afterwards, the changes so far, or the exception of the callback,
  which leaves the remaining entries as they were.
\<close>

fun check_loop ::
    "pyfloat \<Rightarrow> pyfloat \<Rightarrow> 'w state_callback option \<Rightarrow> (pystr \<times> 'a hb_item) list \<Rightarrow> 'w
      \<Rightarrow> (pystr \<times> pystr) list res \<times> (pystr \<times> 'a hb_item) list \<times> 'w" where
  "check_loop timeout now on_state_change [] w = (Inr [], [], w)"
| "check_loop timeout now on_state_change ((node_id, item) # rest) w =
     (let new_state = age_state timeout (item_age now item) in
      if Some new_state \<noteq> it_state item then
        (let item' = item\<lparr>it_state := Some new_state\<rparr>;
             (r, w1) = (case on_state_change of None \<Rightarrow> (Inr (), w) | Some cb \<Rightarrow> cb w node_id new_state)
         in case r of
              Inl e \<Rightarrow> (Inl e, (node_id, item') # rest, w1)
            | Inr _ \<Rightarrow>
                (let (r2, rest', w2) = check_loop timeout now on_state_change rest w1
                 in (and_then r2 (\<lambda>changed. Inr ((node_id, new_state) # changed)), (node_id, item') # rest', w2)))
      else
        (let (r2, rest', w2) = check_loop timeout now on_state_change rest w in (r2, (node_id, item) # rest', w2)))"

definition check_once ::
    "'a heartbeat_monitor \<Rightarrow> pyfloat \<Rightarrow> 'w state_callback option \<Rightarrow> 'w
      \<Rightarrow> (pystr \<times> pystr) list res \<times> 'a heartbeat_monitor \<times> 'w" where
  "check_once m now on_state_change w =
     (let (r, peers', w') = check_loop (hm_timeout m) now on_state_change (hm_peers m) w
      in (r, m\<lparr>hm_peers := peers'\<rparr>, w'))"

text \<open>
  \<open>start\<close>: it sets the running flag and then repeats the body of its loop, a check, as long as the flag
  is set; \<open>stop\<close> clears the flag.
\<close>

definition hm_start :: "'a heartbeat_monitor \<Rightarrow> 'a heartbeat_monitor" where
  "hm_start m = m\<lparr>hm_running := True\<rparr>"

definition hm_loop_body ::
    "'a heartbeat_monitor \<Rightarrow> pyfloat \<Rightarrow> 'w state_callback option \<Rightarrow> 'w \<Rightarrow> unit res \<times> 'a heartbeat_monitor \<times> 'w" where
  "hm_loop_body m now on_state_change w =
     (if hm_running m
      then (let (r, m', w') = check_once m now on_state_change w in (and_then r (\<lambda>_. Inr ()), m', w'))
      else (Inr (), m, w))"

definition hm_stop :: "'a heartbeat_monitor \<Rightarrow> 'a heartbeat_monitor" where
  "hm_stop m = m\<lparr>hm_running := False, hm_task := False\<rparr>"

section \<open>Resource status\<close>

record resource_status =
  rs_node_id :: pyval
  rs_cpu_percent :: pyfloat
  rs_ram_percent :: pyfloat
  rs_timestamp :: pyfloat

definition rs_to_dict :: "resource_status \<Rightarrow> pydict" where
  "rs_to_dict s = [(u ''node_id'', rs_node_id s), (u ''cpu_percent'', PFloat (rs_cpu_percent s)),
     (u ''ram_percent'', PFloat (rs_ram_percent s)), (u ''timestamp'', PFloat (rs_timestamp s))]"

definition rs_from_dict :: "pydict \<Rightarrow> resource_status res" where
  "rs_from_dict data =
     and_then (dict_item data (u ''node_id'')) (\<lambda>n.
     and_then (and_then (dict_item data (u ''cpu_percent'')) py_float) (\<lambda>cpu.
     and_then (and_then (dict_item data (u ''ram_percent'')) py_float) (\<lambda>ram.
     and_then (and_then (dict_item data (u ''timestamp'')) py_float) (\<lambda>ts.
       Inr \<lparr>rs_node_id = n, rs_cpu_percent = cpu, rs_ram_percent = ram, rs_timestamp = ts\<rparr>))))"

text \<open>\<open>ResourceMonitor.collect\<close>: both sensors come from one import, so they are absent together.\<close>

definition rm_collect :: "pystr \<Rightarrow> (pyval \<times> pyval) option \<Rightarrow> pyfloat \<Rightarrow> resource_status res" where
  "rm_collect node_id sensors now =
     (let (cpu, ram) = (case sensors of Some cr \<Rightarrow> cr | None \<Rightarrow> (PFloat (FFin 0), PFloat (FFin 0))) in
      and_then (py_float cpu) (\<lambda>c.
      and_then (py_float ram) (\<lambda>r.
        Inr \<lparr>rs_node_id = PStr node_id, rs_cpu_percent = c, rs_ram_percent = r, rs_timestamp = now\<rparr>)))"

lemma rs_from_to_dict: "rs_from_dict (rs_to_dict s) = Inr s"
  by (simp add: rs_from_dict_def rs_to_dict_def dict_item_def py_float_def)

section \<open>A check\<close>

definition state_changes :: "pyfloat \<Rightarrow> pyfloat \<Rightarrow> (pystr \<times> 'a hb_item) list \<Rightarrow> (pystr \<times> pystr) list" where
  "state_changes timeout now peers =
     map (\<lambda>(n, item). (n, age_state timeout (item_age now item)))
       (filter (\<lambda>(n, item). it_state item \<noteq> Some (age_state timeout (item_age now item))) peers)"

definition reclassified :: "pyfloat \<Rightarrow> pyfloat \<Rightarrow> (pystr \<times> 'a hb_item) list \<Rightarrow> (pystr \<times> 'a hb_item) list" where
  "reclassified timeout now peers =
     map (\<lambda>(n, item). (n, item\<lparr>it_state := Some (age_state timeout (item_age now item))\<rparr>)) peers"

definition never_raises :: "'w state_callback option \<Rightarrow> bool" where
  "never_raises cb \<longleftrightarrow> (\<forall>f w n st. cb = Some f \<longrightarrow> fst (f w n st) = Inr ())"

definition notify :: "'w state_callback option \<Rightarrow> pystr \<times> pystr \<Rightarrow> 'w \<Rightarrow> 'w" where
  "notify cb = (\<lambda>(n, st) w. case cb of None \<Rightarrow> w | Some f \<Rightarrow> snd (f w n st))"

lemma check_loop_ok:
  assumes "never_raises cb"
  shows "check_loop timeout now cb peers w =
    (Inr (state_changes timeout now peers), reclassified timeout now peers, fold (notify cb) (state_changes timeout now peers) w)"
proof (induction peers arbitrary: w)
  case (Cons np peers)
  obtain n item where np: "np = (n, item)" by fastforce
  let ?st = "age_state timeout (item_age now item)"
  show ?case
  proof (cases "it_state item = Some ?st")
    case True
    then have "item\<lparr>it_state := Some ?st\<rparr> = item" by simp
    with True Cons show ?thesis
      by (simp add: np state_changes_def reclassified_def)
  next
    case False
    have "(case cb of None \<Rightarrow> (Inr (), w) | Some f \<Rightarrow> f w n ?st) = (Inr (), notify cb (n, ?st) w)"
      using assms by (auto simp: never_raises_def notify_def prod_eq_iff split: option.splits)
    with False Cons show ?thesis
      by (simp add: np state_changes_def reclassified_def Let_def eq_commute [of "Some _" "it_state item"])
  qed
qed (simp add: state_changes_def reclassified_def)

lemma map_of_reclassified:
  "map_of (reclassified timeout now peers) n
    = map_option (\<lambda>item. item\<lparr>it_state := Some (age_state timeout (item_age now item))\<rparr>) (map_of peers n)"
  by (induction peers) (auto simp: reclassified_def)

lemma hm_state_checked:
  assumes "never_raises cb" and "check_once m now cb w = (r, m', w')"
  shows "hm_state m' n = (case map_of (hm_peers m) n of None \<Rightarrow> OFFLINE | Some item \<Rightarrow> age_state (hm_timeout m) (item_age now item))"
  using assms(2) by (auto simp: check_once_def check_loop_ok [OF assms(1)] hm_state_def map_of_reclassified split: option.splits)

section \<open>The monitor as a failure detector\<close>

type_synonym 'a update_call = "pystr \<times> pyval \<times> pyval \<times> 'a option"

text \<open>What the monitor knows of a peer that was heard from: when, and the state it reports.\<close>

definition hm_look :: "'a heartbeat_monitor \<Rightarrow> pystr \<Rightarrow> (pyfloat \<times> pystr) option" where
  "hm_look m n =
     (case map_of (hm_peers m) n of
        None \<Rightarrow> None
      | Some item \<Rightarrow> map_option (\<lambda>t. (t, hm_state m n)) (it_last_seen item))"

definition hm_who :: "'a update_call \<Rightarrow> pystr option" where
  "hm_who = (\<lambda>(n, cpu, ram, _). if isl (py_float cpu) \<or> isl (py_float ram) then None else Some n)"

definition hm_beat :: "pyfloat \<Rightarrow> 'a update_call \<Rightarrow> 'a heartbeat_monitor \<Rightarrow> 'a heartbeat_monitor" where
  "hm_beat now = (\<lambda>(n, cpu, ram, addr) m. snd (hm_update m now n cpu ram addr))"

definition hm_check :: "pyfloat \<Rightarrow> 'a heartbeat_monitor \<Rightarrow> 'a heartbeat_monitor" where
  "hm_check now m = m\<lparr>hm_peers := reclassified (hm_timeout m) now (hm_peers m)\<rparr>"

definition state_rank :: "pystr \<Rightarrow> nat" where
  "state_rank st = (if st = ALIVE then 0 else if st = SUSPECTED then 1 else 2)"

lemma check_once_ok:
  assumes "never_raises cb"
  shows "check_once m now cb w = (Inr (state_changes (hm_timeout m) now (hm_peers m)), hm_check now m,
    fold (notify cb) (state_changes (hm_timeout m) now (hm_peers m)) w)"
  by (simp add: check_once_def check_loop_ok [OF assms] hm_check_def)

lemma hm_look_update:
  "hm_look (snd (hm_update m t n cpu ram addr)) =
    (if isl (py_float cpu) \<or> isl (py_float ram) then hm_look m else (hm_look m)(n \<mapsto> (t, ALIVE)))"
  by (auto simp: hm_update_def hm_look_def hm_state_def Let_def update_conv' empty_item_def fun_eq_iff isl_def
      split: sum.splits option.splits)

interpretation hm: failure_detector "\<lambda>_. True" hm_look hm_who hm_beat hm_check "\<lambda>m. age_state (hm_timeout m)" ALIVE state_rank
proof (unfold_locales, simp_all only: True_implies_equals)
  show "hm_look (hm_beat t x m) = (case hm_who x of None \<Rightarrow> hm_look m | Some p \<Rightarrow> (hm_look m)(p \<mapsto> (t, ALIVE)))"
    for t m and x :: "'a update_call"
    by (cases x) (simp add: hm_beat_def hm_who_def hm_look_update)
  show "hm_look m p = None \<Longrightarrow> hm_look (hm_check now m) p = None" for p now and m :: "'a heartbeat_monitor"
    by (auto simp: hm_look_def hm_check_def map_of_reclassified split: option.splits)
  show "hm_look m p = Some (t, st) \<Longrightarrow> state_rank st \<le> state_rank (age_state (hm_timeout m) (fsub now t)) \<Longrightarrow>
      hm_look (hm_check now m) p = Some (t, age_state (hm_timeout m) (fsub now t))" for p t st now and m :: "'a heartbeat_monitor"
    by (auto simp: hm_look_def hm_check_def hm_state_def map_of_reclassified item_age_def split: option.splits)
  show "(\<lambda>d. age_state (hm_timeout (hm_beat t x m)) d) = age_state (hm_timeout m)" for t m and x :: "'a update_call"
    by (cases x) (simp add: hm_beat_def hm_update_def Let_def split: sum.splits)
  show "(\<lambda>d. age_state (hm_timeout (hm_check t m)) d) = age_state (hm_timeout m)" for t and m :: "'a heartbeat_monitor"
    by (simp add: hm_check_def)
  show "state_rank ALIVE = 0"
    by (simp add: state_rank_def)
  fix d d' and m :: "'a heartbeat_monitor"
  assume "fle d d'"
  then have "fle d' x \<Longrightarrow> fle d x" for x
    by (rule fle_trans)
  moreover have "state_rank ALIVE = 0" "state_rank SUSPECTED = 1" "state_rank OFFLINE = 2"
    by (simp_all add: state_rank_def peer_states)
  ultimately show "state_rank (age_state (hm_timeout m) d) \<le> state_rank (age_state (hm_timeout m) d')"
    by (simp add: age_state_def)
qed

lemma hm_check_None: "fst (snd (check_once m now None w)) = hm_check now m"
  by (simp add: check_once_ok never_raises_def)

lemma distinct_peers_run:
  "distinct (map fst (hm_peers m)) \<Longrightarrow> distinct (map fst (hm_peers (detector_run hm_beat hm_check m es)))"
proof (induction es)
  case (Cons e es)
  have "map fst (reclassified timeout now peers) = map fst peers" for timeout now and peers :: "(pystr \<times> 'a hb_item) list"
    by (auto simp: reclassified_def)
  moreover have "distinct (map fst (hm_peers (snd (hm_update m t n cpu ram addr))))" if "distinct (map fst (hm_peers m))"
    for m :: "'a heartbeat_monitor" and t n cpu ram addr
    using that by (simp add: hm_update_def Let_def distinct_update split: sum.splits)
  ultimately show ?case
    using Cons by (cases e) (auto simp: hm_check_def hm_beat_def)
qed simp

lemma state_changes_report:
  assumes "distinct (map fst (hm_peers m))"
  shows "(n, st) \<in> set (state_changes (hm_timeout m) now (hm_peers m)) \<Longrightarrow> st = hm_state (hm_check now m) n"
    and "hm_state (hm_check now m) n \<noteq> hm_state m n \<Longrightarrow>
      (n, hm_state (hm_check now m) n) \<in> set (state_changes (hm_timeout m) now (hm_peers m))"
proof -
  assume "(n, st) \<in> set (state_changes (hm_timeout m) now (hm_peers m))"
  then obtain item where "(n, item) \<in> set (hm_peers m)" and "st = age_state (hm_timeout m) (item_age now item)"
    by (auto simp: state_changes_def)
  then show "st = hm_state (hm_check now m) n"
    using map_of_is_SomeI [OF assms] by (simp add: hm_state_def hm_check_def map_of_reclassified)
next
  assume "hm_state (hm_check now m) n \<noteq> hm_state m n"
  then obtain item where item: "map_of (hm_peers m) n = Some item"
    and st: "hm_state (hm_check now m) n = age_state (hm_timeout m) (item_age now item)"
    and "it_state item \<noteq> Some (age_state (hm_timeout m) (item_age now item))"
    by (auto simp: hm_state_def hm_check_def map_of_reclassified split: option.splits)
  then have "(n, item) \<in> set (filter (\<lambda>(n, item). it_state item \<noteq> Some (age_state (hm_timeout m) (item_age now item))) (hm_peers m))"
    by (auto dest: map_of_SomeD)
  then show "(n, hm_state (hm_check now m) n) \<in> set (state_changes (hm_timeout m) now (hm_peers m))"
    unfolding st state_changes_def set_map by (rule rev_image_eqI) simp
qed

section \<open>Properties\<close>

text \<open>
  C16. The verdict of the monitor over any history of updates and checks whose clock does not go back: after
  a check at \<open>now\<close> (with any callback that does not raise) the state of a peer is decided by the time \<open>t\<close>
  of its last successful update alone: ALIVE up to the timeout, SUSPECTED up to twice the timeout, OFFLINE
  beyond. A peer without a successful update is OFFLINE, or judged as last seen at time 0 when an update
  of it raised. The check returns the peers whose state changed, each with its new state, and calls the
  callback once for each of these, in the order of the result.
\<close>

theorem monitor_history_verdict:
  assumes "clock_ok (Check now # es)" and "never_raises cb"
    and m: "m = detector_run hm_beat hm_check (HeartbeatMonitor timeout interval) es"
  shows "\<exists>changed m'. check_once m now cb w = (Inr changed, m', fold (notify cb) changed w) \<and>
    (case last_beat hm_who es n of
       Some t \<Rightarrow> hm_state m' n = age_state timeout (fsub now t)
     | None \<Rightarrow> hm_state m' n \<in> {OFFLINE, age_state timeout (fsub now (FFin 0))}) \<and>
    (\<forall>st. (n, st) \<in> set changed \<longrightarrow> st = hm_state m' n) \<and>
    (hm_state m' n \<noteq> hm_state m n \<longrightarrow> (n, hm_state m' n) \<in> set changed)"
proof (intro exI conjI)
  let ?m0 = "HeartbeatMonitor timeout interval :: 'a heartbeat_monitor"
  have "hm_look ?m0 n = None" and d0: "distinct (map fst (hm_peers ?m0))"
    by (simp_all add: hm_look_def HeartbeatMonitor_def)
  then have look: "hm_look (hm_check now m) n = map_option (\<lambda>t. (t, age_state timeout (fsub now t))) (last_beat hm_who es n)"
    using hm.checked [OF TrueI _ assms(1), of ?m0 n] by (simp add: m HeartbeatMonitor_def)
  have timeout: "age_state (hm_timeout m) = age_state timeout"
    using hm.verdict_run [of ?m0 es] by (simp add: m HeartbeatMonitor_def)
  show "check_once m now cb w = (Inr (state_changes (hm_timeout m) now (hm_peers m)), hm_check now m,
    fold (notify cb) (state_changes (hm_timeout m) now (hm_peers m)) w)"
    by (rule check_once_ok [OF assms(2)])
  show "case last_beat hm_who es n of
       Some t \<Rightarrow> hm_state (hm_check now m) n = age_state timeout (fsub now t)
     | None \<Rightarrow> hm_state (hm_check now m) n \<in> {OFFLINE, age_state timeout (fsub now (FFin 0))}"
    using look timeout by (cases "last_beat hm_who es n")
      (auto simp: hm_look_def hm_check_def hm_state_def map_of_reclassified item_age_def split: option.splits)
  have "distinct (map fst (hm_peers m))"
    unfolding m by (rule distinct_peers_run [OF d0])
  note report = state_changes_report [OF this]
  show "\<forall>st. (n, st) \<in> set (state_changes (hm_timeout m) now (hm_peers m)) \<longrightarrow> st = hm_state (hm_check now m) n"
    using report(1) by blast
  show "hm_state (hm_check now m) n \<noteq> hm_state m n \<longrightarrow>
      (n, hm_state (hm_check now m) n) \<in> set (state_changes (hm_timeout m) now (hm_peers m))"
    using report(2) by blast
qed

theorem monitor_history_verdict_witness:
  "\<exists>changed m'. check_once (detector_run hm_beat hm_check (HeartbeatMonitor (FFin 3) (FFin 1))
        [Check (FFin 102), Beat (FFin 100) (u ''a'', PFloat (FFin 5), PFloat (FFin 6), None :: nat option)]) (FFin 105) None ()
      = (Inr changed, m', ()) \<and> hm_state m' (u ''a'') = SUSPECTED \<and> (u ''a'', SUSPECTED) \<in> set changed"
proof -
  let ?es = "[Check (FFin 102), Beat (FFin 100) (u ''a'', PFloat (FFin 5), PFloat (FFin 6), None :: nat option)]"
  let ?m0 = "HeartbeatMonitor (FFin 3) (FFin 1) :: nat heartbeat_monitor"
  define m where "m = detector_run hm_beat hm_check ?m0 ?es"
  have clock: "clock_ok (Check (FFin 105) # ?es)" and quiet: "never_raises (None :: unit state_callback option)"
    by (simp_all add: clock_ok_def is_finite_def fval_def never_raises_def)
  have beat: "last_beat hm_who ?es (u ''a'') = Some (FFin 100)"
    by (simp add: hm_who_def py_float_def)
  have times: "fsub (FFin 105) (FFin 100) = FFin 5" "fsub (FFin 102) (FFin 100) = FFin 2" "fdouble (FFin 3) = FFin 6"
    using fsub_of_int [of 105 100] fsub_of_int [of 102 100] round64_of_int [of 6] by simp_all
  have "age_state (FFin 3) (FFin 5) = SUSPECTED" "age_state (FFin 3) (FFin 2) = ALIVE"
    by (simp_all add: age_state_def times fval_def del: fdouble.simps)
  moreover have "hm_state m (u ''a'') = ALIVE"
    by (simp add: m_def hm_check_def hm_beat_def hm_update_def HeartbeatMonitor_def py_float_def reclassified_def hm_state_def
        item_age_def times age_state_def fval_def del: fsub.simps)
  moreover obtain changed m' where "check_once m (FFin 105) None () = (Inr changed, m', fold (notify None) changed ())"
    and "case last_beat hm_who ?es (u ''a'') of
        Some t \<Rightarrow> hm_state m' (u ''a'') = age_state (FFin 3) (fsub (FFin 105) t)
      | None \<Rightarrow> hm_state m' (u ''a'') \<in> {OFFLINE, age_state (FFin 3) (fsub (FFin 105) (FFin 0))}"
    and "hm_state m' (u ''a'') \<noteq> hm_state m (u ''a'') \<longrightarrow> (u ''a'', hm_state m' (u ''a'')) \<in> set changed"
    using monitor_history_verdict [OF clock quiet m_def, where n = "u ''a''" and w = "()"] by blast
  moreover have "ALIVE \<noteq> SUSPECTED"
    by (simp add: peer_states)
  ultimately show ?thesis
    unfolding m_def [symmetric] beat option.case times by auto
qed

end
