(* ===== verification/Gossip.thy ===== *)
theory Gossip
  imports Monitoring Py_Dict
begin

text \<open>
  \<open>meshweaver/gossip.py\<close>: the table of peer loads that nodes exchange. The state of the manager is a
  record; the bodies of the background loops are steps that interleave with incoming messages (theory
  Background_Loops has the loops themselves). A history of these steps tells where each entry comes from.
  The transport callback threads a world \<open>'w\<close> and may raise; clock readings and sensor values are arguments.
\<close>

type_synonym 'w gossip_transport = "'w \<Rightarrow> pydict \<Rightarrow> unit res \<times> 'w"

definition GOSSIP_RESOURCE_UPDATE :: pystr where
  "GOSSIP_RESOURCE_UPDATE = u ''GOSSIP_RESOURCE_UPDATE''"

definition build_status_msg :: "resource_status \<Rightarrow> pydict" where
  "build_status_msg status = [(u ''type'', PStr GOSSIP_RESOURCE_UPDATE), (u ''data'', PDict (rs_to_dict status))]"

text \<open>\<open>BackgroundMonitorLoop\<close> (its running flag and latest status) is part of the manager's state.\<close>

record 'w gossip_manager =
  gm_node_id :: pystr
  gm_ttl :: pyfloat
  gm_monitor_interval :: pyfloat
  gm_running :: bool
  gm_latest :: "resource_status option"
  gm_peer_table :: "(pyval \<times> pydict) list"
  gm_transport_cb :: "'w gossip_transport option"

definition GossipManager :: "pystr \<Rightarrow> pyfloat \<Rightarrow> pyfloat \<Rightarrow> 'w gossip_manager" where
  "GossipManager node_id monitor_interval ttl =
     \<lparr>gm_node_id = node_id, gm_ttl = ttl, gm_monitor_interval = monitor_interval, gm_running = False,
      gm_latest = None, gm_peer_table = [], gm_transport_cb = None\<rparr>"

definition set_transport :: "'w gossip_manager \<Rightarrow> 'w gossip_transport \<Rightarrow> 'w gossip_manager" where
  "set_transport m cb = m\<lparr>gm_transport_cb := Some cb\<rparr>"

text \<open>
  A true value that is no dictionary has no method \<open>get\<close> (\<open>AttributeError\<close>), a dictionary without
  \<open>node_id\<close> raises \<open>KeyError\<close>, an unhashable \<open>node_id\<close> raises \<open>TypeError\<close>.
\<close>

definition handle_incoming_gossip :: "'w gossip_manager \<Rightarrow> pyval \<Rightarrow> unit res \<times> 'w gossip_manager" where
  "handle_incoming_gossip m msg =
     (case msg of
        PDict d \<Rightarrow>
          if dict_get d (u ''type'') \<noteq> PStr GOSSIP_RESOURCE_UPDATE then (Inr (), m)
          else if \<not> truthy (dict_get d (u ''data'')) then (Inr (), m)
          else
            (case dict_get d (u ''data'') of
               PDict payload \<Rightarrow>
                 if dict_get payload (u ''node_id'') = PStr (gm_node_id m) then (Inr (), m)
                 else
                   (case and_then (dict_item payload (u ''node_id'')) dict_key of
                      Inl e \<Rightarrow> (Inl e, m)
                    | Inr peer_id \<Rightarrow> (Inr (), m\<lparr>gm_peer_table := AList.update peer_id payload (gm_peer_table m)\<rparr>))
             | _ \<Rightarrow> (Inl AttributeError, m))
      | _ \<Rightarrow> (Inr (), m))"

text \<open>\<open>now - x\<close> for a float \<open>now\<close>.\<close>

definition float_minus :: "pyfloat \<Rightarrow> pyval \<Rightarrow> pyfloat res" where
  "float_minus now v = (case v of PStr _ \<Rightarrow> Inl TypeError | _ \<Rightarrow> and_then (py_float v) (\<lambda>x. Inr (fsub now x)))"

definition is_expired :: "pyfloat \<Rightarrow> pyfloat \<Rightarrow> pydict \<Rightarrow> bool res" where
  "is_expired now ttl info =
     and_then (float_minus now (case map_of info (u ''timestamp'') of Some v \<Rightarrow> v | None \<Rightarrow> PInt 0))
       (\<lambda>d. Inr (flt ttl d))"

text \<open>The list of expired peers is computed first, so an exception leaves the table as it was.\<close>

definition cleanup_stale_peers :: "'w gossip_manager \<Rightarrow> pyfloat \<Rightarrow> unit res \<times> 'w gossip_manager" where
  "cleanup_stale_peers m now =
     (case map_res (\<lambda>(pid, info). and_then (is_expired now (gm_ttl m) info) (\<lambda>b. Inr (pid, b))) (gm_peer_table m) of
        Inl e \<Rightarrow> (Inl e, m)
      | Inr flags \<Rightarrow>
          (Inr (), m\<lparr>gm_peer_table := foldl (\<lambda>t pid. AList.delete pid t) (gm_peer_table m) (map fst (filter snd flags))\<rparr>))"

definition on_local_update :: "'w gossip_manager \<Rightarrow> resource_status \<Rightarrow> 'w gossip_manager" where
  "on_local_update m status = m\<lparr>gm_peer_table := AList.update (PStr (gm_node_id m)) (rs_to_dict status) (gm_peer_table m)\<rparr>"

text \<open>
  The body of the monitor loop with the callback \<open>broadcast_loop\<close> gives it; an exception of the sensors is
  logged. The body of the broadcast loop: the cleanup is outside the \<open>try\<close>, so its exception ends the loop
  (the result is then \<open>Inl\<close>); an exception of the transport is logged.
\<close>

definition monitor_loop_body :: "'w gossip_manager \<Rightarrow> (pyval \<times> pyval) option \<Rightarrow> pyfloat \<Rightarrow> 'w gossip_manager" where
  "monitor_loop_body m sensors now =
     (if \<not> gm_running m then m
      else
        (case rm_collect (gm_node_id m) sensors now of
           Inl _ \<Rightarrow> m
         | Inr status \<Rightarrow> on_local_update (m\<lparr>gm_latest := Some status\<rparr>) status))"

definition monitor_loop_start :: "'w gossip_manager \<Rightarrow> 'w gossip_manager" where
  "monitor_loop_start m = m\<lparr>gm_running := True\<rparr>"

definition monitor_loop_stop :: "'w gossip_manager \<Rightarrow> 'w gossip_manager" where
  "monitor_loop_stop m = m\<lparr>gm_running := False\<rparr>"

definition broadcast_loop_body :: "'w gossip_manager \<Rightarrow> pyfloat \<Rightarrow> 'w \<Rightarrow> unit res \<times> 'w gossip_manager \<times> 'w" where
  "broadcast_loop_body m now w =
     (case cleanup_stale_peers m now of
        (Inl e, m') \<Rightarrow> (Inl e, m', w)
      | (Inr _, m') \<Rightarrow>
          (case (gm_latest m', gm_transport_cb m') of
             (Some status, Some cb) \<Rightarrow> (Inr (), m', snd (cb w (build_status_msg status)))
           | _ \<Rightarrow> (Inr (), m', w)))"

section \<open>Cleaning up\<close>

lemma delete_all:
  "foldl (\<lambda>t pid. AList.delete pid t) kvs ks = filter (\<lambda>(k, v). k \<notin> set ks) kvs"
proof (induction ks arbitrary: kvs)
  case (Cons k ks)
  have "AList.delete k kvs = filter (\<lambda>(k', v). k' \<noteq> k) kvs"
    by (induction kvs) auto
  with Cons show ?case
    by (auto intro!: filter_cong)
qed (simp add: split_beta)

lemma cleanup_raises:
  assumes "(k, info) \<in> set (gm_peer_table m)" and "is_expired now (gm_ttl m) info = Inl e"
  shows "\<exists>e. cleanup_stale_peers m now = (Inl e, m)"
proof -
  have "\<exists>x \<in> set (gm_peer_table m). \<exists>e. (\<lambda>(pid, info). and_then (is_expired now (gm_ttl m) info) (\<lambda>b. Inr (pid, b))) x = Inl e"
    using assms by force
  then obtain e where "map_res (\<lambda>(pid, info). and_then (is_expired now (gm_ttl m) info) (\<lambda>b. Inr (pid, b))) (gm_peer_table m) = Inl e"
    unfolding map_res_Inl_iff [symmetric] by blast
  then show ?thesis
    by (simp add: cleanup_stale_peers_def)
qed

lemma cleanup_returns:
  assumes dist: "distinct (map fst (gm_peer_table m))"
    and x: "\<And>k info. (k, info) \<in> set (gm_peer_table m) \<Longrightarrow> is_expired now (gm_ttl m) info = Inr (x info)"
  shows "cleanup_stale_peers m now = (Inr (), m\<lparr>gm_peer_table := filter (\<lambda>(k, info). \<not> x info) (gm_peer_table m)\<rparr>)"
proof -
  let ?t = "gm_peer_table m" and ?flags = "map (\<lambda>(k, info). (k, x info)) (gm_peer_table m)"
  have "map_res (\<lambda>(pid, info). and_then (is_expired now (gm_ttl m) info) (\<lambda>b. Inr (pid, b))) ?t = Inr ?flags"
    by (rule map_res_InrI) (auto simp: x)
  moreover have "k \<in> set (map fst (filter snd ?flags)) \<longleftrightarrow> (\<exists>info'. (k, info') \<in> set ?t \<and> x info')" for k
    by (force simp: image_iff)
  then have "k \<in> set (map fst (filter snd ?flags)) \<longleftrightarrow> x info" if "(k, info) \<in> set ?t" for k info
    using that eq_key_imp_eq_value [OF dist that] by blast
  then have "filter (\<lambda>(k, v). k \<notin> set (map fst (filter snd ?flags))) ?t = filter (\<lambda>(k, info). \<not> x info) ?t"
    by (intro filter_cong refl) (auto simp del: set_map set_filter)
  ultimately show ?thesis
    by (simp add: cleanup_stale_peers_def delete_all)
qed

lemma cleanup_filters:
  assumes "distinct (map fst (gm_peer_table m))"
  shows "\<exists>P. snd (cleanup_stale_peers m now) = m\<lparr>gm_peer_table := filter P (gm_peer_table m)\<rparr>"
proof (cases "\<exists>(k, info) \<in> set (gm_peer_table m). isl (is_expired now (gm_ttl m) info)")
  case True
  then have "snd (cleanup_stale_peers m now) = m"
    using cleanup_raises [of _ _ m now] by (force simp: isl_def)
  then show ?thesis by (intro exI [of _ "\<lambda>_. True"]) simp
next
  case False
  then have "(k, info) \<in> set (gm_peer_table m) \<Longrightarrow> is_expired now (gm_ttl m) info = Inr (projr (is_expired now (gm_ttl m) info))" for k info
    by (cases "is_expired now (gm_ttl m) info") auto
  from cleanup_returns [OF assms this] show ?thesis by auto
qed

section \<open>Reachable managers\<close>

inductive gossip_step :: "'w gossip_manager \<Rightarrow> 'w gossip_manager \<Rightarrow> bool" where
  gs_incoming: "handle_incoming_gossip m msg = (r, m') \<Longrightarrow> gossip_step m m'"
| gs_monitor: "gossip_step m (monitor_loop_body m sensors now)"
| gs_broadcast: "broadcast_loop_body m now w = (r, m', w') \<Longrightarrow> gossip_step m m'"
| gs_transport: "gossip_step m (set_transport m cb)"
| gs_start: "gossip_step m (monitor_loop_start m)"
| gs_stop: "gossip_step m (monitor_loop_stop m)"

text \<open>The managers a new one can become.\<close>

inductive gossip_reachable :: "pystr \<Rightarrow> pyfloat \<Rightarrow> 'w gossip_manager \<Rightarrow> bool" for node_id ttl where
  gr_new: "gossip_reachable node_id ttl (GossipManager node_id monitor_interval ttl)"
| gr_step: "gossip_reachable node_id ttl m \<Longrightarrow> gossip_step m m' \<Longrightarrow> gossip_reachable node_id ttl m'"

text \<open>
  The table: one entry per key, filed under the key of its own \<open>node_id\<close>; the entry of the node itself
  is a status of its own monitor.
\<close>

definition own_status :: "pystr \<Rightarrow> pydict \<Rightarrow> bool" where
  "own_status node_id d \<longleftrightarrow> (\<exists>status. rs_node_id status = PStr node_id \<and> d = rs_to_dict status)"

definition table_ok :: "pystr \<Rightarrow> (pyval \<times> pydict) list \<Rightarrow> bool" where
  "table_ok node_id t \<longleftrightarrow> distinct (map fst t) \<and>
     (\<forall>(k, d) \<in> set t. (\<exists>v. map_of d (u ''node_id'') = Some v \<and> dict_key v = Inr k) \<and>
        (k = PStr node_id \<longrightarrow> own_status node_id d))"

definition entry_ok :: "pystr \<Rightarrow> pyval \<times> pydict \<Rightarrow> bool" where
  "entry_ok node_id = (\<lambda>(k, d). (\<exists>v. map_of d (u ''node_id'') = Some v \<and> dict_key v = Inr k) \<and>
     (k = PStr node_id \<longrightarrow> own_status node_id d))"

lemma table_ok_iff: "table_ok n t \<longleftrightarrow> distinct (map fst t) \<and> (\<forall>e \<in> set t. entry_ok n e)"
  by (simp add: table_ok_def entry_ok_def)

lemma table_ok_update:
  assumes "table_ok n t" and "entry_ok n (k, d)"
  shows "table_ok n (AList.update k d t)"
  using assms set_update_subset [of k d t] unfolding table_ok_iff by (blast intro: distinct_update)

lemma table_ok_filter: "table_ok n t \<Longrightarrow> table_ok n (filter P t)"
  unfolding table_ok_iff by (simp add: distinct_map_filter)

lemma handle_incoming_cases:
  "snd (handle_incoming_gossip m msg) = m \<or>
   (\<exists>payload v k. map_of payload (u ''node_id'') = Some v \<and> dict_key v = Inr k \<and> v \<noteq> PStr (gm_node_id m) \<and>
      snd (handle_incoming_gossip m msg) = m\<lparr>gm_peer_table := AList.update k payload (gm_peer_table m)\<rparr>)"
  by (cases msg) (auto simp: handle_incoming_gossip_def dict_get_def dict_item_def res_simps
      split: pyval.splits sum.splits option.splits)

lemma gossip_step_ok:
  assumes "gossip_step m m'" and "table_ok (gm_node_id m) (gm_peer_table m)"
  shows "gm_node_id m' = gm_node_id m \<and> gm_ttl m' = gm_ttl m \<and> table_ok (gm_node_id m) (gm_peer_table m')"
  using assms(1)
proof cases
  case (gs_incoming msg r)
  then have "m' = snd (handle_incoming_gossip m msg)" by simp
  then show ?thesis
    using assms(2) handle_incoming_cases [of m msg] by (auto simp: entry_ok_def intro!: table_ok_update)
next
  case (gs_monitor sensors now)
  have "rs_node_id status = PStr (gm_node_id m) \<Longrightarrow> entry_ok (gm_node_id m) (PStr (gm_node_id m), rs_to_dict status)" for status
    by (auto simp: entry_ok_def own_status_def rs_to_dict_def)
  moreover have "rm_collect n s t = Inr status \<Longrightarrow> rs_node_id status = PStr n" for n s t status
    by (auto simp: rm_collect_def res_simps split: prod.splits)
  ultimately show ?thesis
    using assms(2) by (auto simp: gs_monitor monitor_loop_body_def on_local_update_def table_ok_update split: sum.splits)
next
  case (gs_broadcast now w r w')
  have "m' = snd (cleanup_stale_peers m now)"
    using gs_broadcast by (auto simp: broadcast_loop_body_def split: prod.splits sum.splits option.splits)
  then show ?thesis
    using assms(2) cleanup_filters [of m now] by (auto simp: table_ok_iff distinct_map_filter)
qed (simp_all add: assms(2) set_transport_def monitor_loop_start_def monitor_loop_stop_def)

section \<open>Properties\<close>

lemma gossip_reachable_ok:
  assumes "gossip_reachable node_id ttl m"
  shows "gm_node_id m = node_id \<and> gm_ttl m = ttl \<and> table_ok node_id (gm_peer_table m)"
  using assms
proof induction
  case gr_new
  show ?case by (simp add: GossipManager_def table_ok_iff)
next
  case (gr_step m m')
  then show ?case using gossip_step_ok by fastforce
qed

text \<open>
  Histories: what happens to a manager, and what a history says of the two sources of the table. The
  status last collected is that of the last monitor round whose sensors could be read while the loop was
  running; a message announces a payload when it is a well-formed update that does not name the node itself.
\<close>

datatype 'w gossip_event =
    Received pyval | MonitorRound "(pyval \<times> pyval) option" pyfloat | BroadcastRound pyfloat 'w
  | TransportSet "'w gossip_transport" | MonitorStarted | MonitorStopped

fun gossip_do :: "'w gossip_manager \<Rightarrow> 'w gossip_event \<Rightarrow> 'w gossip_manager" where
  "gossip_do m (Received msg) = snd (handle_incoming_gossip m msg)"
| "gossip_do m (MonitorRound sensors now) = monitor_loop_body m sensors now"
| "gossip_do m (BroadcastRound now w) = fst (snd (broadcast_loop_body m now w))"
| "gossip_do m (TransportSet cb) = set_transport m cb"
| "gossip_do m MonitorStarted = monitor_loop_start m"
| "gossip_do m MonitorStopped = monitor_loop_stop m"

definition gossip_run :: "pystr \<Rightarrow> pyfloat \<Rightarrow> pyfloat \<Rightarrow> 'w gossip_event list \<Rightarrow> 'w gossip_manager" where
  "gossip_run node_id monitor_interval ttl evs = foldl gossip_do (GossipManager node_id monitor_interval ttl) evs"

fun monitor_on :: "'w gossip_event list \<Rightarrow> bool" where
  "monitor_on [] = False"
| "monitor_on (MonitorStarted # h) = True"
| "monitor_on (MonitorStopped # h) = False"
| "monitor_on (_ # h) = monitor_on h"

fun last_collected :: "pystr \<Rightarrow> 'w gossip_event list \<Rightarrow> resource_status option" where
  "last_collected node_id [] = None"
| "last_collected node_id (MonitorRound sensors now # h) =
     (case rm_collect node_id sensors now of
        Inr status \<Rightarrow> if monitor_on h then Some status else last_collected node_id h
      | Inl _ \<Rightarrow> last_collected node_id h)"
| "last_collected node_id (_ # h) = last_collected node_id h"

definition announces :: "pystr \<Rightarrow> pyval \<Rightarrow> pyval \<Rightarrow> pydict \<Rightarrow> bool" where
  "announces node_id msg k payload \<longleftrightarrow> (\<exists>m v. msg = PDict m \<and> map_of m (u ''type'') = Some (PStr GOSSIP_RESOURCE_UPDATE) \<and>
     map_of m (u ''data'') = Some (PDict payload) \<and> map_of payload (u ''node_id'') = Some v \<and>
     v \<noteq> PStr node_id \<and> dict_key v = Inr k)"

lemma gossip_run_reachable: "gossip_reachable node_id ttl (gossip_run node_id monitor_interval ttl evs)"
proof (induction evs rule: rev_induct)
  case Nil
  show ?case by (simp add: gossip_run_def gr_new)
next
  case (snoc e evs)
  have "gossip_step m (gossip_do m e)" for m
    using gs_incoming [of m _ _ "gossip_do m e"] gs_broadcast [of m _ _ _ "gossip_do m e"]
    by (cases e) (auto intro: gs_monitor gs_transport gs_start gs_stop simp: prod_eq_iff)
  with snoc show ?case
    by (auto simp: gossip_run_def intro: gr_step)
qed

text \<open>Where the entries come from.\<close>

definition entry_from :: "pystr \<Rightarrow> 'w gossip_event list \<Rightarrow> pyval \<times> pydict \<Rightarrow> bool" where
  "entry_from node_id evs = (\<lambda>(k, d).
     if k = PStr node_id then \<exists>status. last_collected node_id (rev evs) = Some status \<and> d = rs_to_dict status
     else \<exists>msg. Received msg \<in> set evs \<and> announces node_id msg k d)"

lemma handle_incoming_announces:
  "snd (handle_incoming_gossip m msg) = m \<or>
   (\<exists>payload k. announces (gm_node_id m) msg k payload \<and> k \<noteq> PStr (gm_node_id m) \<and>
      snd (handle_incoming_gossip m msg) = m\<lparr>gm_peer_table := AList.update k payload (gm_peer_table m)\<rparr>)"
  by (cases msg) (auto simp: handle_incoming_gossip_def announces_def dict_get_def dict_item_def res_simps
      split: pyval.splits sum.splits option.splits)

lemma in_update_iff:
  assumes "distinct (map fst t)"
  shows "(a, b) \<in> set (AList.update k v t) \<longleftrightarrow> (if a = k then b = v else (a, b) \<in> set t)"
  using assms distinct_keys_map_of [of "AList.update k v t" a b] distinct_keys_map_of [of t a b]
  by (auto simp: distinct_update update_conv')

lemma gossip_run_entries:
  "gm_running (gossip_run node_id iv ttl evs) = monitor_on (rev evs) \<and>
   (\<forall>e \<in> set (gm_peer_table (gossip_run node_id iv ttl evs)). entry_from node_id evs e)"
proof (induction evs rule: rev_induct)
  case Nil
  show ?case by (simp add: gossip_run_def GossipManager_def)
next
  case (snoc x evs)
  let ?m = "gossip_run node_id iv ttl evs"
  have run: "gossip_run node_id iv ttl (evs @ [x]) = gossip_do ?m x"
    by (simp add: gossip_run_def)
  have own: "gm_node_id ?m = node_id" and dist: "distinct (map fst (gm_peer_table ?m))"
    using gossip_reachable_ok [OF gossip_run_reachable, of node_id iv ttl evs] by (auto simp: table_ok_iff)
  have keep: "entry_from node_id (evs @ [x]) e" if "entry_from node_id evs e" "\<And>sensors now. x \<noteq> MonitorRound sensors now" for e
    using that by (cases x) (auto simp: entry_from_def split: prod.splits if_splits)
  show ?case
  proof (cases x)
    case (Received msg)
    then show ?thesis
      using snoc keep handle_incoming_announces [of ?m msg] own set_update_subset [of _ _ "gm_peer_table ?m"]
      unfolding run by (fastforce simp: entry_from_def)
  next
    case (MonitorRound sensors now)
    show ?thesis
    proof (cases "rm_collect node_id sensors now")
      case (Inl e)
      then show ?thesis
        using snoc own unfolding run by (auto simp: MonitorRound monitor_loop_body_def entry_from_def)
    next
      case (Inr status)
      have "\<exists>msg. Received msg \<in> set evs \<and> announces node_id msg k d" if "(k, d) \<in> set (gm_peer_table ?m)" "k \<noteq> PStr node_id" for k d
        using that snoc by (force simp: entry_from_def)
      then show ?thesis
        using snoc own Inr unfolding run
        by (auto simp: MonitorRound monitor_loop_body_def on_local_update_def entry_from_def in_update_iff [OF dist])
    qed
  next
    case (BroadcastRound now w)
    have "fst (snd (broadcast_loop_body ?m now w)) = snd (cleanup_stale_peers ?m now)"
      by (auto simp: broadcast_loop_body_def split: prod.splits sum.splits option.splits)
    then show ?thesis
      using snoc keep cleanup_filters [OF dist, of now] unfolding run by (auto simp: BroadcastRound)
  qed (use snoc keep in \<open>unfold run, auto simp: set_transport_def monitor_loop_start_def monitor_loop_stop_def\<close>)
qed

text \<open>
  C18. After any history of messages, monitor and broadcast rounds, starts, stops and transports, the table
  of a gossip manager has one entry per peer, each filed under the \<open>node_id\<close> its payload carries, and no peer
  can forge the entry of the node itself: when it is there, it is the status that the node's own monitor
  collected last. Every other entry is the payload of a message that was received, is a
  \<open>GOSSIP_RESOURCE_UPDATE\<close> and names another node.
\<close>

theorem gossip_reachable_table:
  "let m = gossip_run node_id monitor_interval ttl evs in
   gm_node_id m = node_id \<and> gm_ttl m = ttl \<and> distinct (map fst (gm_peer_table m)) \<and>
   (\<forall>(k, d) \<in> set (gm_peer_table m). (\<exists>v. map_of d (u ''node_id'') = Some v \<and> dict_key v = Inr k) \<and>
      (if k = PStr node_id then \<exists>status. last_collected node_id (rev evs) = Some status \<and> d = rs_to_dict status
       else \<exists>msg. Received msg \<in> set evs \<and> announces node_id msg k d))"
proof -
  let ?m = "gossip_run node_id monitor_interval ttl evs"
  have "gm_node_id ?m = node_id \<and> gm_ttl ?m = ttl \<and> table_ok node_id (gm_peer_table ?m)"
    by (rule gossip_reachable_ok [OF gossip_run_reachable])
  moreover have "\<forall>e \<in> set (gm_peer_table ?m). entry_from node_id evs e"
    using gossip_run_entries by blast
  ultimately show ?thesis
    by (fastforce simp: Let_def table_ok_iff entry_ok_def entry_from_def)
qed

definition ex_payload :: "pyval \<Rightarrow> pydict" where
  "ex_payload ts = [(u ''node_id'', PStr (u ''x'')), (u ''cpu_percent'', PFloat (FFin 10)), (u ''ram_percent'', PFloat (FFin 20)),
     (u ''timestamp'', ts)]"

definition ex_gossip :: "pyval \<Rightarrow> nat gossip_manager" where
  "ex_gossip ts = snd (handle_incoming_gossip (GossipManager (u ''me'') (FFin 3) (FFin 15))
     (PDict [(u ''type'', PStr GOSSIP_RESOURCE_UPDATE), (u ''data'', PDict (ex_payload ts))]))"

lemma ex_gossip_reachable: "gossip_reachable (u ''me'') (FFin 15) (ex_gossip ts)"
  unfolding ex_gossip_def by (rule gr_step [OF gr_new gs_incoming]) (rule surjective_pairing)

lemma ex_gossip_table: "gm_peer_table (ex_gossip ts) = [(PStr (u ''x''), ex_payload ts)]" and ex_gossip_ttl: "gm_ttl (ex_gossip ts) = FFin 15"
  by (simp_all add: ex_gossip_def handle_incoming_gossip_def ex_payload_def dict_get_def dict_item_def GossipManager_def)

text \<open>A running node that collects its status and then receives the status of \<open>x\<close> and a forged one of its own.\<close>

definition ex_forged :: pydict where
  "ex_forged = [(u ''node_id'', PStr (u ''me'')), (u ''cpu_percent'', PFloat (FFin 0)), (u ''ram_percent'', PFloat (FFin 0)),
     (u ''timestamp'', PInt 9)]"

definition ex_events :: "nat gossip_event list" where
  "ex_events =
     [MonitorStarted, MonitorRound (Some (PFloat (FFin 30), PFloat (FFin 40))) (FFin 5),
      Received (PDict [(u ''type'', PStr GOSSIP_RESOURCE_UPDATE), (u ''data'', PDict ex_forged)]),
      Received (PDict [(u ''type'', PStr GOSSIP_RESOURCE_UPDATE), (u ''data'', PDict (ex_payload (PInt 5)))])]"

theorem gossip_reachable_table_witness:
  "\<exists>own d. gm_peer_table (gossip_run (u ''me'') (FFin 3) (FFin 15) ex_events) = [(PStr (u ''me''), own), (PStr (u ''x''), d)] \<and>
     own = rs_to_dict \<lparr>rs_node_id = PStr (u ''me''), rs_cpu_percent = FFin 30, rs_ram_percent = FFin 40, rs_timestamp = FFin 5\<rparr>"
proof -
  let ?m = "gossip_run (u ''me'') (FFin 3) (FFin 15) ex_events"
  have "map fst (gm_peer_table ?m) = [PStr (u ''me''), PStr (u ''x'')]"
    by (simp add: ex_events_def gossip_run_def GossipManager_def monitor_loop_start_def monitor_loop_body_def rm_collect_def py_float_def
        on_local_update_def handle_incoming_gossip_def dict_get_def dict_item_def ex_forged_def ex_payload_def)
  then obtain own d where table: "gm_peer_table ?m = [(PStr (u ''me''), own), (PStr (u ''x''), d)]"
    by (auto simp: map_eq_Cons_conv)
  have "last_collected (u ''me'') (rev ex_events)
      = Some \<lparr>rs_node_id = PStr (u ''me''), rs_cpu_percent = FFin 30, rs_ram_percent = FFin 40, rs_timestamp = FFin 5\<rparr>"
    by (simp add: ex_events_def rm_collect_def py_float_def)
  with table show ?thesis
    using gossip_reachable_table [of "u ''me''" "FFin 3" "FFin 15" ex_events] by (simp add: Let_def)
qed

lemma is_expired_raises: "is_expired now ttl info = Inl e \<Longrightarrow> e \<in> {TypeError, OverflowError}"
  by (auto simp: is_expired_def float_minus_def py_float_def float_of_int_def res_simps split: pyval.splits option.splits pyfloat.splits)

text \<open>
  Cleaning up a reachable table. If every entry's timestamp (0 when absent) can be subtracted from the
  clock, exactly the entries older than the time to live are removed. Otherwise (a peer gossiped a
  timestamp that is no number, or an integer beyond the floats) the exception leaves the table unchanged,
  nothing expires, and it escapes the broadcast loop, which ends without sending.
\<close>

theorem gossip_cleanup_spec:
  assumes "gossip_reachable node_id ttl m"
  shows "case cleanup_stale_peers m now of
      (Inr _, m') \<Rightarrow> \<exists>old. (\<forall>(k, info) \<in> set (gm_peer_table m). is_expired now ttl info = Inr (old info)) \<and>
        m' = m\<lparr>gm_peer_table := filter (\<lambda>(k, info). \<not> old info) (gm_peer_table m)\<rparr>
    | (Inl e, m') \<Rightarrow> m' = m \<and> e \<in> {TypeError, OverflowError} \<and> broadcast_loop_body m now w = (Inl e, m, w) \<and>
        (\<exists>(k, info) \<in> set (gm_peer_table m). \<exists>e'. is_expired now ttl info = Inl e')"
proof -
  have ttl: "gm_ttl m = ttl" and dist: "distinct (map fst (gm_peer_table m))"
    using gossip_reachable_ok [OF assms] by (simp_all add: table_ok_iff)
  show ?thesis
  proof (cases "\<exists>(k, info) \<in> set (gm_peer_table m). \<exists>e. is_expired now ttl info = Inl e")
    case True
    then obtain e where e: "cleanup_stale_peers m now = (Inl e, m)"
      using cleanup_raises [of _ _ m now] ttl by blast
    then have "\<exists>x \<in> set (gm_peer_table m). (\<lambda>(pid, info). and_then (is_expired now ttl info) (\<lambda>b. Inr (pid, b))) x = Inl e"
      by (auto simp: cleanup_stale_peers_def ttl dest!: map_res_raises split: sum.splits)
    then have "e \<in> {TypeError, OverflowError}"
      by (auto simp: res_simps dest: is_expired_raises)
    with True e show ?thesis
      by (simp add: broadcast_loop_body_def)
  next
    case False
    let ?old = "\<lambda>info. projr (is_expired now ttl info)"
    have old: "(k, info) \<in> set (gm_peer_table m) \<Longrightarrow> is_expired now ttl info = Inr (?old info)" for k info
      using False by (cases "is_expired now ttl info") auto
    have "cleanup_stale_peers m now = (Inr (), m\<lparr>gm_peer_table := filter (\<lambda>(k, info). \<not> ?old info) (gm_peer_table m)\<rparr>)"
      by (rule cleanup_returns [OF dist]) (use old ttl in auto)
    with old show ?thesis
      by (auto intro!: exI [of _ ?old])
  qed
qed

theorem gossip_cleanup_spec_witness:
  "broadcast_loop_body (ex_gossip (PStr (u ''soon''))) (FFin 100) 7 = (Inl TypeError, ex_gossip (PStr (u ''soon'')), 7)"
proof -
  have "is_expired (FFin 100) (FFin 15) (ex_payload (PStr (u ''soon''))) = Inl TypeError"
    by (simp add: is_expired_def ex_payload_def float_minus_def)
  moreover have "cleanup_stale_peers (ex_gossip (PStr (u ''soon''))) (FFin 100) = (Inl TypeError, ex_gossip (PStr (u ''soon'')))"
    using calculation by (simp add: cleanup_stale_peers_def ex_gossip_table ex_gossip_ttl)
  ultimately show ?thesis
    using gossip_cleanup_spec [OF ex_gossip_reachable, of "PStr (u ''soon'')" "FFin 100" 7] by simp
qed

end
