(* ===== verification/Background_Loops.thy ===== *)
theory Background_Loops
  imports Polling_Loop Heartbeat Gossip
begin

text \<open>
  The four background loops of the program, whole: \<open>HeartbeatManager.start_heartbeat_loop\<close>,
  \<open>HeartbeatMonitor.start\<close>, \<open>BackgroundMonitorLoop.start\<close> and \<open>GossipManager.broadcast_loop\<close>. Each one is the
  loop of theory Polling_Loop over the body that its component gives; the calls that other coroutines make on
  the same object while the loop sleeps are values of a datatype with one constructor per operation. A second
  start of the same loop and the cancellation of its task are not among them. The interpretations discharge
  the contract of a polling loop, so that for each loop the rounds after which it ends, and how, are known.
\<close>

section \<open>The heartbeat loop\<close>

datatype 'w hb_call =
    HbMessage pyfloat pyval
  | HbHealth pyfloat
  | HbOnOffline "'w offline_callback"
  | HbTransport "'w net_send"
  | HbStop

fun hb_call_step :: "'w hb_call \<Rightarrow> 'w heartbeat_manager \<times> 'w \<Rightarrow> 'w heartbeat_manager \<times> 'w" where
  "hb_call_step (HbMessage now msg) (m, w) = (snd (process_incoming_heartbeat m now msg), w)"
| "hb_call_step (HbHealth now) (m, w) = check_node_health m now w"
| "hb_call_step (HbOnOffline cb) (m, w) = (register_offline_callback m cb, w)"
| "hb_call_step (HbTransport cb) (m, w) = (register_network_callback m cb, w)"
| "hb_call_step HbStop (m, w) = (hb_stop m, w)"

definition hb_round :: "pyfloat \<times> pyfloat \<Rightarrow> 'w heartbeat_manager \<times> 'w \<Rightarrow> unit res \<times> 'w heartbeat_manager \<times> 'w" where
  "hb_round = (\<lambda>(t_send, t_check) (m, w). (Inr (), heartbeat_loop_body m t_send t_check w))"

definition start_heartbeat_loop ::
    "'w heartbeat_manager \<Rightarrow> (nat \<Rightarrow> pyfloat \<times> pyfloat) \<Rightarrow> (nat \<Rightarrow> 'w hb_call list) \<Rightarrow> 'w
      \<Rightarrow> (unit res \<times> nat \<times> 'w heartbeat_manager \<times> 'w) option" where
  "start_heartbeat_loop m clock calls w =
     poll_from (\<lambda>(m, w). hb_active m) hb_round hb_call_step clock calls 0 (hb_start m, w)"

lemma hb_active_health [simp]: "hb_active (fst (check_node_health m now w)) = hb_active m"
  by (simp add: check_node_health_def Let_def split: prod.splits)

lemma hb_active_call: "hb_active (fst (hb_call_step c (m, w))) \<longleftrightarrow> hb_active m \<and> c \<noteq> HbStop"
  by (cases c) (auto simp: process_incoming_heartbeat_spec register_offline_callback_def register_network_callback_def hb_stop_def
      split: option.splits)

lemma hb_active_body: "hb_active (fst (heartbeat_loop_body m t_send t_check w)) = hb_active m"
  by (simp add: heartbeat_loop_body_def split: option.split prod.split sum.split)

interpretation hbl: polling_loop "\<lambda>(m, w). hb_active m" hb_round hb_call_step "\<lambda>c. c = HbStop"
proof unfold_locales
  fix s :: "'w heartbeat_manager \<times> 'w" and x c
  obtain m w where s: "s = (m, w)" by fastforce
  show "(case hb_call_step c s of (m, w) \<Rightarrow> hb_active m) \<longleftrightarrow> (case s of (m, w) \<Rightarrow> hb_active m) \<and> c \<noteq> HbStop"
    using hb_active_call [of c m w] by (simp add: s split_beta)
  show "(case s of (m, w) \<Rightarrow> hb_active m) \<Longrightarrow> case snd (hb_round x s) of (m, w) \<Rightarrow> hb_active m"
    by (simp add: s hb_round_def split_beta hb_active_body)
qed

lemma hb_round_total: "fst (hb_round x s) = Inr ()"
  by (simp add: hb_round_def split_beta)

text \<open>The history of the detector that \<open>n\<close> rounds and the calls made meanwhile amount to, newest event first.\<close>

fun hb_call_events :: "'w hb_call \<Rightarrow> pyval detector_event list" where
  "hb_call_events (HbMessage now msg) = [Beat now msg]"
| "hb_call_events (HbHealth now) = [Check now]"
| "hb_call_events _ = []"

primrec loop_events :: "(nat \<Rightarrow> pyfloat \<times> pyfloat) \<Rightarrow> (nat \<Rightarrow> 'w hb_call list) \<Rightarrow> nat \<Rightarrow> pyval detector_event list" where
  "loop_events clock calls 0 = []"
| "loop_events clock calls (Suc n) = rev (concat (map hb_call_events (calls n))) @ Check (snd (clock n)) # loop_events clock calls n"

text \<open>
  What the detector consists of: the fields a loop, its sender and its callbacks do not touch. Messages and
  checks commute with this projection.
\<close>

definition hb_core :: "'w heartbeat_manager \<Rightarrow> 'w heartbeat_manager" where
  "hb_core m = m\<lparr>hb_active := False, hb_offline_cb_list := [], hb_net_send := None\<rparr>"

lemma hb_core_look [simp]: "hb_look (hb_core m) = hb_look m"
  by (simp add: hb_core_def hb_look_def fun_eq_iff)

lemma health_loop_core: "fst (health_loop (hb_core m) now items states w) = fst (health_loop m now items states w')"
proof (induction items arbitrary: states w w')
  case (Cons it items)
  obtain q ts where it: "it = (q, ts)" by fastforce
  have "hb_offline_t (hb_core m) = hb_offline_t m" "hb_suspect_t (hb_core m) = hb_suspect_t m"
    by (simp_all add: hb_core_def)
  then show ?case
    unfolding it by (simp add: Let_def) (intro conjI impI Cons)
qed simp

lemma hb_core_check: "hb_core (hb_check now m) = hb_check now (hb_core m)"
  using health_loop_core [of m now "hb_last_seen m" "hb_peer_states m" undefined undefined]
  by (simp add: hb_check_def check_node_health_def split_beta) (simp add: hb_core_def)

lemma hb_core_beat: "hb_core (hb_beat now msg m) = hb_beat now msg (hb_core m)"
proof -
  have "hb_node_id (hb_core m) = hb_node_id m"
    by (simp add: hb_core_def)
  then show ?thesis
    by (simp add: hb_beat_def process_incoming_heartbeat_spec split: option.split) (simp add: hb_core_def)
qed

definition quiet_sender :: "'w heartbeat_manager \<Rightarrow> bool" where
  "quiet_sender m \<longleftrightarrow> (\<forall>f w d. hb_net_send m = Some f \<longrightarrow> fst (f w d) = Inr ())"

definition quiet_call :: "'w hb_call \<Rightarrow> bool" where
  "quiet_call c \<longleftrightarrow> (\<forall>f w d. c = HbTransport f \<longrightarrow> fst (f w d) = Inr ())"

lemma hb_net_send_check [simp]: "hb_net_send (fst (check_node_health m now w)) = hb_net_send m"
  by (simp add: check_node_health_def Let_def split: prod.splits)

lemma hb_call_core:
  "hb_core (fst (hb_call_step c (m, w))) = detector_run hb_beat hb_check (hb_core m) (rev (hb_call_events c))"
  by (cases c) (simp_all add: check_node_health_fst hb_core_check hb_core_beat [unfolded hb_beat_def] hb_beat_def,
      simp_all add: hb_core_def register_offline_callback_def register_network_callback_def hb_stop_def)

lemma hb_call_quiet: "quiet_sender m \<Longrightarrow> quiet_call c \<Longrightarrow> quiet_sender (fst (hb_call_step c (m, w)))"
  by (cases c) (auto simp: quiet_sender_def quiet_call_def process_incoming_heartbeat_spec register_offline_callback_def
      register_network_callback_def hb_stop_def split: option.splits)

lemma detector_run_append:
  "detector_run beat check s (es @ fs) = detector_run beat check (detector_run beat check s fs) es"
proof (induction es)
  case (Cons e es)
  then show ?case by (cases e) simp_all
qed simp

lemma hb_calls_core:
  assumes "quiet_sender m" and "list_all quiet_call cs"
  shows "quiet_sender (fst (fold hb_call_step cs (m, w))) \<and>
    hb_core (fst (fold hb_call_step cs (m, w))) = detector_run hb_beat hb_check (hb_core m) (rev (concat (map hb_call_events cs)))"
  using assms
proof (induction cs arbitrary: m w)
  case (Cons c cs)
  obtain m1 w1 where step: "hb_call_step c (m, w) = (m1, w1)" by fastforce
  have "quiet_sender m1" "hb_core m1 = detector_run hb_beat hb_check (hb_core m) (rev (hb_call_events c))"
    using hb_call_quiet [of m c w] hb_call_core [of c m w] Cons.prems by (simp_all add: step)
  then show ?case
    using Cons.IH [of m1 w1] Cons.prems by (simp add: step detector_run_append)
qed simp

lemma hb_body_core:
  assumes "quiet_sender m" and "hb_active m"
  shows "quiet_sender (fst (heartbeat_loop_body m t_send t_check w)) \<and>
    hb_core (fst (heartbeat_loop_body m t_send t_check w)) = hb_check t_check (hb_core m)"
proof -
  have "\<exists>w'. heartbeat_loop_body m t_send t_check w = check_node_health m t_check w'"
    using assms by (auto simp: heartbeat_loop_body_def quiet_sender_def split: option.split prod.split sum.split) (metis fst_conv sum.distinct(1))
  then show ?thesis
    using assms(1) hb_net_send_check [of m t_check undefined] by (auto simp: check_node_health_fst hb_core_check quiet_sender_def)
qed

lemma hb_rounds_core:
  assumes "quiet_sender m" and "\<forall>i < n. list_all quiet_call (calls i) \<and> HbStop \<notin> set (calls i)"
  shows "case poll_rounds hb_round hb_call_step clock calls n (hb_start m, w) of
    (m', w') \<Rightarrow> quiet_sender m' \<and> hb_active m' \<and> hb_core m' = detector_run hb_beat hb_check (hb_core m) (loop_events clock calls n)"
  using assms(2)
proof (induction n)
  case 0
  show ?case using assms(1) by (simp add: hb_start_def hb_core_def quiet_sender_def)
next
  case (Suc n)
  obtain m1 w1 where at: "poll_rounds hb_round hb_call_step clock calls n (hb_start m, w) = (m1, w1)" by fastforce
  have m1: "quiet_sender m1" "hb_active m1" "hb_core m1 = detector_run hb_beat hb_check (hb_core m) (loop_events clock calls n)"
    and quiet: "list_all quiet_call (calls n)" "HbStop \<notin> set (calls n)"
    using Suc at by simp_all
  obtain m2 w2 where body: "heartbeat_loop_body m1 (fst (clock n)) (snd (clock n)) w1 = (m2, w2)" by fastforce
  have m2: "quiet_sender m2" "hb_active m2" "hb_core m2 = hb_check (snd (clock n)) (hb_core m1)"
    using hb_body_core [OF m1(1,2), of "fst (clock n)" "snd (clock n)" w1] m1(2) hb_active_body [of m1 "fst (clock n)" "snd (clock n)" w1]
    by (simp_all add: body)
  have step: "hb_round (clock n) (m1, w1) = (Inr (), m2, w2)"
    by (simp add: hb_round_def split_beta body)
  have "hb_active (fst (fold hb_call_step (calls n) (m2, w2)))"
    using hbl.calls_running [of "calls n" "(m2, w2)"] m2(2) quiet(2) by (simp add: split_beta list_ex_iff)
  then show ?case
    using hb_calls_core [OF m2(1) quiet(1), of w2] m1 m2 by (simp add: at step split_beta detector_run_append)
qed

section \<open>The loop of the heartbeat monitor\<close>

datatype 'a hm_call = HmUpdate pyfloat pystr pyval pyval "'a option" | HmCheck pyfloat | HmStop

fun hm_call_step ::
    "'w state_callback option \<Rightarrow> 'a hm_call \<Rightarrow> 'a heartbeat_monitor \<times> 'w \<Rightarrow> 'a heartbeat_monitor \<times> 'w" where
  "hm_call_step cb (HmUpdate now node_id cpu_load ram_percent address) (m, w) =
     (snd (hm_update m now node_id cpu_load ram_percent address), w)"
| "hm_call_step cb (HmCheck now) (m, w) = snd (check_once m now cb w)"
| "hm_call_step cb HmStop (m, w) = (hm_stop m, w)"

definition hm_round ::
    "'w state_callback option \<Rightarrow> pyfloat \<Rightarrow> 'a heartbeat_monitor \<times> 'w \<Rightarrow> unit res \<times> 'a heartbeat_monitor \<times> 'w" where
  "hm_round cb now = (\<lambda>(m, w). hm_loop_body m now cb w)"

definition hm_start_loop ::
    "'a heartbeat_monitor \<Rightarrow> 'w state_callback option \<Rightarrow> (nat \<Rightarrow> pyfloat) \<Rightarrow> (nat \<Rightarrow> 'a hm_call list) \<Rightarrow> 'w
      \<Rightarrow> (unit res \<times> nat \<times> 'a heartbeat_monitor \<times> 'w) option" where
  "hm_start_loop m cb clock calls w =
     poll_from (\<lambda>(m, w). hm_running m) (hm_round cb) (hm_call_step cb) clock calls 0 (hm_start m, w)"

lemma hm_running_check [simp]: "hm_running (fst (snd (check_once m now cb w))) = hm_running m"
  by (simp add: check_once_def split: prod.split)

lemma hm_running_call: "hm_running (fst (hm_call_step cb c (m, w))) \<longleftrightarrow> hm_running m \<and> c \<noteq> HmStop"
  by (cases c) (simp_all add: hm_update_def hm_stop_def Let_def split: sum.split)

interpretation hml: polling_loop "\<lambda>(m, w). hm_running m" "hm_round cb" "hm_call_step cb" "\<lambda>c. c = HmStop"
  for cb :: "'w state_callback option"
proof unfold_locales
  fix s :: "'a heartbeat_monitor \<times> 'w" and x c
  obtain m w where s: "s = (m, w)" by fastforce
  show "(case hm_call_step cb c s of (m, w) \<Rightarrow> hm_running m) \<longleftrightarrow> (case s of (m, w) \<Rightarrow> hm_running m) \<and> c \<noteq> HmStop"
    using hm_running_call [of cb c m w] by (simp add: s split_beta)
  show "(case s of (m, w) \<Rightarrow> hm_running m) \<Longrightarrow> case snd (hm_round cb x s) of (m, w) \<Rightarrow> hm_running m"
    by (simp add: s hm_round_def hm_loop_body_def split_beta)
qed

section \<open>The loops of the gossip manager\<close>

text \<open>
  \<open>BackgroundMonitorLoop.start\<close> with the callback of the gossip manager. While it sleeps, messages arrive and
  the broadcast loop does its rounds.
\<close>

datatype 'w mon_call = MonMessage pyval | MonBroadcast pyfloat | MonTransport "'w gossip_transport" | MonStop

fun mon_call_step :: "'w mon_call \<Rightarrow> 'w gossip_manager \<times> 'w \<Rightarrow> 'w gossip_manager \<times> 'w" where
  "mon_call_step (MonMessage msg) (m, w) = (snd (handle_incoming_gossip m msg), w)"
| "mon_call_step (MonBroadcast now) (m, w) = snd (broadcast_loop_body m now w)"
| "mon_call_step (MonTransport cb) (m, w) = (set_transport m cb, w)"
| "mon_call_step MonStop (m, w) = (monitor_loop_stop m, w)"

definition mon_round ::
    "(pyval \<times> pyval) option \<times> pyfloat \<Rightarrow> 'w gossip_manager \<times> 'w \<Rightarrow> unit res \<times> 'w gossip_manager \<times> 'w" where
  "mon_round = (\<lambda>(sensors, now) (m, w). (Inr (), monitor_loop_body m sensors now, w))"

definition monitor_loop ::
    "'w gossip_manager \<Rightarrow> (nat \<Rightarrow> (pyval \<times> pyval) option \<times> pyfloat) \<Rightarrow> (nat \<Rightarrow> 'w mon_call list) \<Rightarrow> 'w
      \<Rightarrow> (unit res \<times> nat \<times> 'w gossip_manager \<times> 'w) option" where
  "monitor_loop m inputs calls w =
     poll_from (\<lambda>(m, w). gm_running m) mon_round mon_call_step inputs calls 0 (monitor_loop_start m, w)"

lemma gm_running_incoming [simp]: "gm_running (snd (handle_incoming_gossip m msg)) = gm_running m"
  using handle_incoming_cases [of m msg] by auto

lemma gm_running_cleanup [simp]: "gm_running (snd (cleanup_stale_peers m now)) = gm_running m"
  by (simp add: cleanup_stale_peers_def split: sum.split)

lemma broadcast_cleans: "fst (snd (broadcast_loop_body m now w)) = snd (cleanup_stale_peers m now)"
  by (auto simp: broadcast_loop_body_def split: prod.split sum.split option.split)

lemma gm_running_broadcast [simp]: "gm_running (fst (snd (broadcast_loop_body m now w))) = gm_running m"
  by (simp add: broadcast_cleans)

lemma gm_running_monitor [simp]: "gm_running (monitor_loop_body m sensors now) = gm_running m"
  by (simp add: monitor_loop_body_def on_local_update_def split: sum.split)

interpretation mol: polling_loop "\<lambda>(m, w). gm_running m" mon_round mon_call_step "\<lambda>c. c = MonStop"
proof unfold_locales
  fix s :: "'w gossip_manager \<times> 'w" and x c
  obtain m w where s: "s = (m, w)" by fastforce
  show "(case mon_call_step c s of (m, w) \<Rightarrow> gm_running m) \<longleftrightarrow> (case s of (m, w) \<Rightarrow> gm_running m) \<and> c \<noteq> MonStop"
    by (cases c) (simp_all add: s split_beta set_transport_def monitor_loop_stop_def)
  show "(case s of (m, w) \<Rightarrow> gm_running m) \<Longrightarrow> case snd (mon_round x s) of (m, w) \<Rightarrow> gm_running m"
    by (simp add: s mon_round_def split_beta)
qed

text \<open>The monitor loop ends exactly by a stop, since the exceptions of the sensors are logged.\<close>

lemma monitor_loop_ends:
  "case monitor_loop m inputs calls w of
     None \<Rightarrow> \<forall>i. MonStop \<notin> set (calls i)
   | Some (res, k, m', w') \<Rightarrow> res = Inr () \<and> \<not> gm_running m' \<and>
       (\<exists>n. k = Suc n \<and> MonStop \<in> set (calls n) \<and> (\<forall>i < n. MonStop \<notin> set (calls i)))"
proof -
  have "fst (mon_round x s) = Inr ()" for x and s :: "'a gossip_manager \<times> 'a"
    by (simp add: mon_round_def split_beta)
  then show ?thesis
    using mol.total_outcome [where s = "(monitor_loop_start m, w)" and inputs = inputs and calls = calls]
    by (fastforce simp: monitor_loop_def monitor_loop_start_def list_ex_iff split: option.splits prod.splits)
qed

datatype 'w gm_call =
    GmMessage pyval
  | GmMonitorStart
  | GmMonitorRound "(pyval \<times> pyval) option" pyfloat
  | GmMonitorStop
  | GmTransport "'w gossip_transport"

fun gm_call_step :: "'w gm_call \<Rightarrow> 'w gossip_manager \<Rightarrow> 'w gossip_manager" where
  "gm_call_step (GmMessage msg) m = snd (handle_incoming_gossip m msg)"
| "gm_call_step GmMonitorStart m = monitor_loop_start m"
| "gm_call_step (GmMonitorRound sensors now) m = monitor_loop_body m sensors now"
| "gm_call_step GmMonitorStop m = monitor_loop_stop m"
| "gm_call_step (GmTransport cb) m = set_transport m cb"

text \<open>
  \<open>broadcast_loop\<close> creates the task of the monitor loop first. The task begins while the broadcast loop
  sleeps for the first time, after the callbacks that were already queued.
\<close>

definition broadcast_loop ::
    "'w gossip_manager \<Rightarrow> (nat \<Rightarrow> pyfloat) \<Rightarrow> 'w gm_call list \<Rightarrow> (nat \<Rightarrow> 'w gm_call list) \<Rightarrow> 'w
      \<Rightarrow> (unit res \<times> nat \<times> 'w gossip_manager \<times> 'w) option" where
  "broadcast_loop m clock queued calls w =
     poll_from (\<lambda>_. True) (\<lambda>now (m, w). broadcast_loop_body m now w) (\<lambda>c (m, w). (gm_call_step c m, w)) clock
       (calls(0 := queued @ GmMonitorStart # calls 0)) 0 (m, w)"

interpretation bcl: polling_loop "\<lambda>_. True" "\<lambda>now (m, w). broadcast_loop_body m now w" "\<lambda>c (m, w). (gm_call_step c m, w)" "\<lambda>_. False"
  by unfold_locales simp_all

section \<open>Properties\<close>

text \<open>
  C20. The heartbeat loop of a manager ends exactly when \<open>stop\<close> is called: it runs forever when no sleep brings a
  stop, whatever the sender and the callbacks raise, and otherwise it returns right after the sleep in which
  the first stop came, with the flag cleared. A stop that comes during sleep \<open>n\<close> lets no further round start.
\<close>

theorem heartbeat_loop_ends:
  "case start_heartbeat_loop m clock calls w of
     None \<Rightarrow> \<forall>i. HbStop \<notin> set (calls i)
   | Some (res, k, m', w') \<Rightarrow> res = Inr () \<and> \<not> hb_active m' \<and>
       (\<exists>n. k = Suc n \<and> HbStop \<in> set (calls n) \<and> (\<forall>i < n. HbStop \<notin> set (calls i)))"
  using hbl.total_outcome [where s = "(hb_start m, w)" and inputs = clock and calls = calls] hb_round_total
  by (fastforce simp: start_heartbeat_loop_def hb_start_def list_ex_iff split: option.splits prod.splits)

theorem heartbeat_loop_ends_witness:
  "start_heartbeat_loop (HeartbeatManager (u ''me'') (FFin 2) (FFin 6) (FFin 10)) (\<lambda>_. (FFin 0, FFin 0)) (\<lambda>_. []) () = None \<and>
   start_heartbeat_loop (HeartbeatManager (u ''me'') (FFin 2) (FFin 6) (FFin 10)) (\<lambda>_. (FFin 0, FFin 0)) (\<lambda>i. if i = 3 then [HbStop] else []) () \<noteq> None"
  using heartbeat_loop_ends [where m = "HeartbeatManager (u ''me'') (FFin 2) (FFin 6) (FFin 10)" and clock = "\<lambda>_. (FFin 0, FFin 0)" and calls = "\<lambda>_. []" and w = "()"]
    heartbeat_loop_ends [where m = "HeartbeatManager (u ''me'') (FFin 2) (FFin 6) (FFin 10)" and clock = "\<lambda>_. (FFin 0, FFin 0)"
      and calls = "\<lambda>i. if i = 3 then [HbStop] else []" and w = "()"]
  by (auto split: option.splits if_splits)

text \<open>
  C21. Failure detection by the running loop: let the loop of a new manager run, with a sender that does not
  raise and any traffic during its sleeps, until it is stopped during sleep \<open>n\<close>. It returns, and the manager it
  leaves classifies a peer last heard from at \<open>t\<close> by its silence up to the check of round \<open>n\<close>, as long as
  the clock did not go back.
\<close>

theorem heartbeat_loop_verdict:
  assumes m: "m = register_network_callback (HeartbeatManager node_id interval suspect_timeout offline_timeout) send"
    and quiet: "\<And>w d. fst (send w d) = Inr ()" "\<And>i. list_all quiet_call (calls i)"
    and stop: "calls n = [HbStop]" "\<forall>i < n. HbStop \<notin> set (calls i)"
    and clock: "clock_ok (Check (snd (clock n)) # loop_events clock calls n)"
    and t: "last_beat (hb_who node_id) (loop_events clock calls n) p = Some t"
  shows "\<exists>m' w'. start_heartbeat_loop m clock calls w = Some (Inr (), Suc n, m', w') \<and>
    hb_state m' p =
      (if fle offline_timeout (fsub (snd (clock n)) t) then NS_OFFLINE
       else if fle suspect_timeout (fsub (snd (clock n)) t) then NS_SUSPECTED else NS_ALIVE)"
proof -
  let ?s = "(hb_start m, w)" and ?now = "snd (clock n)"
  obtain m1 w1 where at: "poll_rounds hb_round hb_call_step clock calls n ?s = (m1, w1)" by fastforce
  have sender: "quiet_sender m"
    using quiet(1) by (simp add: m quiet_sender_def register_network_callback_def)
  have m1: "quiet_sender m1" "hb_active m1" "hb_core m1 = detector_run hb_beat hb_check (hb_core m) (loop_events clock calls n)"
    using hb_rounds_core [OF sender, of n calls clock w] quiet(2) stop(2) by (simp_all add: at)
  obtain m2 w2 where body: "heartbeat_loop_body m1 (fst (clock n)) ?now w1 = (m2, w2)" by fastforce
  have step: "hb_round (clock n) (m1, w1) = (Inr (), m2, w2)"
    by (simp add: hb_round_def split_beta body)
  have m2: "hb_look m2 = hb_look (hb_check ?now (hb_core m1))"
    using hb_body_core [OF m1(1,2), of "fst (clock n)" ?now w1] hb_core_look [of m2] by (simp add: body)
  have fresh: "hb_inv node_id (hb_core m)" "hb_look (hb_core m) p = None"
    "silence_state (hb_core m) d = (if fle offline_timeout d then NS_OFFLINE else if fle suspect_timeout d then NS_SUSPECTED else NS_ALIVE)" for d
    by (simp_all add: m register_network_callback_def HeartbeatManager_def hb_inv_def hb_look_def silence_state_def hb_core_def)
  have "hb_look m2 p = Some (t, silence_state (hb_core m) (fsub ?now t))"
    using hb.checked [OF fresh(1,2) clock] by (simp add: m2 m1(3) t)
  then have "hb_state (hb_stop m2) p = silence_state (hb_core m) (fsub ?now t)"
    by (auto simp: hb_look_def hb_stop_def)
  moreover have "start_heartbeat_loop m clock calls w = Some (Inr (), Suc n, hb_stop m2, w2)"
    unfolding start_heartbeat_loop_def
    by (subst hbl.stops_iff)
      (use stop(2) in \<open>auto simp: hbl.round_ok_def hb_round_total list_ex_iff stop(1) at step, simp add: hb_start_def\<close>)
  ultimately show ?thesis
    by (simp add: fresh(3))
qed

theorem heartbeat_loop_verdict_witness:
  "\<exists>m' w'. start_heartbeat_loop (register_network_callback (HeartbeatManager (u ''me'') (FFin 2) (FFin 6) (FFin 10)) (\<lambda>w d. (Inr (), Suc w)))
      (\<lambda>i. (FFin 0, if i = 0 then FFin 99 else FFin 111))
      (\<lambda>i. if i = 0 then [HbMessage (FFin 100) (ex_beat ''a'')] else if i = 1 then [HbStop] else []) (0 :: nat) = Some (Inr (), 2, m', w') \<and>
    hb_state m' (PStr (u ''a'')) = NS_OFFLINE"
proof -
  define clock :: "nat \<Rightarrow> pyfloat \<times> pyfloat" where "clock = (\<lambda>i. (FFin 0, if i = 0 then FFin 99 else FFin 111))"
  define calls :: "nat \<Rightarrow> nat hb_call list" where
    "calls = (\<lambda>i. if i = 0 then [HbMessage (FFin 100) (ex_beat ''a'')] else if i = 1 then [HbStop] else [])"
  have events: "loop_events clock calls 1 = [Beat (FFin 100) (ex_beat ''a''), Check (FFin 99)]" and now: "snd (clock 1) = FFin 111"
    by (simp_all add: clock_def calls_def)
  have c: "clock_ok (Check (snd (clock 1)) # loop_events clock calls 1)"
    unfolding events now by (simp add: clock_ok_def is_finite_def fval_def)
  have b: "last_beat (hb_who (u ''me'')) (loop_events clock calls 1) (PStr (u ''a'')) = Some (FFin 100)"
    unfolding events by (simp add: hb_who_def ex_beat_def dict_get_def)
  have "fsub (FFin 111) (FFin 100) = FFin 11"
    using fsub_of_int [of 111 100] by simp
  moreover have "\<exists>m' w'. start_heartbeat_loop (register_network_callback (HeartbeatManager (u ''me'') (FFin 2) (FFin 6) (FFin 10)) (\<lambda>w d. (Inr (), Suc w)))
      clock calls 0 = Some (Inr (), Suc 1, m', w') \<and> hb_state m' (PStr (u ''a'')) =
      (if fle (FFin 10) (fsub (snd (clock 1)) (FFin 100)) then NS_OFFLINE
       else if fle (FFin 6) (fsub (snd (clock 1)) (FFin 100)) then NS_SUSPECTED else NS_ALIVE)"
    by (rule heartbeat_loop_verdict [OF refl _ _ _ _ c b]) (simp_all add: quiet_call_def calls_def)
  ultimately show ?thesis
    unfolding now by (simp add: fval_def numeral_2_eq_2 clock_def calls_def del: fsub.simps)
qed

lemma check_loop_raises:
  "check_loop timeout now cb peers w = (Inl e, peers', w') \<Longrightarrow>
    \<exists>f w1 p st. cb = Some f \<and> f w1 p st = (Inl e, w') \<and> (\<exists>item. (p, item) \<in> set peers' \<and> it_state item = Some st)"
proof (induction timeout now cb peers w arbitrary: peers' rule: check_loop.induct)
  case (2 timeout now cb p item rest w)
  let ?st = "age_state timeout (item_age now item)"
  show ?case
  proof (cases "Some ?st = it_state item")
    case True
    then obtain rest' where "check_loop timeout now cb rest w = (Inl e, rest', w')" and "peers' = (p, item) # rest'"
      using 2(3) by (auto simp: Let_def split: prod.splits)
    then show ?thesis using 2(2) [OF refl] True by (fastforce simp: Let_def)
  next
    case False
    obtain r w1 where cb: "(case cb of None \<Rightarrow> (Inr (), w) | Some f \<Rightarrow> f w p ?st) = (r, w1)" by fastforce
    show ?thesis
    proof (cases r)
      case (Inl e')
      then have "e' = e" "w1 = w'" "peers' = (p, item\<lparr>it_state := Some ?st\<rparr>) # rest"
        using 2(3) False cb by (simp_all add: Let_def)
      moreover obtain f where "cb = Some f" "f w p ?st = (Inl e', w1)"
        using cb Inl by (cases cb) auto
      ultimately show ?thesis
        by (intro exI [of _ f] exI [of _ w] exI [of _ p] exI [of _ ?st] conjI exI [of _ "item\<lparr>it_state := Some ?st\<rparr>"]) simp_all
    next
      case (Inr x)
      then obtain rest' where "check_loop timeout now cb rest w1 = (Inl e, rest', w')" and "peers' = (p, item\<lparr>it_state := Some ?st\<rparr>) # rest'"
        using 2(3) False cb by (auto simp: Let_def res_simps split: prod.splits)
      then show ?thesis using 2(1) [OF refl _ refl] cb Inr False by fastforce
    qed
  qed
qed simp

text \<open>
  What the callback makes of the changes a check finds: it is called for one after the other until it raises.
  \<open>monitor_notified\<close> is this for the check of round \<open>n\<close>.
\<close>

fun notify_all :: "'w state_callback option \<Rightarrow> (pystr \<times> pystr) list \<Rightarrow> 'w \<Rightarrow> unit res \<times> 'w" where
  "notify_all cb [] w = (Inr (), w)"
| "notify_all cb ((p, st) # changes) w =
     (case cb of
        None \<Rightarrow> (Inr (), w)
      | Some f \<Rightarrow> (case f w p st of (Inl e, w') \<Rightarrow> (Inl e, w') | (Inr _, w') \<Rightarrow> notify_all cb changes w'))"

definition monitor_notified ::
    "'a heartbeat_monitor \<Rightarrow> 'w state_callback option \<Rightarrow> (nat \<Rightarrow> pyfloat) \<Rightarrow> (nat \<Rightarrow> 'a hm_call list) \<Rightarrow> 'w \<Rightarrow> nat \<Rightarrow> unit res \<times> 'w" where
  "monitor_notified m cb clock calls w n =
     (case poll_rounds (hm_round cb) (hm_call_step cb) clock calls n (hm_start m, w) of
        (m1, w1) \<Rightarrow> notify_all cb (state_changes (hm_timeout m1) (clock n) (hm_peers m1)) w1)"

lemma notify_all_None [simp]: "notify_all None changes w = (Inr (), w)"
  by (cases changes) auto

lemma check_loop_notifies:
  "check_loop timeout now cb peers w = (r, peers', w') \<Longrightarrow>
    notify_all cb (state_changes timeout now peers) w = (and_then r (\<lambda>_. Inr ()), w')"
proof (induction timeout now cb peers w arbitrary: r peers' w' rule: check_loop.induct)
  case (2 timeout now cb p item rest w)
  let ?st = "age_state timeout (item_age now item)"
  show ?case
  proof (cases "Some ?st = it_state item")
    case True
    moreover obtain r2 rest' w2 where "check_loop timeout now cb rest w = (r2, rest', w2)" by (metis prod_cases3)
    moreover from this have "notify_all cb (state_changes timeout now rest) w = (and_then r2 (\<lambda>_. Inr ()), w2)"
      using 2(2) True by (simp add: Let_def)
    ultimately show ?thesis
      using 2(3) by (auto simp: Let_def state_changes_def)
  next
    case False
    then have changes: "state_changes timeout now ((p, item) # rest) = (p, ?st) # state_changes timeout now rest"
      by (simp add: state_changes_def eq_commute)
    obtain q w1 where cb: "(case cb of None \<Rightarrow> (Inr (), w) | Some f \<Rightarrow> f w p ?st) = (q, w1)" by fastforce
    show ?thesis
    proof (cases q)
      case (Inl e)
      with False cb 2(3) show ?thesis
        by (auto simp: changes Let_def split: option.splits)
    next
      case (Inr x)
      obtain r2 rest' w2 where rest: "check_loop timeout now cb rest w1 = (r2, rest', w2)" by (metis prod_cases3)
      then have "notify_all cb (state_changes timeout now rest) w1 = (and_then r2 (\<lambda>_. Inr ()), w2)"
        using 2(1) False cb Inr by (simp add: Let_def)
      moreover have "r = and_then r2 (\<lambda>changed. Inr ((p, ?st) # changed))" "w' = w2"
        using 2(3) False cb Inr rest by (simp_all add: Let_def)
      ultimately show ?thesis
        using cb Inr by (cases cb; cases r2) (auto simp: changes)
    qed
  qed
qed (simp add: state_changes_def)

lemma hm_round_notifies:
  assumes "hm_running m" and "hm_round cb now (m, w) = (r, m', w')"
  shows "notify_all cb (state_changes (hm_timeout m) now (hm_peers m)) w = (r, w')" and "hm_running m'"
proof -
  obtain q peers' w1 where c: "check_loop (hm_timeout m) now cb (hm_peers m) w = (q, peers', w1)" by (metis prod_cases3)
  then have "r = and_then q (\<lambda>_. Inr ())" "m' = m\<lparr>hm_peers := peers'\<rparr>" "w' = w1"
    using assms by (auto simp: hm_round_def hm_loop_body_def check_once_def)
  with c assms(1) show "notify_all cb (state_changes (hm_timeout m) now (hm_peers m)) w = (r, w')" and "hm_running m'"
    using check_loop_notifies [OF c] by simp_all
qed

text \<open>The rounds up to the first that raises or sleeps over a stop, told by the notifications.\<close>

lemma monitor_rounds_ok:
  fixes m :: "'a heartbeat_monitor" and w :: 'w
  defines "R \<equiv> \<lambda>cb clock calls n. poll_rounds (hm_round cb) (hm_call_step cb) clock calls n (hm_start m, w)"
  assumes "\<forall>i < n. hml.round_ok cb clock calls (hm_start m, w) i"
  shows "hm_round cb (clock n) (R cb clock calls n) = (r, m', w') \<Longrightarrow> monitor_notified m cb clock calls w n = (r, w') \<and> hm_running m'"
    and "hml.round_ok cb clock calls (hm_start m, w) n \<longleftrightarrow> fst (monitor_notified m cb clock calls w n) = Inr () \<and> HmStop \<notin> set (calls n)"
proof -
  obtain m1 w1 where at: "R cb clock calls n = (m1, w1)" by fastforce
  have "hm_running m1"
    using hml.reaches [where s = "(hm_start m, w)" and n = n and inputs = clock and calls = calls and cb = cb] assms(2) at
    by (simp add: hml.round_ok_def hm_start_def R_def)
  note N = hm_round_notifies [OF this, of cb "clock n" w1]
  then show "hm_round cb (clock n) (R cb clock calls n) = (r, m', w') \<Longrightarrow> monitor_notified m cb clock calls w n = (r, w') \<and> hm_running m'"
    using at by (simp add: monitor_notified_def R_def)
  obtain r m2 w2 where "hm_round cb (clock n) (m1, w1) = (r, m2, w2)" by (metis prod_cases3)
  then show "hml.round_ok cb clock calls (hm_start m, w) n \<longleftrightarrow> fst (monitor_notified m cb clock calls w n) = Inr () \<and> HmStop \<notin> set (calls n)"
    using at N(1) by (auto simp: hml.round_ok_def monitor_notified_def R_def list_ex_iff)
qed

lemma monitor_quiet_rounds:
  "(\<forall>i < n. hml.round_ok cb clock calls (hm_start m, w) i) \<longleftrightarrow>
   (\<forall>i < n. fst (monitor_notified m cb clock calls w i) = Inr () \<and> HmStop \<notin> set (calls i))"
proof (induction n)
  case (Suc n)
  then show ?case
    using monitor_rounds_ok(2) [of n cb clock calls m w] by (auto simp: less_Suc_eq)
qed simp

lemma monitor_loop_flags:
  "case hm_start_loop m cb clock calls w of
     None \<Rightarrow> True
   | Some (Inr _, k, m', w') \<Rightarrow> \<not> hm_running m'
   | Some (Inl e, n, m', w') \<Rightarrow> hm_running m' \<and>
       (\<exists>f w1 p st. cb = Some f \<and> f w1 p st = (Inl e, w') \<and> (\<exists>item. (p, item) \<in> set (hm_peers m') \<and> it_state item = Some st))"
proof -
  let ?s = "(hm_start m, w)" and ?R = "\<lambda>n. poll_rounds (hm_round cb) (hm_call_step cb) clock calls n (hm_start m, w)"
  have run: "(\<lambda>(m, w). hm_running m) ?s"
    by (simp add: hm_start_def)
  then show ?thesis
  proof (cases rule: hml.outcome [where s = ?s and cb = cb and inputs = clock and calls = calls])
    case never
    then show ?thesis by (simp add: hm_start_loop_def)
  next
    case (stopped n)
    have "\<not> (\<lambda>(m, w). hm_running m) (?R (Suc n))"
      using stopped(3) by (simp add: hml.calls_running)
    then show ?thesis
      using stopped by (auto simp: hm_start_loop_def split: prod.splits)
  next
    case (raised n e s')
    obtain m1 w1 where at: "?R n = (m1, w1)" by fastforce
    obtain m' w' where s': "s' = (m', w')" by fastforce
    have "(\<lambda>(m, w). hm_running m) (?R n)"
      using hml.reaches [OF run, of n cb clock calls] raised(1) by (simp add: hml.round_ok_def)
    then have "hm_running m1" by (simp add: at)
    then obtain peers' where check: "check_loop (hm_timeout m1) (clock n) cb (hm_peers m1) w1 = (Inl e, peers', w')" and m': "m' = m1\<lparr>hm_peers := peers'\<rparr>"
      using raised(2) by (auto simp: at s' hm_round_def hm_loop_body_def check_once_def res_simps split: prod.splits)
    show ?thesis
      using check_loop_raises [OF check] \<open>hm_running m1\<close> raised(4)
      by (auto simp: hm_start_loop_def s' m')
  qed
qed

text \<open>
  C22. How the loop of the heartbeat monitor ends, exactly. It runs forever if and only if no round sleeps over
  a stop and no notification of the state callback raises. It ends with an exception after \<open>n\<close> rounds if and
  only if the callback raises that exception when round \<open>n\<close> reports its changes, and no earlier round raised
  or slept over a stop: the exception escapes the check and leaves the loop dead while its flag still says
  running, with the state that was being reported already recorded. It ends normally if and only if a sleep
  has a stop and nothing raised before: right after the first such sleep, with the flag cleared.
\<close>

theorem monitor_loop_outcome:
  fixes m :: "'a heartbeat_monitor"
  shows "let loop = hm_start_loop m cb clock calls w; notified = monitor_notified m cb clock calls w;
      quiet = (\<lambda>i. fst (notified i) = Inr () \<and> HmStop \<notin> set (calls i)) in
    (loop = None \<longleftrightarrow> (\<forall>i. quiet i)) \<and>
    (\<forall>e n w'. (\<exists>m'. loop = Some (Inl e, n, m', w')) \<longleftrightarrow> notified n = (Inl e, w') \<and> (\<forall>i < n. quiet i)) \<and>
    (\<forall>k. (\<exists>m' w'. loop = Some (Inr (), k, m', w')) \<longleftrightarrow>
       (\<exists>n. k = Suc n \<and> fst (notified n) = Inr () \<and> HmStop \<in> set (calls n) \<and> (\<forall>i < n. quiet i))) \<and>
    (case loop of
       None \<Rightarrow> True
     | Some (Inr _, k, m', w') \<Rightarrow> \<not> hm_running m'
     | Some (Inl e, n, m', w') \<Rightarrow> hm_running m' \<and>
         (\<exists>f w1 p st. cb = Some f \<and> f w1 p st = (Inl e, w') \<and> (\<exists>item. (p, item) \<in> set (hm_peers m') \<and> it_state item = Some st)))"
proof -
  let ?s = "(hm_start m, w)" and ?loop = "hm_start_loop m cb clock calls w" and ?notified = "monitor_notified m cb clock calls w"
  let ?quiet = "\<lambda>i. fst (?notified i) = Inr () \<and> HmStop \<notin> set (calls i)" and ?ok = "hml.round_ok cb clock calls ?s"
  let ?R = "\<lambda>n. poll_rounds (hm_round cb) (hm_call_step cb) clock calls n ?s"
  have run: "(\<lambda>(m, w). hm_running m) ?s"
    by (simp add: hm_start_def)
  note quiet = monitor_quiet_rounds [of _ cb clock calls m w]
  have body: "hm_round cb (clock n) (?R n) = (r, m', w') \<Longrightarrow> ?notified n = (r, w') \<and> hm_running m'" if "\<forall>i < n. ?quiet i" for n r m' w'
    by (rule monitor_rounds_ok(1) [OF quiet [THEN iffD2, OF that]])
  have upto: "(\<forall>i. P i) \<longleftrightarrow> (\<forall>n. \<forall>i < n. P i)" for P :: "nat \<Rightarrow> bool"
    by blast
  have never: "?loop = None \<longleftrightarrow> (\<forall>i. ?quiet i)"
    unfolding hm_start_loop_def hml.never_ends_iff [OF run] by (subst (1 2) upto) (simp only: quiet)
  have raised: "(\<exists>m'. ?loop = Some (Inl e, n, m', w')) \<longleftrightarrow> ?notified n = (Inl e, w') \<and> (\<forall>i < n. ?quiet i)" for e n w'
  proof -
    obtain r m2 w2 where at: "hm_round cb (clock n) (?R n) = (r, m2, w2)" by (metis prod_cases3)
    show ?thesis
      using hml.raises_iff [OF run, of cb clock calls e n] quiet [of n] body [of n, OF _ at] at
      unfolding hm_start_loop_def by auto
  qed
  have stopped: "(\<exists>m' w'. ?loop = Some (Inr (), k, m', w')) \<longleftrightarrow>
      (\<exists>n. k = Suc n \<and> fst (?notified n) = Inr () \<and> HmStop \<in> set (calls n) \<and> (\<forall>i < n. ?quiet i))" for k
  proof (cases k)
    case 0
    have "?loop \<noteq> Some (Inr (), 0, s')" for s'
      using run by (cases rule: hml.outcome [where s = ?s and cb = cb and inputs = clock and calls = calls]) (auto simp: hm_start_loop_def)
    with 0 show ?thesis by auto
  next
    case (Suc n)
    obtain r m2 w2 where at: "hm_round cb (clock n) (?R n) = (r, m2, w2)" by (metis prod_cases3)
    obtain m3 w3 where "fold (hm_call_step cb) (calls n) (m2, w2) = (m3, w3)" by fastforce
    then show ?thesis
      using hml.stops_iff [OF run, of cb clock calls n] quiet [of n] body [of n, OF _ at] at
      unfolding hm_start_loop_def Suc by (auto simp: list_ex_iff)
  qed
  show ?thesis
    unfolding Let_def by (intro conjI allI never raised stopped monitor_loop_flags)
qed

text \<open>
  A monitor that knows one peer, last heard from at 0. The callback raises when the check of the second round,
  at 4, reports the peer SUSPECTED: the loop is over, and the flag is still set. With a callback that does
  not raise, the loop goes on until the stop.
\<close>

theorem monitor_loop_outcome_witness:
  "(\<exists>m'. hm_start_loop (snd (hm_update (HeartbeatMonitor (FFin 3) (FFin 1) :: nat heartbeat_monitor) (FFin 0) (u ''a'') (PInt 1) (PInt 2) None))
      (Some (\<lambda>w p st. (Inl ValueError, Suc w))) (\<lambda>i. if i = 0 then FFin 0 else FFin 4) (\<lambda>_. []) 0 = Some (Inl ValueError, 1, m', 1) \<and> hm_running m') \<and>
   (\<exists>m' w'. hm_start_loop (HeartbeatMonitor (FFin 3) (FFin 1) :: nat heartbeat_monitor) None (\<lambda>_. FFin 0) (\<lambda>i. if i = 3 then [HmStop] else []) ()
      = Some (Inr (), 4, m', w') \<and> \<not> hm_running m')"
proof (rule conjI)
  let ?m = "snd (hm_update (HeartbeatMonitor (FFin 3) (FFin 1) :: nat heartbeat_monitor) (FFin 0) (u ''a'') (PInt 1) (PInt 2) None)"
  let ?cb = "Some (\<lambda>w p st. (Inl ValueError, Suc w))" and ?clock = "\<lambda>i :: nat. if i = 0 then FFin 0 else FFin 4"
  let ?loop = "hm_start_loop ?m ?cb ?clock (\<lambda>_. []) 0" and ?notified = "monitor_notified ?m ?cb ?clock (\<lambda>_. []) 0"
  have times: "fsub (FFin 0) (FFin 0) = FFin 0" "fsub (FFin 4) (FFin 0) = FFin 4" "fdouble (FFin 3) = FFin 6"
    using fsub_of_int [of 0 0] fsub_of_int [of 4 0] round64_of_int [of 6] by simp_all
  then have ages: "age_state (FFin 3) (FFin 0) = ALIVE" "age_state (FFin 3) (FFin 4) = SUSPECTED"
    by (simp_all add: age_state_def fval_def del: fdouble.simps)
  have m: "hm_peers (hm_start ?m) = [(u ''a'', \<lparr>it_last_seen = Some (FFin 0), it_state = Some ALIVE, it_cpu_load = Some (FFin 1),
      it_ram_percent = Some (FFin 2), it_address = None\<rparr>)]" "hm_timeout (hm_start ?m) = FFin 3" "hm_running (hm_start ?m)"
    using round64_of_int [of 1] round64_of_int [of 2]
    by (simp_all add: hm_update_def HeartbeatMonitor_def hm_start_def py_float_def float_of_int_def)
  have "state_changes (FFin 3) (FFin 0) (hm_peers (hm_start ?m)) = []"
    by (simp add: state_changes_def m item_age_def times ages del: fsub.simps)
  then have first: "?notified 0 = (Inr (), 0)"
    by (simp add: monitor_notified_def m(2))
  have "snd (hm_round ?cb (FFin 0) (hm_start ?m, 0)) = (hm_start ?m, 0)"
    using m by (simp add: hm_round_def hm_loop_body_def check_once_def item_age_def times ages del: fsub.simps)
  moreover have "state_changes (FFin 3) (FFin 4) (hm_peers (hm_start ?m)) = [(u ''a'', SUSPECTED)]"
    by (simp add: state_changes_def m item_age_def times ages peer_states del: fsub.simps)
  ultimately have "?notified 1 = (Inl ValueError, 1)"
    by (simp add: monitor_notified_def m(2))
  moreover have "(\<exists>m'. ?loop = Some (Inl ValueError, 1, m', 1)) \<longleftrightarrow> ?notified 1 = (Inl ValueError, 1) \<and>
      (\<forall>i < 1. fst (?notified i) = Inr () \<and> HmStop \<notin> set ([] :: nat hm_call list))"
    using monitor_loop_outcome [where m = ?m and cb = ?cb and clock = ?clock and calls = "\<lambda>_. []" and w = 0] unfolding Let_def by (elim conjE allE)
  ultimately obtain m' where "?loop = Some (Inl ValueError, 1, m', 1)"
    using first by auto
  then show "\<exists>m'. ?loop = Some (Inl ValueError, 1, m', 1) \<and> hm_running m'"
    using monitor_loop_flags [where m = ?m and cb = ?cb and clock = ?clock and calls = "\<lambda>_. []" and w = 0] by simp
next
  let ?m = "HeartbeatMonitor (FFin 3) (FFin 1) :: nat heartbeat_monitor" and ?calls = "\<lambda>i :: nat. if i = 3 then [HmStop] else []"
  have "monitor_notified ?m None (\<lambda>_. FFin 0) ?calls () n = (Inr (), ())" for n
    by (simp add: monitor_notified_def split: prod.split)
  then have "\<exists>m' w'. hm_start_loop ?m None (\<lambda>_. FFin 0) ?calls () = Some (Inr (), 4, m', w')"
    using monitor_loop_outcome [where m = ?m and cb = None and clock = "\<lambda>_. FFin 0" and calls = ?calls and w = "()"] unfolding Let_def by (simp add: numeral_eq_Suc)
  then show "\<exists>m' w'. hm_start_loop ?m None (\<lambda>_. FFin 0) ?calls () = Some (Inr (), 4, m', w') \<and> \<not> hm_running m'"
    using monitor_loop_flags [where m = ?m and cb = None and clock = "\<lambda>_. FFin 0" and calls = ?calls and w = "()"] by auto
qed

text \<open>Whether the timestamp of a table entry can be subtracted from a clock reading.\<close>

definition good_timestamp :: "pydict \<Rightarrow> bool" where
  "good_timestamp info \<longleftrightarrow> \<not> isl (float_minus (FFin 0) (case map_of info (u ''timestamp'') of Some v \<Rightarrow> v | None \<Rightarrow> PInt 0))"

definition good_message :: "pyval \<Rightarrow> bool" where
  "good_message msg \<longleftrightarrow> (\<forall>d payload. msg = PDict d \<longrightarrow> dict_get d (u ''data'') = PDict payload \<longrightarrow> good_timestamp payload)"

fun good_call :: "'w gm_call \<Rightarrow> bool" where
  "good_call (GmMessage msg) = good_message msg"
| "good_call _ = True"

lemma good_timestamp_iff: "isl (is_expired now ttl info) \<longleftrightarrow> \<not> good_timestamp info"
  by (auto simp: good_timestamp_def is_expired_def float_minus_def res_simps isl_def split: pyval.splits)

lemma good_own_status: "good_timestamp (rs_to_dict status)"
  by (simp add: good_timestamp_def rs_to_dict_def float_minus_def py_float_def)

definition good_table :: "'w gossip_manager \<Rightarrow> bool" where
  "good_table m \<longleftrightarrow> (\<forall>(k, info) \<in> set (gm_peer_table m). good_timestamp info)"

lemma good_table_update:
  "good_table m \<Longrightarrow> good_timestamp info \<Longrightarrow> good_table (m\<lparr>gm_peer_table := AList.update k info (gm_peer_table m)\<rparr>)"
  using set_update_subset [of k info "gm_peer_table m"] by (auto simp: good_table_def)

lemma good_handle: "good_table m \<Longrightarrow> good_message msg \<Longrightarrow> good_table (snd (handle_incoming_gossip m msg))"
  by (auto simp: handle_incoming_gossip_def good_message_def good_table_update split: pyval.splits sum.splits)

lemma good_call_step: "good_table m \<Longrightarrow> good_call c \<Longrightarrow> good_table (gm_call_step c m)"
proof (cases c)
  case (GmMonitorRound sensors now)
  assume "good_table m"
  moreover have "good_table (m\<lparr>gm_latest := l\<rparr>) = good_table m" for l
    by (simp add: good_table_def)
  ultimately show ?thesis
    using good_table_update [OF _ good_own_status, of "m\<lparr>gm_latest := l\<rparr>" for l]
    by (simp add: GmMonitorRound monitor_loop_body_def on_local_update_def split: sum.split)
qed (simp_all add: good_handle, simp_all add: good_table_def monitor_loop_start_def monitor_loop_stop_def set_transport_def)

lemma cleanup_error:
  assumes "cleanup_stale_peers m now = (Inl e, m')"
  shows "m' = m \<and> \<not> good_table m \<and> e \<in> {TypeError, OverflowError}"
proof -
  have "map_res (\<lambda>(pid, info). and_then (is_expired now (gm_ttl m) info) (\<lambda>b. Inr (pid, b))) (gm_peer_table m) = Inl e" and "m' = m"
    using assms by (auto simp: cleanup_stale_peers_def split: sum.splits)
  then obtain k info where "(k, info) \<in> set (gm_peer_table m)" and e: "is_expired now (gm_ttl m) info = Inl e"
    by (auto simp: res_simps dest!: map_res_raises)
  then have "\<not> good_table m"
    using good_timestamp_iff [of now "gm_ttl m" info] by (auto simp: good_table_def)
  then show ?thesis
    using \<open>m' = m\<close> is_expired_raises [OF e] by simp
qed

lemma cleanup_good: "isl (fst (cleanup_stale_peers m now)) \<longleftrightarrow> \<not> good_table m"
proof
  assume "isl (fst (cleanup_stale_peers m now))"
  then obtain e where "cleanup_stale_peers m now = (Inl e, snd (cleanup_stale_peers m now))"
    by (auto simp: isl_def prod_eq_iff)
  then show "\<not> good_table m" using cleanup_error by blast
next
  assume "\<not> good_table m"
  then obtain k info where k: "(k, info) \<in> set (gm_peer_table m)" and "isl (is_expired now (gm_ttl m) info)"
    by (auto simp: good_table_def good_timestamp_iff)
  then show "isl (fst (cleanup_stale_peers m now))"
    using cleanup_raises [OF k, of now] by (auto simp: isl_def)
qed

lemma cleanup_keeps_good: "good_table m \<Longrightarrow> good_table (snd (cleanup_stale_peers m now))"
  by (auto simp: good_table_def cleanup_stale_peers_def delete_all split: sum.splits)

lemma broadcast_body_good:
  "fst (broadcast_loop_body m now w) = fst (cleanup_stale_peers m now)"
  by (auto simp: broadcast_loop_body_def split: prod.split sum.split option.split)

lemma good_calls: "good_table m \<Longrightarrow> list_all good_call cs \<Longrightarrow> good_table (fst (fold (\<lambda>c (m, w). (gm_call_step c m, w)) cs (m, w)))"
  by (induction cs arbitrary: m) (simp_all add: good_call_step)

abbreviation broadcast_rounds ::
    "(nat \<Rightarrow> pyfloat) \<Rightarrow> (nat \<Rightarrow> 'w gm_call list) \<Rightarrow> nat \<Rightarrow> 'w gossip_manager \<times> 'w \<Rightarrow> 'w gossip_manager \<times> 'w" where
  "broadcast_rounds \<equiv> poll_rounds (\<lambda>now (m, w). broadcast_loop_body m now w) (\<lambda>c (m, w). (gm_call_step c m, w))"

lemma broadcast_rounds_good:
  assumes "good_table m" and "\<forall>i < n. list_all good_call (calls i)"
  shows "good_table (fst (broadcast_rounds clock calls n (m, w)))"
  using assms(2)
proof (induction n)
  case (Suc n)
  obtain m1 w1 where at: "broadcast_rounds clock calls n (m, w) = (m1, w1)" by fastforce
  have "good_table m1"
    using Suc by (simp add: at)
  then have "good_table (fst (snd (broadcast_loop_body m1 (clock n) w1)))"
    by (simp add: broadcast_cleans cleanup_keeps_good)
  then show ?case
    using Suc.prems good_calls [of "fst (snd (broadcast_loop_body m1 (clock n) w1))" "calls n" "snd (snd (broadcast_loop_body m1 (clock n) w1))"]
    by (simp add: at)
qed (simp add: assms(1))

lemma broadcast_round_ok:
  "bcl.round_ok clock calls s i \<longleftrightarrow> good_table (fst (broadcast_rounds clock calls i s))"
proof -
  have "r = Inr () \<longleftrightarrow> \<not> isl r" for r :: "unit res"
    by (cases r) simp_all
  then show ?thesis
    using cleanup_good [of "fst (broadcast_rounds clock calls i s)" "clock i"]
    by (simp add: bcl.round_ok_def split_beta broadcast_body_good list_ex_iff)
qed

lemma gm_call_gossip_step: "gossip_step m (gm_call_step c m)"
  by (cases c) (auto intro: gossip_step.intros(2-) gs_incoming [OF surjective_pairing])

lemma gossip_reachable_calls:
  "gossip_reachable node_id ttl m \<Longrightarrow> gossip_reachable node_id ttl (fst (fold (\<lambda>c (m, w). (gm_call_step c m, w)) cs (m, w)))"
  by (induction cs arbitrary: m) (auto intro: gr_step gm_call_gossip_step)

lemma gossip_reachable_body:
  "gossip_reachable node_id ttl m \<Longrightarrow> gossip_reachable node_id ttl (fst (snd (broadcast_loop_body m now w)))"
  by (rule gr_step, assumption, rule gs_broadcast [where r = "fst (broadcast_loop_body m now w)" and w' = "snd (snd (broadcast_loop_body m now w))"]) simp

lemma broadcast_rounds_Suc:
  assumes "broadcast_rounds clock calls n s = (m1, w1)"
  shows "broadcast_rounds clock calls (Suc n) s =
    fold (\<lambda>c (m, w). (gm_call_step c m, w)) (calls n) (snd (broadcast_loop_body m1 (clock n) w1))"
  by (simp add: assms)

lemma gossip_reachable_after:
  assumes "gossip_reachable node_id ttl m"
  shows "gossip_reachable node_id ttl (fst (fold (\<lambda>c (m, w). (gm_call_step c m, w)) cs (snd (broadcast_loop_body m now w))))"
  using gossip_reachable_calls [OF gossip_reachable_body [OF assms], of cs now w "snd (snd (broadcast_loop_body m now w))"] by simp

lemma gossip_reachable_rounds:
  assumes "gossip_reachable node_id ttl m"
  shows "gossip_reachable node_id ttl (fst (broadcast_rounds clock calls n (m, w)))"
proof (induction n)
  case (Suc n)
  then show ?case
    using gossip_reachable_after by (subst broadcast_rounds_Suc [OF prod.collapse [symmetric]])
qed (simp add: assms)

text \<open>
  A gossip message that passes the handler of a node, although its timestamp cannot be subtracted from a
  clock reading.
\<close>

definition poisons :: "pystr \<Rightarrow> pyval \<Rightarrow> bool" where
  "poisons node_id msg \<longleftrightarrow>
     (\<exists>d payload v k. msg = PDict d \<and> dict_get d (u ''type'') = PStr GOSSIP_RESOURCE_UPDATE \<and> dict_get d (u ''data'') = PDict payload \<and>
        map_of payload (u ''node_id'') = Some v \<and> v \<noteq> PStr node_id \<and> dict_key v = Inr k \<and> \<not> good_timestamp payload)"

lemma poisons_table:
  assumes "poisons (gm_node_id m) msg"
  shows "\<not> good_table (snd (handle_incoming_gossip m msg))"
proof -
  obtain d payload v k where msg: "msg = PDict d" "dict_get d (u ''type'') = PStr GOSSIP_RESOURCE_UPDATE"
    "dict_get d (u ''data'') = PDict payload" "map_of payload (u ''node_id'') = Some v" "v \<noteq> PStr (gm_node_id m)" "dict_key v = Inr k"
    and bad: "\<not> good_timestamp payload"
    using assms by (auto simp: poisons_def)
  have "truthy (PDict payload)"
    using msg(4) by (cases payload) simp_all
  then have "snd (handle_incoming_gossip m msg) = m\<lparr>gm_peer_table := AList.update k payload (gm_peer_table m)\<rparr>"
    using msg by (simp add: handle_incoming_gossip_def dict_get_def [of payload] dict_item_def)
  moreover have "(k, payload) \<in> set (AList.update k payload (gm_peer_table m))"
    by (rule map_of_SomeD) (simp add: update_conv')
  ultimately show ?thesis
    using bad by (auto simp: good_table_def)
qed

lemma broadcast_poisoned:
  assumes "gossip_reachable node_id ttl m" and "calls n = pre @ [GmMessage msg]" and "poisons node_id msg"
  shows "\<not> good_table (fst (broadcast_rounds clock calls (Suc n) (m, w)))"
proof -
  obtain m1 w1 where at: "broadcast_rounds clock calls n (m, w) = (m1, w1)" by fastforce
  obtain m2 w2 where m2: "fold (\<lambda>c (m, w). (gm_call_step c m, w)) pre (snd (broadcast_loop_body m1 (clock n) w1)) = (m2, w2)" by fastforce
  have "gossip_reachable node_id ttl m1"
    using gossip_reachable_rounds [OF assms(1), of clock calls n w] by (simp add: at)
  then have "gm_node_id m2 = node_id"
    using gossip_reachable_after [of node_id ttl m1 pre "clock n" w1] gossip_reachable_ok [of node_id ttl m2] by (simp add: m2)
  moreover have "fst (broadcast_rounds clock calls (Suc n) (m, w)) = snd (handle_incoming_gossip m2 msg)"
    unfolding broadcast_rounds_Suc [OF at] by (simp add: assms(2) m2)
  ultimately show ?thesis
    using poisons_table [of m2 msg] assms(3) by simp
qed

lemma broadcast_body_raises:
  "broadcast_loop_body m now w = (Inl e, m', w') \<Longrightarrow> m' = m \<and> \<not> good_table m \<and> e \<in> {TypeError, OverflowError}"
  using cleanup_error [of m now e m'] broadcast_body_good [of m now w] broadcast_cleans [of m now w] by (simp add: prod_eq_iff)

lemma broadcast_body_raises_iff: "(\<exists>e s'. broadcast_loop_body m now w = (Inl e, s')) \<longleftrightarrow> \<not> good_table m"
  using cleanup_good [of m now] broadcast_body_good [of m now w] by (auto simp: isl_def prod_eq_iff)

text \<open>
  C23. How the broadcast loop of a new gossip manager ends: never by itself, and not at all as long as every
  status that peers gossip has a timestamp that is a number (or none). The only way out is a TypeError or
  OverflowError of the cleanup, in a state whose table has an entry without such a timestamp; and one gossip
  message that brings such an entry, as the last call of a sleep, ends the loop in its next round.
\<close>

theorem broadcast_loop_outcome:
  assumes m: "m = GossipManager node_id monitor_interval ttl"
    and loop: "loop = broadcast_loop m clock queued calls w"
  shows "(list_all good_call queued \<and> (\<forall>i. list_all good_call (calls i)) \<longrightarrow> loop = None) \<and>
    (\<forall>res n m' w'. loop = Some (res, n, m', w') \<longrightarrow> (\<exists>e \<in> {TypeError, OverflowError}. res = Inl e) \<and> \<not> good_table m') \<and>
    (\<forall>n msg. list_all good_call queued \<and> (\<forall>i < n. list_all good_call (calls i)) \<and> calls n \<noteq> [] \<and> last (calls n) = GmMessage msg \<and>
       poisons node_id msg \<longrightarrow> (\<exists>e m' w'. loop = Some (Inl e, Suc n, m', w')))"
proof (intro conjI impI allI)
  define cs where "cs = calls(0 := queued @ GmMonitorStart # calls 0)"
  have loop': "loop = poll_from (\<lambda>_. True) (\<lambda>now (m, w). broadcast_loop_body m now w) (\<lambda>c (m, w). (gm_call_step c m, w)) clock cs 0 (m, w)"
    by (simp add: loop broadcast_loop_def cs_def)
  have reach: "gossip_reachable node_id ttl m"
    unfolding m by (rule gr_new)
  have good0: "good_table m"
    by (simp add: m GossipManager_def good_table_def)
  have cs_good: "\<forall>i < n. list_all good_call (cs i)" if "list_all good_call queued" and "\<forall>i < n. list_all good_call (calls i)" for n
    using that by (simp add: cs_def)
  {
    assume "list_all good_call queued \<and> (\<forall>i. list_all good_call (calls i))"
    then have "good_table (fst (broadcast_rounds clock cs i (m, w)))" for i
      by (intro broadcast_rounds_good [OF good0]) (simp add: cs_good)
    then show "loop = None"
      by (simp add: loop' bcl.never_ends_iff broadcast_round_ok)
  next
    fix res n m' w' assume "loop = Some (res, n, m', w')"
    obtain m1 w1 where at: "broadcast_rounds clock cs n (m, w) = (m1, w1)" by fastforce
    obtain e where res: "res = Inl e"
      using bcl.outcome [OF TrueI, where s = "(m, w)" and inputs = clock and calls = cs] \<open>loop = Some (res, n, m', w')\<close>
      unfolding loop' by (auto simp: list_ex_iff)
    then have "broadcast_loop_body m1 (clock n) w1 = (Inl e, m', w')"
      using \<open>loop = Some (res, n, m', w')\<close> unfolding loop' by (simp add: bcl.raises_iff at)
    from broadcast_body_raises [OF this] res show "\<exists>e \<in> {TypeError, OverflowError}. res = Inl e" and "\<not> good_table m'"
      by simp_all
  next
    fix n msg
    assume a: "list_all good_call queued \<and> (\<forall>i < n. list_all good_call (calls i)) \<and> calls n \<noteq> [] \<and> last (calls n) = GmMessage msg \<and>
       poisons node_id msg"
    have "cs n \<noteq> []" and "last (cs n) = GmMessage msg"
      using a by (cases "n = 0"; simp add: cs_def)+
    then have pre: "cs n = butlast (cs n) @ [GmMessage msg]"
      by (metis append_butlast_last_id)
    have ok: "good_table (fst (broadcast_rounds clock cs i (m, w)))" if "i < Suc n" for i
      by (rule broadcast_rounds_good [OF good0]) (use a that cs_good [of n] in auto)
    obtain m1 w1 where at: "broadcast_rounds clock cs (Suc n) (m, w) = (m1, w1)" by fastforce
    have "\<not> good_table m1"
      using broadcast_poisoned [OF reach, where calls = cs and n = n and clock = clock and w = w, OF pre] a
      by (simp only: at fst_conv simp_thms)
    then obtain e s' where "broadcast_loop_body m1 (clock (Suc n)) w1 = (Inl e, s')"
      using broadcast_body_raises_iff [of m1 "clock (Suc n)" w1] by blast
    then show "\<exists>e m' w'. loop = Some (Inl e, Suc n, m', w')"
      using ok unfolding loop' by (cases s') (auto simp: bcl.raises_iff broadcast_round_ok at simp del: poll_rounds.simps)
  }
qed

definition ex_poison :: pyval where
  "ex_poison = PDict [(u ''type'', PStr GOSSIP_RESOURCE_UPDATE),
     (u ''data'', PDict [(u ''node_id'', PStr (u ''x'')), (u ''timestamp'', PStr (u ''soon''))])]"

lemma ex_poisons: "poisons (u ''me'') ex_poison"
  by (simp add: poisons_def ex_poison_def dict_get_def good_timestamp_def float_minus_def dict_key_def)

theorem broadcast_loop_outcome_witness:
  "broadcast_loop (GossipManager (u ''me'') (FFin 3) (FFin 15)) (\<lambda>_. FFin 0) [] (\<lambda>_. []) () = None \<and>
   (\<exists>e m' w'. broadcast_loop (GossipManager (u ''me'') (FFin 3) (FFin 15)) (\<lambda>_. FFin 0) [] (\<lambda>i. if i = 2 then [GmMessage ex_poison] else []) ()
      = Some (Inl e, 3, m', w'))"
  using broadcast_loop_outcome [OF refl refl, where node_id = "u ''me''" and monitor_interval = "FFin 3" and ttl = "FFin 15" and clock = "\<lambda>_. FFin 0"
      and queued = "[]" and calls = "\<lambda>_. []" and w = "()", THEN conjunct1]
    broadcast_loop_outcome [OF refl refl, where node_id = "u ''me''" and monitor_interval = "FFin 3" and ttl = "FFin 15" and clock = "\<lambda>_. FFin 0"
      and queued = "[]" and calls = "\<lambda>i. if i = 2 then [GmMessage ex_poison] else []" and w = "()",
      THEN conjunct2, THEN conjunct2, THEN spec, of 2, THEN spec, of ex_poison]
  by (simp add: ex_poisons)

end
