(* ===== verification/Framing.thy ===== *)
theory Framing
  imports Sha256
begin

text \<open>
  \<open>meshweaver/secure_network.py\<close>: length-prefixed messages over a TLS stream. A connection is the bytes the
  reader will still deliver before the end of the stream and the bytes written so far; theory Tls_Context has
  the contexts and the server. A frame is the length in four big-endian bytes, then the data.
\<close>

text \<open>\<open>n.to_bytes(4, "big")\<close>.\<close>

definition to_bytes_4 :: "nat \<Rightarrow> bytes res" where
  "to_bytes_4 n =
     (if n < 2 ^ 32 then Inr (to_bytes_big 4 n) else Inl OverflowError)"

record secure_protocol =
  sp_node_id :: pystr
  sp_reader :: "bytes option"
  sp_writer :: "bytes option"

definition SecureNetworkProtocol :: "pystr \<Rightarrow> secure_protocol" where
  "SecureNetworkProtocol node_id = \<lparr>sp_node_id = node_id, sp_reader = None, sp_writer = None\<rparr>"

text \<open>\<open>connect\<close>, with the stream the peer sends.\<close>

definition sp_connect :: "secure_protocol \<Rightarrow> bytes \<Rightarrow> secure_protocol" where
  "sp_connect s incoming = s\<lparr>sp_reader := Some incoming, sp_writer := Some []\<rparr>"

definition sp_send :: "secure_protocol \<Rightarrow> bytes \<Rightarrow> unit res \<times> secure_protocol" where
  "sp_send s data =
     (case sp_writer s of
        None \<Rightarrow> (Inl ConnectionError, s)
      | Some out \<Rightarrow>
          (case to_bytes_4 (length data) of
             Inl e \<Rightarrow> (Inl e, s)
           | Inr prefix \<Rightarrow> (Inr (), s\<lparr>sp_writer := Some (out @ prefix @ data)\<rparr>)))"

text \<open>\<open>StreamReader.readexactly(n)\<close>: at the end of the stream the partial data is dropped.\<close>

definition readexactly :: "bytes \<Rightarrow> nat \<Rightarrow> bytes res \<times> bytes" where
  "readexactly stream n =
     (if n \<le> length stream then (Inr (take n stream), drop n stream) else (Inl IncompleteReadError, []))"

definition MAX_MESSAGE :: nat where
  "MAX_MESSAGE = 10 * 1024 * 1024"

definition sp_receive :: "secure_protocol \<Rightarrow> bytes res \<times> secure_protocol" where
  "sp_receive s =
     (case sp_reader s of
        None \<Rightarrow> (Inl ConnectionError, s)
      | Some stream \<Rightarrow>
          (case readexactly stream 4 of
             (Inl e, stream1) \<Rightarrow> (Inl e, s\<lparr>sp_reader := Some stream1\<rparr>)
           | (Inr raw_len, stream1) \<Rightarrow>
               (let size = from_bytes_big raw_len in
                if size > MAX_MESSAGE then (Inl ValueError, s\<lparr>sp_reader := Some stream1\<rparr>)
                else (case readexactly stream1 size of (r, stream2) \<Rightarrow> (r, s\<lparr>sp_reader := Some stream2\<rparr>)))))"

definition sp_close :: "secure_protocol \<Rightarrow> secure_protocol" where
  "sp_close s = s\<lparr>sp_writer := None\<rparr>"

section \<open>Frames\<close>

text \<open>Sending a list of messages, and receiving a number of them.\<close>

fun send_all :: "secure_protocol \<Rightarrow> bytes list \<Rightarrow> unit res \<times> secure_protocol" where
  "send_all s [] = (Inr (), s)"
| "send_all s (d # ds) = (case sp_send s d of (Inl e, s') \<Rightarrow> (Inl e, s') | (Inr _, s') \<Rightarrow> send_all s' ds)"

fun receive_all :: "secure_protocol \<Rightarrow> nat \<Rightarrow> bytes list res \<times> secure_protocol" where
  "receive_all s 0 = (Inr [], s)"
| "receive_all s (Suc n) =
     (case sp_receive s of
        (Inl e, s') \<Rightarrow> (Inl e, s')
      | (Inr d, s') \<Rightarrow> (case receive_all s' n of (r, s'') \<Rightarrow> (and_then r (\<lambda>ds. Inr (d # ds)), s'')))"

lemma to_bytes_4_spec:
  assumes "n < 2 ^ 32"
  obtains bs where "to_bytes_4 n = Inr bs" and "length bs = 4" and "from_bytes_big bs = n"
  using that [of "to_bytes_big 4 n"] assms by (simp add: to_bytes_4_def from_to_bytes_big)

lemma sp_send_ok:
  assumes "sp_writer s = Some out" and "length d < 2 ^ 32"
  obtains prefix where "to_bytes_4 (length d) = Inr prefix" and "length prefix = 4" and "from_bytes_big prefix = length d"
    and "sp_send s d = (Inr (), s\<lparr>sp_writer := Some (out @ prefix @ d)\<rparr>)"
  using to_bytes_4_spec [OF assms(2)] assms(1) by (metis (no_types, lifting) old.sum.simps(6) option.simps(5) sp_send_def)

lemma sp_receive_frame:
  assumes "sp_reader s = Some (prefix @ d @ rest)" and "length prefix = 4" and "from_bytes_big prefix = length d"
  shows "sp_receive s = (if length d \<le> MAX_MESSAGE then (Inr d, s\<lparr>sp_reader := Some rest\<rparr>)
    else (Inl ValueError, s\<lparr>sp_reader := Some (d @ rest)\<rparr>))"
  using assms by (simp add: sp_receive_def readexactly_def Let_def)

lemma send_all_frames:
  assumes "sp_writer s = Some out" and "\<forall>d \<in> set ds. length d < 2 ^ 32"
  shows "\<exists>frames. send_all s ds = (Inr (), s\<lparr>sp_writer := Some (out @ concat frames)\<rparr>) \<and>
    list_all2 (\<lambda>frame d. \<exists>prefix. frame = prefix @ d \<and> length prefix = 4 \<and> from_bytes_big prefix = length d) frames ds"
  using assms
proof (induction ds arbitrary: s out)
  case Nil
  then show ?case by (intro exI [of _ "[]"]) simp
next
  case (Cons d ds)
  then have d: "length d < 2 ^ 32" by simp
  obtain prefix where prefix: "length prefix = 4" "from_bytes_big prefix = length d"
    and send: "sp_send s d = (Inr (), s\<lparr>sp_writer := Some (out @ prefix @ d)\<rparr>)"
    using sp_send_ok [OF Cons.prems(1) d] by metis
  obtain frames where "send_all (s\<lparr>sp_writer := Some (out @ prefix @ d)\<rparr>) ds
      = (Inr (), s\<lparr>sp_writer := Some ((out @ prefix @ d) @ concat frames)\<rparr>)"
    and "list_all2 (\<lambda>frame d. \<exists>prefix. frame = prefix @ d \<and> length prefix = 4 \<and> from_bytes_big prefix = length d) frames ds"
    using Cons.IH [of "s\<lparr>sp_writer := Some (out @ prefix @ d)\<rparr>" "out @ prefix @ d"] Cons.prems(2) by auto
  then show ?case
    using send prefix by (intro exI [of _ "(prefix @ d) # frames"]) auto
qed

lemma receive_all_frames:
  assumes "list_all2 (\<lambda>frame d. \<exists>prefix. frame = prefix @ d \<and> length prefix = 4 \<and> from_bytes_big prefix = length d) frames ds"
    and "sp_reader s = Some (concat frames @ rest)" and "\<forall>d \<in> set ds. length d \<le> MAX_MESSAGE"
  shows "receive_all s (length ds) = (Inr ds, s\<lparr>sp_reader := Some rest\<rparr>)"
  using assms
proof (induction arbitrary: s rule: list_all2_induct)
  case Nil
  then show ?case by simp
next
  case (Cons frame frames d ds)
  then obtain prefix where frame: "frame = prefix @ d" "length prefix = 4" "from_bytes_big prefix = length d" by blast
  have "sp_receive s = (Inr d, s\<lparr>sp_reader := Some (concat frames @ rest)\<rparr>)"
    using sp_receive_frame [of s prefix d "concat frames @ rest"] Cons.prems frame by simp
  then show ?case
    using Cons.IH [of "s\<lparr>sp_reader := Some (concat frames @ rest)\<rparr>"] Cons.prems(2) by simp
qed

section \<open>Properties\<close>

text \<open>
  C34. Messages of at most 10 MiB sent one after the other over a connection are received by the peer, in
  order and unchanged, and a further receive at the end of the stream raises \<open>IncompleteReadError\<close>.
\<close>

theorem frames_roundtrip:
  assumes "\<forall>d \<in> set ds. length d \<le> MAX_MESSAGE"
  shows "\<exists>a' sent b'. send_all (sp_connect a []) ds = (Inr (), a') \<and> sp_writer a' = Some sent \<and>
    receive_all (sp_connect b sent) (length ds) = (Inr ds, b') \<and> fst (sp_receive b') = Inl IncompleteReadError"
proof -
  have "\<forall>d \<in> set ds. length d < 2 ^ 32"
    using assms by (auto simp: MAX_MESSAGE_def)
  then obtain frames where frames: "send_all (sp_connect a []) ds = (Inr (), (sp_connect a [])\<lparr>sp_writer := Some (concat frames)\<rparr>)"
    and all: "list_all2 (\<lambda>frame d. \<exists>prefix. frame = prefix @ d \<and> length prefix = 4 \<and> from_bytes_big prefix = length d) frames ds"
    using send_all_frames [of "sp_connect a []" "[]" ds] by (auto simp: sp_connect_def)
  have "receive_all (sp_connect b (concat frames)) (length ds) = (Inr ds, (sp_connect b (concat frames))\<lparr>sp_reader := Some []\<rparr>)"
    by (rule receive_all_frames [OF all _ assms]) (simp add: sp_connect_def)
  with frames show ?thesis
    by (auto simp: sp_receive_def readexactly_def)
qed

theorem frames_roundtrip_witness:
  "\<exists>a' sent b'. send_all (sp_connect (SecureNetworkProtocol (u ''a'')) []) [[1, 2], [], [3]] = (Inr (), a') \<and> sp_writer a' = Some sent \<and>
    receive_all (sp_connect (SecureNetworkProtocol (u ''b'')) sent) 3 = (Inr [[1, 2], [], [3]], b')"
  using frames_roundtrip [of "[[1, 2], [], [3]]" "SecureNetworkProtocol (u ''a'')" "SecureNetworkProtocol (u ''b'')"]
  by (auto simp: MAX_MESSAGE_def numeral_3_eq_3)

text \<open>
  C35. The sender does not enforce the limit of the receiver. On a connection a message up to 10 MiB arrives;
  a longer one below 4 GiB is sent without an error and refused by the peer with \<open>ValueError\<close>, its body still
  in the stream, where the next receive takes it for a length; a message of 4 GiB or more raises
  \<open>OverflowError\<close> and nothing is written. Without a connection both operations raise \<open>ConnectionError\<close>.
\<close>

theorem send_receive_limits:
  "(case sp_writer s of
      None \<Rightarrow> sp_send s d = (Inl ConnectionError, s)
    | Some out \<Rightarrow>
        if 2 ^ 32 \<le> length d then sp_send s d = (Inl OverflowError, s)
        else \<exists>frame. sp_send s d = (Inr (), s\<lparr>sp_writer := Some (out @ frame)\<rparr>) \<and>
          (case sp_receive (sp_connect b (frame @ rest)) of
             (Inr d', b') \<Rightarrow> length d \<le> MAX_MESSAGE \<and> d' = d \<and> sp_reader b' = Some rest
           | (Inl e, b') \<Rightarrow> MAX_MESSAGE < length d \<and> e = ValueError \<and> sp_reader b' = Some (d @ rest))) \<and>
   (if sp_reader s = None then sp_receive s = (Inl ConnectionError, s) else True)"
proof (cases "sp_writer s")
  case (Some out)
  have closed: "if sp_reader s = None then sp_receive s = (Inl ConnectionError, s) else True"
    by (simp add: sp_receive_def)
  show ?thesis
  proof (cases "length d < 2 ^ 32")
    case True
    obtain prefix where "length prefix = 4" "from_bytes_big prefix = length d"
      and send: "sp_send s d = (Inr (), s\<lparr>sp_writer := Some (out @ prefix @ d)\<rparr>)"
      using sp_send_ok [OF Some True] by metis
    then have "sp_receive (sp_connect b (prefix @ d @ rest)) =
        (if length d \<le> MAX_MESSAGE then (Inr d, (sp_connect b (prefix @ d @ rest))\<lparr>sp_reader := Some rest\<rparr>)
         else (Inl ValueError, (sp_connect b (prefix @ d @ rest))\<lparr>sp_reader := Some (d @ rest)\<rparr>))"
      by (intro sp_receive_frame) (simp_all add: sp_connect_def)
    then have "\<exists>frame. sp_send s d = (Inr (), s\<lparr>sp_writer := Some (out @ frame)\<rparr>) \<and>
        (case sp_receive (sp_connect b (frame @ rest)) of
           (Inr d', b') \<Rightarrow> length d \<le> MAX_MESSAGE \<and> d' = d \<and> sp_reader b' = Some rest
         | (Inl e, b') \<Rightarrow> MAX_MESSAGE < length d \<and> e = ValueError \<and> sp_reader b' = Some (d @ rest))"
      using send by (intro exI [of _ "prefix @ d"]) auto
    with closed True show ?thesis
      by (simp only: Some option.case not_le [symmetric]) simp
  qed (use closed in \<open>simp add: Some sp_send_def to_bytes_4_def\<close>)
qed (simp add: sp_send_def sp_receive_def)

end
