(* ===== verification/Tls_Context.thy ===== *)
theory Tls_Context
  imports Framing
begin

text \<open>
  The TLS contexts of \<open>meshweaver/secure_network.py\<close> and its server. A context of Python's \<open>ssl\<close> module is a
  record of the settings the code makes; its setters raise as documented. What the certificate files hold
  and the anchors of the platform are an argument, as is the validation of a certificate chain. From the
  settings follows which peers a connection is made with.
\<close>

section \<open>Contexts of the standard library\<close>

datatype verify_mode = CERT_NONE | CERT_OPTIONAL | CERT_REQUIRED

datatype tls_version = TLSv1 | TLSv1_1 | TLSv1_2 | TLSv1_3

primrec version_number :: "tls_version \<Rightarrow> nat" where
  "version_number TLSv1 = 0"
| "version_number TLSv1_1 = 1"
| "version_number TLSv1_2 = 2"
| "version_number TLSv1_3 = 3"

lemma version_number_inj: "version_number v = version_number v' \<Longrightarrow> v = v'"
  by (cases v; cases v') simp_all

instantiation tls_version :: linorder
begin

definition less_eq_tls_version :: "tls_version \<Rightarrow> tls_version \<Rightarrow> bool" where
  "v \<le> v' \<longleftrightarrow> version_number v \<le> version_number v'"

definition less_tls_version :: "tls_version \<Rightarrow> tls_version \<Rightarrow> bool" where
  "v < v' \<longleftrightarrow> version_number v < version_number v'"

instance
  by standard (auto simp: less_eq_tls_version_def less_tls_version_def version_number_inj)

end

datatype purpose = SERVER_AUTH | CLIENT_AUTH

record ('cert, 'ca) ssl_context =
  sc_verify_mode :: verify_mode
  sc_check_hostname :: bool
  sc_minimum_version :: tls_version
  sc_cert_chain :: "'cert option"
  sc_anchors :: "'ca set"

text \<open>The certificate files, by path, the anchors of the platform and the oldest version the library speaks.\<close>

record ('cert, 'ca) tls_files =
  tf_cert_chain :: "pystr \<Rightarrow> pystr \<Rightarrow> 'cert res"
  tf_ca :: "pystr \<Rightarrow> 'ca set res"
  tf_platform :: "'ca set"
  tf_oldest :: tls_version

definition load_verify_locations ::
    "('cert, 'ca) tls_files \<Rightarrow> ('cert, 'ca) ssl_context \<Rightarrow> pystr \<Rightarrow> ('cert, 'ca) ssl_context res" where
  "load_verify_locations env ctx cafile =
     and_then (tf_ca env cafile) (\<lambda>cas. Inr (ctx\<lparr>sc_anchors := sc_anchors ctx \<union> cas\<rparr>))"

definition load_cert_chain ::
    "('cert, 'ca) tls_files \<Rightarrow> ('cert, 'ca) ssl_context \<Rightarrow> pystr \<Rightarrow> pystr \<Rightarrow> ('cert, 'ca) ssl_context res" where
  "load_cert_chain env ctx certfile keyfile =
     and_then (tf_cert_chain env certfile keyfile) (\<lambda>c. Inr (ctx\<lparr>sc_cert_chain := Some c\<rparr>))"

text \<open>Verification cannot be switched off while host names are checked.\<close>

definition set_verify_mode :: "('cert, 'ca) ssl_context \<Rightarrow> verify_mode \<Rightarrow> ('cert, 'ca) ssl_context res" where
  "set_verify_mode ctx mode =
     (if mode = CERT_NONE \<and> sc_check_hostname ctx then Inl ValueError else Inr (ctx\<lparr>sc_verify_mode := mode\<rparr>))"

text \<open>An optional path is used when it is given and not empty.\<close>

definition given :: "pystr option \<Rightarrow> bool" where
  "given path \<longleftrightarrow> path \<noteq> None \<and> path \<noteq> Some []"

text \<open>
  \<open>ssl.create_default_context\<close>: a context for connecting verifies the server and its name, against the given
  anchors or else those of the platform; a context for serving does not ask for client certificates.
\<close>

definition create_default_context ::
    "('cert, 'ca) tls_files \<Rightarrow> purpose \<Rightarrow> pystr option \<Rightarrow> ('cert, 'ca) ssl_context res" where
  "create_default_context env purpose cafile =
     (let ctx = \<lparr>sc_verify_mode = (case purpose of SERVER_AUTH \<Rightarrow> CERT_REQUIRED | CLIENT_AUTH \<Rightarrow> CERT_NONE),
                 sc_check_hostname = (purpose = SERVER_AUTH), sc_minimum_version = tf_oldest env,
                 sc_cert_chain = None, sc_anchors = {}\<rparr>
      in if given cafile then load_verify_locations env ctx (the cafile)
         else if sc_verify_mode ctx \<noteq> CERT_NONE then Inr (ctx\<lparr>sc_anchors := tf_platform env\<rparr>)
         else Inr ctx)"

section \<open>The contexts of the program\<close>

definition create_server_context ::
    "('cert, 'ca) tls_files \<Rightarrow> pystr \<Rightarrow> pystr \<Rightarrow> pystr option \<Rightarrow> bool \<Rightarrow> ('cert, 'ca) ssl_context res" where
  "create_server_context env certfile keyfile cafile require_client_cert =
     and_then (create_default_context env CLIENT_AUTH None) (\<lambda>context.
     and_then (load_cert_chain env (context\<lparr>sc_minimum_version := TLSv1_2\<rparr>) certfile keyfile) (\<lambda>context.
     and_then (if given cafile then load_verify_locations env context (the cafile) else Inr context) (\<lambda>context.
       if require_client_cert then set_verify_mode context CERT_REQUIRED else Inr context)))"

definition create_client_context ::
    "('cert, 'ca) tls_files \<Rightarrow> pystr option \<Rightarrow> pystr option \<Rightarrow> pystr option \<Rightarrow> bool \<Rightarrow> ('cert, 'ca) ssl_context res" where
  "create_client_context env cafile certfile keyfile verify =
     and_then (create_default_context env SERVER_AUTH cafile) (\<lambda>context.
       (let context = context\<lparr>sc_minimum_version := TLSv1_2\<rparr> in
        and_then (if \<not> verify then set_verify_mode (context\<lparr>sc_check_hostname := False\<rparr>) CERT_NONE else Inr context) (\<lambda>context.
          if given certfile \<and> given keyfile then load_cert_chain env context (the certfile) (the keyfile) else Inr context)))"

section \<open>Whom a context accepts\<close>

text \<open>
  The handshake as the \<open>ssl\<close> module documents it: the version is not older than the minimum; with
  \<open>CERT_REQUIRED\<close> the other side shows a certificate that validates against the anchors, with
  \<open>CERT_OPTIONAL\<close> if it shows one, and with \<open>CERT_NONE\<close> nothing is looked at; a client that checks host names
  also wants the certificate to be for the host. \<open>validates\<close> is the validation of chains.
\<close>

definition accepts ::
    "('ca set \<Rightarrow> 'cert \<Rightarrow> bool) \<Rightarrow> ('cert \<Rightarrow> pystr \<Rightarrow> bool) \<Rightarrow> ('cert, 'ca) ssl_context \<Rightarrow> pystr option \<Rightarrow> tls_version \<Rightarrow> 'cert option \<Rightarrow> bool" where
  "accepts validates matches ctx host version cert \<longleftrightarrow>
     sc_minimum_version ctx \<le> version \<and>
     (case sc_verify_mode ctx of
        CERT_NONE \<Rightarrow> True
      | CERT_OPTIONAL \<Rightarrow> (case cert of None \<Rightarrow> True | Some c \<Rightarrow> validates (sc_anchors ctx) c)
      | CERT_REQUIRED \<Rightarrow> (case cert of None \<Rightarrow> False | Some c \<Rightarrow> validates (sc_anchors ctx) c)) \<and>
     (sc_check_hostname ctx \<longrightarrow> (case (cert, host) of (Some c, Some h) \<Rightarrow> matches c h | _ \<Rightarrow> False))"

text \<open>
  A listening server, and what it does with a connection: the callback runs for the accepted ones, on the
  bytes the client will send and the world its answers go to. The server's side of the handshake knows no
  host name.
\<close>

record ('cert, 'ca, 'w) tls_server =
  ts_host :: pystr
  ts_port :: nat
  ts_context :: "('cert, 'ca) ssl_context"
  ts_connected_cb :: "'w \<Rightarrow> bytes \<Rightarrow> 'w"

definition start_tls_server ::
    "pystr \<Rightarrow> nat \<Rightarrow> ('cert, 'ca) ssl_context \<Rightarrow> ('w \<Rightarrow> bytes \<Rightarrow> 'w) \<Rightarrow> ('cert, 'ca, 'w) tls_server" where
  "start_tls_server host port context client_connected_cb =
     \<lparr>ts_host = host, ts_port = port, ts_context = context, ts_connected_cb = client_connected_cb\<rparr>"

definition serve_connection ::
    "('ca set \<Rightarrow> 'cert \<Rightarrow> bool) \<Rightarrow> ('cert \<Rightarrow> pystr \<Rightarrow> bool) \<Rightarrow> ('cert, 'ca, 'w) tls_server \<Rightarrow> tls_version \<Rightarrow> 'cert option \<Rightarrow> bytes \<Rightarrow> 'w \<Rightarrow> 'w" where
  "serve_connection validates matches server version cert stream w =
     (if accepts validates matches (ts_context server) None version cert then ts_connected_cb server w stream else w)"

section \<open>Properties\<close>

lemma create_server_context_spec:
  "create_server_context env certfile keyfile cafile require_client_cert =
     and_then (tf_cert_chain env certfile keyfile) (\<lambda>chain.
     and_then (if given cafile then tf_ca env (the cafile) else Inr {}) (\<lambda>cas.
       Inr \<lparr>sc_verify_mode = (if require_client_cert then CERT_REQUIRED else CERT_NONE), sc_check_hostname = False,
         sc_minimum_version = TLSv1_2, sc_cert_chain = Some chain, sc_anchors = cas\<rparr>))"
  by (cases "tf_cert_chain env certfile keyfile"; cases "tf_ca env (the cafile)")
    (simp_all add: create_server_context_def create_default_context_def load_cert_chain_def load_verify_locations_def
      set_verify_mode_def Let_def given_def [of None])

lemma create_client_context_spec:
  "create_client_context env cafile certfile keyfile verify =
     and_then (if given cafile then tf_ca env (the cafile) else Inr (tf_platform env)) (\<lambda>cas.
     and_then (if given certfile \<and> given keyfile then and_then (tf_cert_chain env (the certfile) (the keyfile)) (Inr \<circ> Some) else Inr None) (\<lambda>chain.
       Inr \<lparr>sc_verify_mode = (if verify then CERT_REQUIRED else CERT_NONE), sc_check_hostname = verify,
         sc_minimum_version = TLSv1_2, sc_cert_chain = chain, sc_anchors = cas\<rparr>))"
  by (cases "tf_cert_chain env (the certfile) (the keyfile)"; cases "tf_ca env (the cafile)")
    (simp_all add: create_client_context_def create_default_context_def load_cert_chain_def load_verify_locations_def
      set_verify_mode_def Let_def)

text \<open>
  C36. Whom a server of this program serves. Making the context raises only what loading the certificate or
  the anchors raises. The context speaks TLS 1.2 or newer; without \<open>require_client_cert\<close> every client is let
  in, also when a file of anchors is given; with it exactly the clients whose certificate validates against
  that file, hence none at all when no file is given and nothing validates without anchors: the anchors of
  the platform are not used.
\<close>

theorem server_context_spec:
  "case create_server_context env certfile keyfile cafile require_client_cert of
     Inl e \<Rightarrow> tf_cert_chain env certfile keyfile = Inl e \<or> (given cafile \<and> tf_ca env (the cafile) = Inl e)
   | Inr context \<Rightarrow> \<exists>chain cas. tf_cert_chain env certfile keyfile = Inr chain \<and>
       (if given cafile then tf_ca env (the cafile) = Inr cas else cas = {}) \<and> sc_cert_chain context = Some chain \<and>
       (\<forall>version cert stream w. serve_connection validates matches (start_tls_server host port context cb) version cert stream w =
          (if TLSv1_2 \<le> version \<and> (require_client_cert \<longrightarrow> (\<exists>c. cert = Some c \<and> validates cas c)) then cb w stream else w)) \<and>
       (require_client_cert \<and> \<not> given cafile \<and> (\<forall>c. \<not> validates {} c) \<longrightarrow>
          (\<forall>version cert stream w. serve_connection validates matches (start_tls_server host port context cb) version cert stream w = w))"
proof (cases "create_server_context env certfile keyfile cafile require_client_cert")
  case (Inl e)
  then show ?thesis
    by (auto simp: create_server_context_spec res_simps split: if_splits)
next
  case (Inr ctx)
  then show ?thesis
    by (auto simp: create_server_context_spec serve_connection_def start_tls_server_def accepts_def res_simps split: if_splits option.splits)
qed

definition ex_files :: "(nat, nat) tls_files" where
  "ex_files = \<lparr>tf_cert_chain = (\<lambda>c k. if k = u ''none'' then Inl FileNotFoundError else Inr 7), tf_ca = (\<lambda>p. Inr {7, 8}),
     tf_platform = {9}, tf_oldest = TLSv1\<rparr>"

theorem server_context_spec_witness:
  "\<exists>context. create_server_context ex_files (u ''c'') (u ''k'') (Some (u ''ca'')) True = Inr context \<and>
     serve_connection (\<lambda>cas c. c \<in> cas) (\<lambda>_ _. True) (start_tls_server (u ''h'') 443 context (\<lambda>w s. Suc w)) TLSv1_3 (Some 8) [] 0 = 1 \<and>
     serve_connection (\<lambda>cas c. c \<in> cas) (\<lambda>_ _. True) (start_tls_server (u ''h'') 443 context (\<lambda>w s. Suc w)) TLSv1_3 None [] 0 = 0"
proof -
  obtain ctx where "create_server_context ex_files (u ''c'') (u ''k'') (Some (u ''ca'')) True = Inr ctx"
    by (simp add: create_server_context_spec ex_files_def given_def)
  then show ?thesis
    using server_context_spec [where env = ex_files and certfile = "u ''c''" and keyfile = "u ''k''" and cafile = "Some (u ''ca'')"
        and require_client_cert = True and validates = "\<lambda>cas c. c \<in> cas" and matches = "\<lambda>_ _. True" and host = "u ''h''" and port = 443
        and cb = "\<lambda>w s. Suc w"]
    by (auto simp: ex_files_def given_def less_eq_tls_version_def)
qed

text \<open>
  Which servers a client of this program talks to. Making the context raises only what loading the files
  raises, whatever \<open>verify\<close> is. By default the server needs a certificate for the host that validates
  against the given file, or against the anchors of the platform when there is none; with \<open>verify=False\<close>
  every server is accepted. The client shows a certificate exactly when both its paths are given.
\<close>

theorem client_context_spec:
  "case create_client_context env cafile certfile keyfile verify of
     Inl e \<Rightarrow> (given cafile \<and> tf_ca env (the cafile) = Inl e) \<or>
       (given certfile \<and> given keyfile \<and> tf_cert_chain env (the certfile) (the keyfile) = Inl e)
   | Inr context \<Rightarrow> \<exists>cas. (if given cafile then tf_ca env (the cafile) = Inr cas else cas = tf_platform env) \<and>
       (sc_cert_chain context \<noteq> None \<longleftrightarrow> given certfile \<and> given keyfile) \<and>
       (\<forall>host version cert. accepts validates matches context (Some host) version cert \<longleftrightarrow>
          TLSv1_2 \<le> version \<and> (verify \<longrightarrow> (\<exists>c. cert = Some c \<and> validates cas c \<and> matches c host)))"
proof (cases "create_client_context env cafile certfile keyfile verify")
  case (Inl e)
  then show ?thesis
    by (auto simp: create_client_context_spec res_simps split: if_splits)
next
  case (Inr ctx)
  then show ?thesis
    by (auto simp: create_client_context_spec accepts_def res_simps split: if_splits option.split)
qed

theorem client_context_spec_witness:
  "\<exists>context. create_client_context ex_files None None None True = Inr context \<and>
     accepts (\<lambda>cas c. c \<in> cas) (\<lambda>c h. h = u ''h'') context (Some (u ''h'')) TLSv1_2 (Some 9) \<and>
     \<not> accepts (\<lambda>cas c. c \<in> cas) (\<lambda>c h. h = u ''h'') context (Some (u ''x'')) TLSv1_2 (Some 9)"
proof -
  obtain ctx where "create_client_context ex_files None None None True = Inr ctx"
    by (simp add: create_client_context_spec ex_files_def given_def)
  then show ?thesis
    using client_context_spec [where env = ex_files and cafile = None and certfile = None and keyfile = None and verify = True
        and validates = "\<lambda>cas c. c \<in> cas" and matches = "\<lambda>c h. h = u ''h''"]
    by (auto simp: ex_files_def given_def less_eq_tls_version_def)
qed

end
