(* ===== verification/Execution.thy ===== *)
theory Execution
  imports Protocol Py_Dict
begin

text \<open>
  \<open>meshweaver/execution.py\<close>: the task manager of a node. \<open>execute\<close> keeps a reference to its task record while
  it awaits the function, and \<open>create\<close> may put a new record under the same id meanwhile, so records live in a
  store and \<open>tasks\<close> maps an id to an index of it. Functions (\<open>'f\<close>), the awaitables they may return (\<open>'a\<close>) and
  their values (\<open>'v\<close>) are opaque; calling and awaiting them are parameters. The registered functions do not
  themselves use the manager.
\<close>

definition PENDING :: pystr where "PENDING = u ''PENDING''"
definition RUNNING :: pystr where "RUNNING = u ''RUNNING''"
definition COMPLETED :: pystr where "COMPLETED = u ''COMPLETED''"
definition FAILED :: pystr where "FAILED = u ''FAILED''"
definition RETRY :: pystr where "RETRY = u ''RETRY''"

lemmas state_names = PENDING_def RUNNING_def COMPLETED_def FAILED_def RETRY_def

record 'v exec_record =
  er_task_id :: pystr
  er_state :: pystr
  er_executing_node :: "pystr option"
  er_result :: "'v option"
  er_error :: "pystr option"
  er_attempts :: nat

definition new_record :: "pystr \<Rightarrow> 'v exec_record" where
  "new_record task_id =
     \<lparr>er_task_id = task_id, er_state = PENDING, er_executing_node = None, er_result = None, er_error = None, er_attempts = 0\<rparr>"

record ('f, 'v) task_manager =
  tm_node_id :: pystr
  tm_tasks :: "(pystr \<times> nat) list"
  tm_records :: "'v exec_record list"
  tm_accepted_results :: "pystr set"
  tm_registry :: "(pystr \<times> 'f) list"

definition TaskManager :: "pystr \<Rightarrow> ('f, 'v) task_manager" where
  "TaskManager node_id =
     \<lparr>tm_node_id = node_id, tm_tasks = [], tm_records = [], tm_accepted_results = {}, tm_registry = []\<rparr>"

definition register :: "('f \<Rightarrow> bool) \<Rightarrow> ('f, 'v) task_manager \<Rightarrow> pystr \<Rightarrow> 'f \<Rightarrow> unit res \<times> ('f, 'v) task_manager" where
  "register callable tm name fn =
     (if \<not> callable fn then (Inl TypeError, tm)
      else (Inr (), tm\<lparr>tm_registry := AList.update name fn (tm_registry tm)\<rparr>))"

text \<open>\<open>tasks[task_id] = TaskRecord(task_id)\<close>.\<close>

definition put_record :: "('f, 'v) task_manager \<Rightarrow> pystr \<Rightarrow> ('f, 'v) task_manager" where
  "put_record tm task_id =
     tm\<lparr>tm_tasks := AList.update task_id (length (tm_records tm)) (tm_tasks tm),
        tm_records := tm_records tm @ [new_record task_id]\<rparr>"

definition tm_create ::
    "('f, 'v) task_manager \<Rightarrow> pystr \<Rightarrow> pystr \<Rightarrow> pyval list \<Rightarrow> pyval \<Rightarrow> pystr option \<Rightarrow> pydict res \<times> ('f, 'v) task_manager" where
  "tm_create tm uuid fn_name args kwargs task_id =
     (if map_of (tm_registry tm) fn_name = None then (Inl KeyError, tm)
      else
        let tid = (case task_id of Some s \<Rightarrow> if s = [] then uuid else s | None \<Rightarrow> uuid) in
        (Inr [(u ''task_id'', PStr tid), (u ''fn_name'', PStr fn_name), (u ''args'', PList args),
              (u ''kwargs'', if truthy kwargs then kwargs else PDict [])],
         put_record tm tid))"

definition validate_signed_task :: "pydict \<Rightarrow> bytes \<Rightarrow> pydict res" where
  "validate_signed_task message secret =
     and_then (verify_message_signature message secret) (\<lambda>valid.
       if \<not> valid then Inl PermissionError
       else
         (case dict_get message (u ''payload'') of
            PDict payload \<Rightarrow>
              if \<not> is_str (dict_get payload (u ''task_id'')) \<or> \<not> truthy (dict_get payload (u ''task_id'')) then Inl ValueError
              else Inr payload
          | _ \<Rightarrow> Inl ValueError))"

text \<open>\<open>tasks.setdefault(task_id, TaskRecord(task_id))\<close>: the index of the record.\<close>

definition setdefault_record :: "('f, 'v) task_manager \<Rightarrow> pystr \<Rightarrow> nat \<times> ('f, 'v) task_manager" where
  "setdefault_record tm task_id =
     (case map_of (tm_tasks tm) task_id of
        Some r \<Rightarrow> (r, tm)
      | None \<Rightarrow> (length (tm_records tm), put_record tm task_id))"

definition set_record :: "('f, 'v) task_manager \<Rightarrow> nat \<Rightarrow> ('v exec_record \<Rightarrow> 'v exec_record) \<Rightarrow> ('f, 'v) task_manager" where
  "set_record tm r f = tm\<lparr>tm_records := (tm_records tm)[r := f (tm_records tm ! r)]\<rparr>"

text \<open>
  \<open>execute\<close> up to the call: the checks, and the record marked RUNNING. The test \<open>fn_name not in registry\<close> raises
  \<open>TypeError\<close> for an unhashable name.
\<close>

definition task_function :: "('f, 'v) task_manager \<Rightarrow> pydict \<Rightarrow> (pystr \<times> 'f) res" where
  "task_function tm task =
     (case dict_get task (u ''task_id'') of
        PStr task_id \<Rightarrow>
          if task_id = [] then Inl ValueError
          else and_then (dict_key (dict_get task (u ''fn_name''))) (\<lambda>k.
            case k of
              PStr name \<Rightarrow> (case map_of (tm_registry tm) name of Some fn \<Rightarrow> Inr (task_id, fn) | None \<Rightarrow> Inl ValueError)
            | _ \<Rightarrow> Inl ValueError)
      | _ \<Rightarrow> Inl ValueError)"

definition execute_begin :: "('f, 'v) task_manager \<Rightarrow> pystr \<Rightarrow> nat \<times> ('f, 'v) task_manager" where
  "execute_begin tm task_id =
     (case setdefault_record tm task_id of
        (r, tm') \<Rightarrow>
          (r, set_record tm' r (\<lambda>rec. rec\<lparr>er_state := RUNNING, er_executing_node := Some (tm_node_id tm'),
                er_attempts := er_attempts rec + 1\<rparr>)))"

text \<open>What a call or an await ends with; a name and a text make an exception.\<close>

datatype 'v outcome = Returned 'v | Raised pystr pystr

datatype 'v exec_reply = ResultReply pystr 'v pystr | ErrorReply pystr pystr pystr

definition execute_end :: "('f, 'v) task_manager \<Rightarrow> pystr \<Rightarrow> nat \<Rightarrow> 'v outcome \<Rightarrow> 'v exec_reply \<times> ('f, 'v) task_manager" where
  "execute_end tm task_id r res =
     (case res of
        Returned v \<Rightarrow>
          (ResultReply task_id v (tm_node_id tm),
           set_record tm r (\<lambda>rec. rec\<lparr>er_result := Some v, er_state := COMPLETED\<rparr>))
      | Raised name msg \<Rightarrow>
          (ErrorReply task_id (name @ u '': '' @ msg) (tm_node_id tm),
           set_record tm r (\<lambda>rec. rec\<lparr>er_state := FAILED, er_error := Some (name @ u '': '' @ msg)\<rparr>)))"

text \<open>The call \<open>fn(*args, **kwargs)\<close>: it ends, or returns an awaitable.\<close>

type_synonym ('f, 'v, 'a) call = "'f \<Rightarrow> pyval \<Rightarrow> pyval \<Rightarrow> 'v outcome + 'a"

definition call_task :: "('f, 'v, 'a) call \<Rightarrow> 'f \<Rightarrow> pydict \<Rightarrow> 'v outcome + 'a" where
  "call_task call fn task =
     call fn (case map_of task (u ''args'') of Some v \<Rightarrow> v | None \<Rightarrow> PList [])
             (case map_of task (u ''kwargs'') of Some v \<Rightarrow> v | None \<Rightarrow> PDict [])"

text \<open>\<open>execute\<close> with nothing else running while it awaits.\<close>

definition tm_execute ::
    "('f, 'v, 'a) call \<Rightarrow> ('a \<Rightarrow> 'v outcome) \<Rightarrow> ('f, 'v) task_manager \<Rightarrow> pydict \<Rightarrow> 'v exec_reply res \<times> ('f, 'v) task_manager" where
  "tm_execute call await tm task =
     (case task_function tm task of
        Inl e \<Rightarrow> (Inl e, tm)
      | Inr (task_id, fn) \<Rightarrow>
          (case execute_begin tm task_id of
             (r, tm') \<Rightarrow>
               (case execute_end tm' task_id r (case call_task call fn task of Inl res \<Rightarrow> res | Inr a \<Rightarrow> await a) of
                  (reply, tm'') \<Rightarrow> (Inr reply, tm''))))"

definition accept_result :: "('f, 'v) task_manager \<Rightarrow> pystr \<Rightarrow> 'v \<Rightarrow> bool \<times> ('f, 'v) task_manager" where
  "accept_result tm task_id result =
     (if task_id \<in> tm_accepted_results tm then (False, tm)
      else (True, tm\<lparr>tm_accepted_results := insert task_id (tm_accepted_results tm)\<rparr>))"

definition mark_for_retry :: "('f, 'v) task_manager \<Rightarrow> pystr \<Rightarrow> ('f, 'v) task_manager" where
  "mark_for_retry tm task_id =
     (case setdefault_record tm task_id of
        (r, tm') \<Rightarrow> set_record tm' r (\<lambda>rec. rec\<lparr>er_state := RETRY, er_executing_node := None\<rparr>))"

text \<open>
  \<open>serialize\<close> and \<open>deserialize\<close>, with \<open>pickle\<close> as parameters; \<open>loads\<close> gives a dictionary or \<open>None\<close> for another object.
\<close>

definition tm_serialize :: "(pydict \<Rightarrow> bytes res) \<Rightarrow> pydict \<Rightarrow> bytes res" where
  "tm_serialize dumps task = dumps task"

definition tm_deserialize :: "(bytes \<Rightarrow> pydict option res) \<Rightarrow> bytes \<Rightarrow> pydict res" where
  "tm_deserialize loads data =
     and_then (loads data) (\<lambda>task. case task of Some d \<Rightarrow> Inr d | None \<Rightarrow> Inl ValueError)"

section \<open>Interleaving\<close>

text \<open>
  The manager with the executions that await (id and record) and the records whose awaiting execution was
  cancelled. One step is a call of the manager up to its next \<open>await\<close>, or the end of one that awaits.
\<close>

type_synonym ('f, 'v) exec_system = "('f, 'v) task_manager \<times> (pystr \<times> nat) list \<times> nat set"

inductive tm_step :: "('f \<Rightarrow> bool) \<Rightarrow> ('f, 'v, 'a) call \<Rightarrow> ('f, 'v) exec_system \<Rightarrow> ('f, 'v) exec_system \<Rightarrow> bool"
  for callable call where
  registered: "register callable tm name fn = (res, tm') \<Longrightarrow> tm_step callable call (tm, p, c) (tm', p, c)"
| created: "tm_create tm uuid fn_name args kwargs task_id = (res, tm') \<Longrightarrow> tm_step callable call (tm, p, c) (tm', p, c)"
| ended: "task_function tm task = Inr (task_id, fn) \<Longrightarrow> execute_begin tm task_id = (r, tm') \<Longrightarrow>
    call_task call fn task = Inl res \<Longrightarrow> execute_end tm' task_id r res = (reply, tm'') \<Longrightarrow>
    tm_step callable call (tm, p, c) (tm'', p, c)"
| awaiting: "task_function tm task = Inr (task_id, fn) \<Longrightarrow> execute_begin tm task_id = (r, tm') \<Longrightarrow>
    call_task call fn task = Inr a \<Longrightarrow> tm_step callable call (tm, p, c) (tm', p @ [(task_id, r)], c)"
| resumed: "execute_end tm task_id r res = (reply, tm') \<Longrightarrow>
    tm_step callable call (tm, p @ (task_id, r) # q, c) (tm', p @ q, c)"
| cancelled: "tm_step callable call (tm, p @ (task_id, r) # q, c) (tm, p @ q, insert r c)"
| accepted: "accept_result tm task_id v = (b, tm') \<Longrightarrow> tm_step callable call (tm, p, c) (tm', p, c)"
| retried: "tm_step callable call (tm, p, c) (mark_for_retry tm task_id, p, c)"

inductive tm_reachable :: "('f \<Rightarrow> bool) \<Rightarrow> ('f, 'v, 'a) call \<Rightarrow> pystr \<Rightarrow> ('f, 'v) exec_system \<Rightarrow> bool"
  for callable call node_id where
  init: "tm_reachable callable call node_id (TaskManager node_id, [], {})"
| step: "tm_reachable callable call node_id s \<Longrightarrow> tm_step callable call s s' \<Longrightarrow> tm_reachable callable call node_id s'"

text \<open>The number of executions that await on a record, and what holds of a record.\<close>

definition awaiting_on :: "(pystr \<times> nat) list \<Rightarrow> nat \<Rightarrow> nat" where
  "awaiting_on p r = length (filter (\<lambda>x. snd x = r) p)"

definition record_ok :: "pystr \<Rightarrow> nat \<Rightarrow> bool \<Rightarrow> 'v exec_record \<Rightarrow> bool" where
  "record_ok node_id n cancelled rec \<longleftrightarrow>
     er_state rec \<in> {PENDING, RUNNING, COMPLETED, FAILED, RETRY} \<and> n \<le> er_attempts rec \<and>
     (er_state rec = PENDING \<longrightarrow> er_attempts rec = 0) \<and>
     (er_attempts rec = 0 \<longrightarrow> er_state rec \<in> {PENDING, RETRY} \<and> er_executing_node rec = None) \<and>
     (er_state rec = RUNNING \<longrightarrow> er_executing_node rec = Some node_id \<and> (0 < n \<or> cancelled)) \<and>
     (er_state rec = COMPLETED \<longrightarrow> er_result rec \<noteq> None) \<and>
     (er_state rec = FAILED \<longrightarrow> er_error rec \<noteq> None) \<and>
     (er_state rec = RETRY \<longrightarrow> er_executing_node rec = None) \<and>
     (er_result rec \<noteq> None \<or> er_error rec \<noteq> None \<longrightarrow> n < er_attempts rec)"

definition refers_to :: "('f, 'v) task_manager \<Rightarrow> pystr \<times> nat \<Rightarrow> bool" where
  "refers_to tm x \<longleftrightarrow> snd x < length (tm_records tm) \<and> er_task_id (tm_records tm ! snd x) = fst x"

definition system_ok :: "pystr \<Rightarrow> ('f, 'v) exec_system \<Rightarrow> bool" where
  "system_ok node_id s \<longleftrightarrow>
     (case s of (tm, p, c) \<Rightarrow>
        tm_node_id tm = node_id \<and> distinct (map fst (tm_tasks tm)) \<and>
        (\<forall>x \<in> set (tm_tasks tm) \<union> set p. refers_to tm x) \<and>
        (\<forall>r < length (tm_records tm). record_ok node_id (awaiting_on p r) (r \<in> c) (tm_records tm ! r)))"

lemma awaiting_on_simps [simp]:
  "awaiting_on [] r = 0"
  "awaiting_on ((k, r') # p) r = (if r' = r then Suc (awaiting_on p r) else awaiting_on p r)"
  "awaiting_on (p @ q) r = awaiting_on p r + awaiting_on q r"
  by (simp_all add: awaiting_on_def)

lemma set_record_simps [simp]:
  "tm_node_id (set_record tm r f) = tm_node_id tm" "tm_tasks (set_record tm r f) = tm_tasks tm"
  "length (tm_records (set_record tm r f)) = length (tm_records tm)"
  "tm_accepted_results (set_record tm r f) = tm_accepted_results tm" "tm_registry (set_record tm r f) = tm_registry tm"
  by (simp_all add: set_record_def)

lemma nth_set_record:
  "i < length (tm_records tm) \<Longrightarrow> tm_records (set_record tm r f) ! i = (if i = r then f (tm_records tm ! r) else tm_records tm ! i)"
  by (simp add: set_record_def nth_list_update)

lemma system_ok_set_record:
  assumes ok: "system_ok node_id (tm, p, c)" and r: "r < length (tm_records tm)"
    and id: "er_task_id (f (tm_records tm ! r)) = er_task_id (tm_records tm ! r)"
    and rec: "record_ok node_id (awaiting_on p' r) (r \<in> c) (f (tm_records tm ! r))"
    and other: "\<And>i. i \<noteq> r \<Longrightarrow> awaiting_on p' i = awaiting_on p i"
    and p': "set p' \<subseteq> insert (er_task_id (tm_records tm ! r), r) (set p)"
  shows "system_ok node_id (set_record tm r f, p', c)"
proof -
  have keep: "refers_to (set_record tm r f) x = refers_to tm x" for x
    using id r by (cases "snd x = r") (auto simp: refers_to_def nth_set_record)
  have "refers_to tm (er_task_id (tm_records tm ! r), r)"
    using r by (simp add: refers_to_def)
  with ok p' have "\<forall>x \<in> set (tm_tasks tm) \<union> set p'. refers_to tm x"
    by (auto simp: system_ok_def)
  moreover have "record_ok node_id (awaiting_on p' i) (i \<in> c) (tm_records (set_record tm r f) ! i)" if "i < length (tm_records tm)" for i
    using that ok rec other [of i] by (simp add: nth_set_record system_ok_def)
  ultimately show ?thesis
    using ok by (simp add: system_ok_def keep)
qed

lemma record_ok_begin:
  "record_ok node_id n c rec \<Longrightarrow>
   record_ok node_id (Suc n) c (rec\<lparr>er_state := RUNNING, er_executing_node := Some node_id, er_attempts := Suc (er_attempts rec)\<rparr>)"
  by (simp add: record_ok_def state_names)

lemma record_ok_end:
  "record_ok node_id (Suc n) c rec \<Longrightarrow> record_ok node_id n c (rec\<lparr>er_result := Some v, er_state := COMPLETED\<rparr>)"
  "record_ok node_id (Suc n) c rec \<Longrightarrow> record_ok node_id n c (rec\<lparr>er_state := FAILED, er_error := Some e\<rparr>)"
  by (simp_all add: record_ok_def state_names)

lemma record_ok_retry:
  "record_ok node_id n c rec \<Longrightarrow> record_ok node_id n c (rec\<lparr>er_state := RETRY, er_executing_node := None\<rparr>)"
  by (simp add: record_ok_def state_names)

lemma record_ok_cancel: "record_ok node_id n c rec \<Longrightarrow> m \<le> n \<Longrightarrow> c' \<or> m = n \<and> c' = c \<Longrightarrow> record_ok node_id m c' rec"
  unfolding record_ok_def by (metis le_trans le_less_trans)

lemma system_ok_same:
  assumes "tm_node_id tm' = tm_node_id tm" and "tm_tasks tm' = tm_tasks tm" and "tm_records tm' = tm_records tm"
  shows "system_ok node_id (tm', p, c) = system_ok node_id (tm, p, c)"
proof -
  have "refers_to tm' = refers_to tm"
    using assms by (simp add: refers_to_def fun_eq_iff)
  with assms show ?thesis
    by (simp add: system_ok_def)
qed

lemma put_record_simps [simp]:
  "tm_node_id (put_record tm task_id) = tm_node_id tm" "tm_registry (put_record tm task_id) = tm_registry tm"
  "tm_accepted_results (put_record tm task_id) = tm_accepted_results tm"
  "tm_tasks (put_record tm task_id) = AList.update task_id (length (tm_records tm)) (tm_tasks tm)"
  "tm_records (put_record tm task_id) = tm_records tm @ [new_record task_id]"
  by (simp_all add: put_record_def)

lemma awaiting_on_none: "(\<And>k. (k, r) \<notin> set p) \<Longrightarrow> awaiting_on p r = 0"
  by (auto simp: awaiting_on_def filter_empty_conv)

lemma system_ok_put_record:
  assumes "system_ok node_id (tm, p, c)"
  shows "system_ok node_id (put_record tm task_id, p, c)"
proof -
  let ?n = "length (tm_records tm)"
  have old: "\<forall>x \<in> set (tm_tasks tm) \<union> set p. refers_to tm x"
    using assms by (simp add: system_ok_def)
  have "(k, ?n) \<notin> set p" for k
    using old by (auto simp: refers_to_def dest!: bspec [of _ _ "(k, ?n)"])
  then have "record_ok node_id (awaiting_on p ?n) (?n \<in> c) (new_record task_id)"
    by (simp add: awaiting_on_none record_ok_def new_record_def state_names)
  moreover have keep: "refers_to (put_record tm task_id) x" if "refers_to tm x \<or> x = (task_id, ?n)" for x
    using that by (auto simp: refers_to_def nth_append new_record_def)
  have "\<forall>x \<in> set (tm_tasks (put_record tm task_id)) \<union> set p. refers_to (put_record tm task_id) x"
    using old set_update_subset [of task_id ?n "tm_tasks tm"] by (auto intro!: keep simp del: split_paired_All)
  ultimately show ?thesis
    using assms by (auto simp: system_ok_def distinct_update nth_append less_Suc_eq)
qed

lemma setdefault_record_ok:
  assumes "system_ok node_id (tm, p, c)" and "setdefault_record tm task_id = (r, tm')"
  shows "system_ok node_id (tm', p, c)" and "r < length (tm_records tm')" and "er_task_id (tm_records tm' ! r) = task_id"
    and "map_of (tm_tasks tm') task_id = Some r"
proof -
  have "system_ok node_id (tm', p, c) \<and> r < length (tm_records tm') \<and> er_task_id (tm_records tm' ! r) = task_id \<and>
      map_of (tm_tasks tm') task_id = Some r"
  proof (cases "map_of (tm_tasks tm) task_id")
    case None
    then have "tm' = put_record tm task_id" "r = length (tm_records tm)"
      using assms(2) by (auto simp: setdefault_record_def)
    then show ?thesis
      using system_ok_put_record [OF assms(1), of task_id] by (simp add: new_record_def update_conv')
  next
    case (Some r')
    then have "refers_to tm (task_id, r')"
      using assms(1) by (auto simp: system_ok_def dest: map_of_SomeD)
    then show ?thesis
      using assms Some by (auto simp: setdefault_record_def refers_to_def)
  qed
  then show "system_ok node_id (tm', p, c)" "r < length (tm_records tm')" "er_task_id (tm_records tm' ! r) = task_id"
    "map_of (tm_tasks tm') task_id = Some r" by blast+
qed

lemma record_ok_at: "system_ok node_id (tm, p, c) \<Longrightarrow> r < length (tm_records tm) \<Longrightarrow>
  record_ok node_id (awaiting_on p r) (r \<in> c) (tm_records tm ! r)"
  by (simp add: system_ok_def)

lemma execute_begin_ok:
  assumes "system_ok node_id (tm, p, c)" and "execute_begin tm task_id = (r, tm')"
  shows "system_ok node_id (tm', p @ [(task_id, r)], c)"
proof -
  obtain tm1 where set: "setdefault_record tm task_id = (r, tm1)"
    and tm': "tm' = set_record tm1 r (\<lambda>rec. rec\<lparr>er_state := RUNNING, er_executing_node := Some (tm_node_id tm1), er_attempts := er_attempts rec + 1\<rparr>)"
    using assms(2) by (auto simp: execute_begin_def split: prod.splits)
  note tm1 = setdefault_record_ok [OF assms(1) set]
  have "tm_node_id tm1 = node_id"
    using tm1(1) by (simp add: system_ok_def)
  with record_ok_begin [OF record_ok_at [OF tm1(1,2)]] show ?thesis
    unfolding tm' by (intro system_ok_set_record [OF tm1(1,2)]) (auto simp: tm1(3))
qed

lemma execute_end_ok:
  assumes "system_ok node_id (tm, p @ (task_id, r) # q, c)" and "execute_end tm task_id r res = (reply, tm')"
  shows "system_ok node_id (tm', p @ q, c)"
proof -
  have r: "r < length (tm_records tm)" "er_task_id (tm_records tm ! r) = task_id"
    using assms(1) by (auto simp: system_ok_def refers_to_def)
  have rec: "record_ok node_id (Suc (awaiting_on (p @ q) r)) (r \<in> c) (tm_records tm ! r)"
    using record_ok_at [OF assms(1) r(1)] by simp
  show ?thesis
  proof (cases res)
    case (Returned v)
    then have "tm' = set_record tm r (\<lambda>rec. rec\<lparr>er_result := Some v, er_state := COMPLETED\<rparr>)"
      using assms(2) by (simp add: execute_end_def)
    then show ?thesis
      using record_ok_end [OF rec] by (auto intro!: system_ok_set_record [OF assms(1) r(1)])
  next
    case (Raised name msg)
    then have "tm' = set_record tm r (\<lambda>rec. rec\<lparr>er_state := FAILED, er_error := Some (name @ u '': '' @ msg)\<rparr>)"
      using assms(2) by (simp add: execute_end_def)
    then show ?thesis
      using record_ok_end [OF rec] by (auto intro!: system_ok_set_record [OF assms(1) r(1)])
  qed
qed

lemma mark_for_retry_ok:
  assumes "system_ok node_id (tm, p, c)"
  shows "system_ok node_id (mark_for_retry tm task_id, p, c)"
proof -
  obtain r tm1 where set: "setdefault_record tm task_id = (r, tm1)" by fastforce
  note tm1 = setdefault_record_ok [OF assms set]
  then show ?thesis
    using record_ok_retry [OF record_ok_at [OF tm1(1,2)]]
    by (auto simp: mark_for_retry_def set intro!: system_ok_set_record [OF tm1(1,2)])
qed

lemma system_ok_cancel:
  assumes "system_ok node_id (tm, p @ (task_id, r) # q, c)"
  shows "system_ok node_id (tm, p @ q, insert r c)"
proof -
  have "record_ok node_id (awaiting_on (p @ q) i) (i \<in> insert r c) (tm_records tm ! i)" if "i < length (tm_records tm)" for i
    using record_ok_cancel [OF record_ok_at [OF assms that]] by auto
  with assms show ?thesis
    by (simp add: system_ok_def)
qed

lemma tm_step_ok: "tm_step callable call s s' \<Longrightarrow> system_ok node_id s \<Longrightarrow> system_ok node_id s'"
proof (induction rule: tm_step.induct)
  case (registered tm name fn res tm' p c)
  then show ?case
    using system_ok_same [of tm' tm node_id p c] by (auto simp: register_def split: if_splits)
next
  case (created tm uuid fn_name args kwargs task_id res tm' p c)
  then show ?case
    by (auto simp: tm_create_def Let_def intro: system_ok_put_record split: if_splits)
next
  case (ended tm task task_id fn r tm' res reply tm'' p c)
  then show ?case
    using execute_begin_ok execute_end_ok by (metis append_Nil2)
next
  case (awaiting tm task task_id fn r tm' a p c)
  then show ?case
    using execute_begin_ok by blast
next
  case (resumed tm task_id r res reply tm' p q c)
  then show ?case
    using execute_end_ok by blast
next
  case (accepted tm task_id v b tm' p c)
  then show ?case
    using system_ok_same [of tm' tm node_id p c] by (auto simp: accept_result_def split: if_splits)
qed (auto intro: mark_for_retry_ok system_ok_cancel)

lemma tm_reachable_ok: "tm_reachable callable call node_id s \<Longrightarrow> system_ok node_id s"
proof (induction rule: tm_reachable.induct)
  case init
  then show ?case by (simp add: system_ok_def TaskManager_def)
qed (rule tm_step_ok)

section \<open>Properties\<close>

text \<open>The record a manager holds for a task id.\<close>

definition task_of :: "('f, 'v) task_manager \<Rightarrow> pystr \<Rightarrow> 'v exec_record option" where
  "task_of tm task_id = map_option ((!) (tm_records tm)) (map_of (tm_tasks tm) task_id)"

lemma tasks_refer:
  assumes "system_ok node_id (tm, p, c)" and "map_of (tm_tasks tm) k = Some i"
  shows "i < length (tm_records tm)" and "er_task_id (tm_records tm ! i) = k"
proof -
  have "refers_to tm (k, i)"
    using assms(1) map_of_SomeD [OF assms(2)] by (auto simp: system_ok_def)
  then show "i < length (tm_records tm)" "er_task_id (tm_records tm ! i) = k"
    by (simp_all add: refers_to_def)
qed

lemma task_of_set_record:
  assumes "system_ok node_id (tm, p, c)" and "map_of (tm_tasks tm) task_id = Some r"
  shows "task_of (set_record tm r f) k = (if k = task_id then Some (f (tm_records tm ! r)) else task_of tm k)"
proof -
  note r = tasks_refer [OF assms]
  show ?thesis
  proof (cases "map_of (tm_tasks tm) k")
    case (Some i)
    with tasks_refer [OF assms(1) Some] assms(2) r show ?thesis
      by (auto simp: task_of_def nth_set_record)
  qed (use assms(2) in \<open>auto simp: task_of_def\<close>)
qed

lemma task_of_setdefault:
  assumes "system_ok node_id (tm, p, c)" and "setdefault_record tm task_id = (r, tm')"
  shows "task_of tm' k = (if k = task_id \<and> task_of tm k = None then Some (new_record task_id) else task_of tm k)"
proof (cases "map_of (tm_tasks tm) task_id")
  case None
  then have tm': "tm' = put_record tm task_id"
    using assms(2) by (simp add: setdefault_record_def)
  with tasks_refer(1) [OF assms(1), of k] None show ?thesis
    by (cases "map_of (tm_tasks tm) k") (auto simp: tm' task_of_def update_conv' nth_append)
next
  case (Some i)
  with assms(2) show ?thesis
    by (auto simp: setdefault_record_def task_of_def)
qed

lemma execute_begin_task_of:
  assumes "system_ok node_id (tm, p, c)" and "execute_begin tm task_id = (r, tm')"
  defines "old \<equiv> (case task_of tm task_id of Some rec \<Rightarrow> rec | None \<Rightarrow> new_record task_id)"
  shows "task_of tm' k = (if k = task_id
      then Some (old\<lparr>er_state := RUNNING, er_executing_node := Some node_id, er_attempts := er_attempts old + 1\<rparr>) else task_of tm k)"
    and "map_of (tm_tasks tm') task_id = Some r" and "tm_node_id tm' = node_id"
proof -
  obtain tm1 where set: "setdefault_record tm task_id = (r, tm1)"
    and tm': "tm' = set_record tm1 r (\<lambda>rec. rec\<lparr>er_state := RUNNING, er_executing_node := Some (tm_node_id tm1), er_attempts := er_attempts rec + 1\<rparr>)"
    using assms(2) by (auto simp: execute_begin_def split: prod.splits)
  note tm1 = setdefault_record_ok [OF assms(1) set]
  have node: "tm_node_id tm1 = node_id"
    using tm1(1) by (simp add: system_ok_def)
  have "task_of tm1 task_id = Some (tm_records tm1 ! r)"
    using tm1(4) by (simp add: task_of_def)
  then have "tm_records tm1 ! r = old"
    using task_of_setdefault [OF assms(1) set, of task_id] by (auto simp: old_def split: option.splits)
  then show "task_of tm' k = (if k = task_id
      then Some (old\<lparr>er_state := RUNNING, er_executing_node := Some node_id, er_attempts := er_attempts old + 1\<rparr>) else task_of tm k)"
    using task_of_set_record [OF tm1(1,4)] task_of_setdefault [OF assms(1) set] by (simp add: tm' node)
  show "map_of (tm_tasks tm') task_id = Some r" "tm_node_id tm' = node_id"
    using tm1(4) node by (simp_all add: tm')
qed

lemma execute_end_task_of:
  assumes "system_ok node_id (tm, p, c)" and "map_of (tm_tasks tm) task_id = Some r" and "task_of tm task_id = Some rec"
    and "execute_end tm task_id r res = (reply, tm')"
  shows "task_of tm' k = (if k = task_id
      then Some (case res of Returned v \<Rightarrow> rec\<lparr>er_result := Some v, er_state := COMPLETED\<rparr>
        | Raised name msg \<Rightarrow> rec\<lparr>er_state := FAILED, er_error := Some (name @ u '': '' @ msg)\<rparr>) else task_of tm k)"
  using assms(2,3,4) task_of_set_record [OF assms(1,2)]
  by (auto simp: execute_end_def task_of_def [of tm task_id] split: outcome.splits)

text \<open>
  C8. \<open>execute\<close> on a task with a known function, in any reachable manager: the call returns a reply, never an
  exception. The record of the task (a fresh one if the id is new) has one more attempt and this node as its
  executor; when the function, or what it returned to await, returns a value, the reply carries it and the
  record is COMPLETED with it, keeping the error of an earlier attempt; when it raises, the reply carries the
  class and the text of the exception and the record is FAILED with them, keeping an earlier result. The
  records of all other tasks, the registry and the accepted results stay as they are.
\<close>

theorem tm_execute_spec:
  assumes "tm_reachable callable call node_id (tm, p, c)"
    and "dict_get task (u ''task_id'') = PStr task_id" and "task_id \<noteq> []"
    and "dict_get task (u ''fn_name'') = PStr name" and "map_of (tm_registry tm) name = Some fn"
  defines "old \<equiv> (case task_of tm task_id of Some rec \<Rightarrow> rec | None \<Rightarrow> new_record task_id)"
  defines "started \<equiv> old\<lparr>er_executing_node := Some node_id, er_attempts := er_attempts old + 1\<rparr>"
  shows "\<exists>reply tm'. tm_execute call await tm task = (Inr reply, tm') \<and>
    (case (case call_task call fn task of Inl res \<Rightarrow> res | Inr a \<Rightarrow> await a) of
       Returned v \<Rightarrow> reply = ResultReply task_id v node_id \<and>
         task_of tm' task_id = Some (started\<lparr>er_state := COMPLETED, er_result := Some v\<rparr>)
     | Raised exc msg \<Rightarrow> reply = ErrorReply task_id (exc @ u '': '' @ msg) node_id \<and>
         task_of tm' task_id = Some (started\<lparr>er_state := FAILED, er_error := Some (exc @ u '': '' @ msg)\<rparr>)) \<and>
    (\<forall>k. k \<noteq> task_id \<longrightarrow> task_of tm' k = task_of tm k) \<and>
    tm_registry tm' = tm_registry tm \<and> tm_accepted_results tm' = tm_accepted_results tm"
proof -
  let ?res = "case call_task call fn task of Inl res \<Rightarrow> res | Inr a \<Rightarrow> await a"
  have ok: "system_ok node_id (tm, p, c)"
    using assms(1) by (rule tm_reachable_ok)
  have fn: "task_function tm task = Inr (task_id, fn)"
    using assms(2-5) by (simp add: task_function_def)
  obtain r tm1 where bgn: "execute_begin tm task_id = (r, tm1)" by fastforce
  obtain reply tm' where final: "execute_end tm1 task_id r ?res = (reply, tm')" by fastforce
  note b = execute_begin_task_of [OF ok bgn]
  let ?rec = "started\<lparr>er_state := RUNNING\<rparr>"
  have started: "task_of tm1 task_id = Some ?rec"
    using b(1) [of task_id] by (simp add: started_def old_def)
  note e = execute_end_task_of [OF execute_begin_ok [OF ok bgn] b(2) started final]
  have "tm_execute call await tm task = (Inr reply, tm')"
    using fn bgn final by (simp add: tm_execute_def)
  moreover have "tm_registry tm' = tm_registry tm \<and> tm_accepted_results tm' = tm_accepted_results tm"
    using bgn final
    by (auto simp: execute_begin_def execute_end_def setdefault_record_def split: outcome.splits option.splits prod.splits)
  moreover have "task_of tm' k = task_of tm k" if "k \<noteq> task_id" for k
    using that e [of k] b(1) [of k] by simp
  moreover have "reply = (case ?res of Returned v \<Rightarrow> ResultReply task_id v node_id | Raised exc msg \<Rightarrow> ErrorReply task_id (exc @ u '': '' @ msg) node_id)"
    using final b(3) by (auto simp: execute_end_def split: outcome.splits)
  ultimately show ?thesis
    using e [of task_id] by (auto split: outcome.splits)
qed

text \<open>A manager with one function, which returns its arguments.\<close>

definition ex_manager :: "(nat, pyval) task_manager" where
  "ex_manager = snd (register (\<lambda>_. True) (TaskManager (u ''n'')) (u ''id'') 0)"

definition ex_id_call :: "(nat, pyval, unit) call" where
  "ex_id_call fn args kwargs = Inl (Returned args)"

definition ex_exec_task :: pydict where
  "ex_exec_task = [(u ''task_id'', PStr (u ''t'')), (u ''fn_name'', PStr (u ''id'')), (u ''args'', PList [PInt 4])]"

lemma ex_manager_reachable: "tm_reachable (\<lambda>_. True) call (u ''n'') (ex_manager, [], {})"
  by (rule tm_reachable.step [OF tm_reachable.init tm_step.registered [where name = "u ''id''" and fn = 0]])
    (simp add: ex_manager_def register_def)

lemma ex_manager_simps:
  "tm_registry ex_manager = [(u ''id'', 0)]" "tm_tasks ex_manager = []" "tm_records ex_manager = []"
  "tm_accepted_results ex_manager = {}" "tm_node_id ex_manager = u ''n''"
  by (simp_all add: ex_manager_def register_def TaskManager_def)

theorem tm_execute_spec_witness:
  "\<exists>tm'. tm_execute ex_id_call (\<lambda>_. Raised [] []) ex_manager ex_exec_task = (Inr (ResultReply (u ''t'') (PList [PInt 4]) (u ''n'')), tm')"
  using tm_execute_spec [OF ex_manager_reachable [of ex_id_call], of ex_exec_task "u ''t''" "u ''id''" 0 "\<lambda>_. Raised [] []"]
  by (auto simp: ex_exec_task_def dict_get_def ex_manager_simps call_task_def ex_id_call_def)

text \<open>
  C7. The records of a reachable manager, whatever calls were interleaved, cancelled executions included. A
  task id maps to a record of that id, in one of the five states. A PENDING task was never attempted; a task
  never attempted is PENDING or RETRY, has no executor, no result and no error. A RUNNING task has this node
  as its executor and an execution of it still awaits, unless one was cancelled. A COMPLETED task has a
  result, a FAILED one an error, a RETRY one no executor. A result or an error means that an attempt has
  ended: there are more attempts than executions that still await.
\<close>

theorem tm_reachable_records:
  assumes "tm_reachable callable call node_id (tm, p, c)" and "map_of (tm_tasks tm) task_id = Some r"
  defines "rec \<equiv> tm_records tm ! r"
  shows "r < length (tm_records tm) \<and> er_task_id rec = task_id \<and>
    er_state rec \<in> {PENDING, RUNNING, COMPLETED, FAILED, RETRY} \<and>
    (er_state rec = PENDING \<longrightarrow> er_attempts rec = 0) \<and>
    (er_attempts rec = 0 \<longrightarrow> er_state rec \<in> {PENDING, RETRY} \<and> er_executing_node rec = None \<and> er_result rec = None \<and> er_error rec = None) \<and>
    (er_state rec = RUNNING \<longrightarrow> er_executing_node rec = Some node_id \<and> ((task_id, r) \<in> set p \<or> r \<in> c)) \<and>
    (er_state rec = COMPLETED \<longrightarrow> er_result rec \<noteq> None) \<and> (er_state rec = FAILED \<longrightarrow> er_error rec \<noteq> None) \<and>
    (er_state rec = RETRY \<longrightarrow> er_executing_node rec = None) \<and>
    (er_result rec \<noteq> None \<or> er_error rec \<noteq> None \<longrightarrow> length (filter (\<lambda>x. snd x = r) p) < er_attempts rec)"
proof -
  have ok: "system_ok node_id (tm, p, c)"
    using assms(1) by (rule tm_reachable_ok)
  note r = tasks_refer [OF ok assms(2)]
  have "(task_id, r) \<in> set p" if waits: "0 < awaiting_on p r"
  proof -
    obtain k where "(k, r) \<in> set p"
      using waits awaiting_on_none [of r p] by (metis less_irrefl)
    moreover from this have "refers_to tm (k, r)"
      using ok by (simp add: system_ok_def)
    ultimately show ?thesis
      using r(2) by (simp add: refers_to_def)
  qed
  moreover have "record_ok node_id (awaiting_on p r) (r \<in> c) rec"
    unfolding rec_def by (rule record_ok_at [OF ok r(1)])
  ultimately show ?thesis
    using r unfolding record_ok_def rec_def [symmetric] awaiting_on_def [symmetric] by (metis not_less_zero)
qed

lemma ex_created_reachable: "tm_reachable (\<lambda>_. True) call (u ''n'') (put_record ex_manager (u ''t''), [], {})"
  by (rule tm_reachable.step [OF ex_manager_reachable
        tm_step.created [where uuid = "u ''t''" and fn_name = "u ''id''" and task_id = None and args = "[]" and kwargs = PNone]])
    (simp add: tm_create_def ex_manager_simps Let_def)

theorem tm_reachable_records_witness:
  "er_task_id (tm_records (put_record ex_manager (u ''t'')) ! 0) = u ''t''"
  using tm_reachable_records [OF ex_created_reachable [of ex_id_call], of "u ''t''" 0] by (simp add: ex_manager_simps)

text \<open>
  C28. A result is accepted at most once for a task id: after \<open>accept_result\<close> answered \<open>True\<close>, every later call
  for that id answers \<open>False\<close> and changes nothing, whatever the manager did in between, a retry or a second
  \<open>create\<close> of the task included.
\<close>

theorem accept_result_once:
  assumes "accept_result tm task_id v = (True, tm1)" and "(tm_step callable call)\<^sup>*\<^sup>* (tm1, p, c) (tm2, p', c')"
  shows "accept_result tm2 task_id w = (False, tm2)"
proof -
  have step: "tm_accepted_results (fst s) \<subseteq> tm_accepted_results (fst s')" if "tm_step callable call s s'" for s s'
    using that
    by cases (auto simp: register_def tm_create_def Let_def execute_begin_def execute_end_def setdefault_record_def
        accept_result_def mark_for_retry_def split: if_splits option.splits outcome.splits prod.splits)
  have "tm_accepted_results (fst s) \<subseteq> tm_accepted_results (fst s')" if "(tm_step callable call)\<^sup>*\<^sup>* s s'" for s s'
    using that by (induction rule: rtranclp_induct) (auto dest: step)
  from this [OF assms(2)] show ?thesis
    using assms(1) by (auto simp: accept_result_def split: if_splits)
qed

theorem accept_result_once_witness:
  "fst (accept_result (mark_for_retry (snd (accept_result ex_manager (u ''t'') PNone)) (u ''t'')) (u ''t'') PNone) = False"
proof -
  let ?tm = "snd (accept_result ex_manager (u ''t'') PNone)"
  have "accept_result ex_manager (u ''t'') PNone = (True, ?tm)"
    by (simp add: accept_result_def ex_manager_simps)
  moreover have "(tm_step (\<lambda>_. True) ex_id_call)\<^sup>*\<^sup>* (?tm, [], {}) (mark_for_retry ?tm (u ''t''), [], {})"
    by (rule r_into_rtranclp) (rule tm_step.retried)
  ultimately show ?thesis
    using accept_result_once by (metis fst_conv)
qed

definition task_payload :: "pydict \<Rightarrow> pydict \<Rightarrow> bool" where
  "task_payload m payload \<longleftrightarrow> dict_get m (u ''payload'') = PDict payload \<and>
     (\<exists>t. t \<noteq> [] \<and> dict_get payload (u ''task_id'') = PStr t)"

lemma validate_signed_task_Inr:
  "validate_signed_task m k = Inr payload \<longleftrightarrow> verify_message_signature m k = Inr True \<and> task_payload m payload"
proof -
  have "is_str v \<and> truthy v \<longleftrightarrow> (\<exists>t. t \<noteq> [] \<and> v = PStr t)" for v
    by (cases v) (auto simp: is_str_def)
  then show ?thesis
    by (auto simp: validate_signed_task_def task_payload_def res_simps split: pyval.splits if_splits)
qed

lemma validate_signed_task_ValueError:
  assumes "verify_message_signature m k = Inr True"
  shows "validate_signed_task m k = Inl ValueError \<longleftrightarrow> (\<nexists>payload. task_payload m payload)"
proof -
  have "is_str v \<and> truthy v \<longleftrightarrow> (\<exists>t. t \<noteq> [] \<and> v = PStr t)" for v
    by (cases v) (auto simp: is_str_def)
  then show ?thesis
    using assms by (auto simp: validate_signed_task_def task_payload_def split: pyval.splits if_splits)
qed

text \<open>
  C27. \<open>validate_signed_task\<close> against a sender that signs with the same secret. The signed message is accepted
  exactly when its payload is a dictionary with a non-empty string \<open>task_id\<close> (otherwise \<open>ValueError\<close>), and its
  payload is returned. A message that carries the signature of \<open>m\<close> is accepted exactly when its payload has
  that form and its content is that of \<open>m\<close>, or two different canonical texts collide under HMAC-SHA256;
  the payload returned is then its own.
\<close>

theorem validate_signed_task_spec:
  assumes "message_ok m" and "message_ok m'" and "sign_message m k = Inr s"
    and "dict_get m' (u ''signature'') = dict_get s (u ''signature'')"
  shows "(validate_signed_task s k = Inr payload \<longleftrightarrow> task_payload m payload) \<and>
    (validate_signed_task s k = Inl ValueError \<longleftrightarrow> (\<nexists>payload. task_payload m payload)) \<and>
    (validate_signed_task m' k = Inr payload' \<longleftrightarrow> task_payload m' payload' \<and>
       (unsigned_view m' = unsigned_view m \<or>
        (\<exists>c c'. c \<noteq> c' \<and> canonical_bytes m = Inr c \<and> canonical_bytes m' = Inr c' \<and> hmac_sha256 k c = hmac_sha256 k c')))"
proof -
  have "verify_message_signature s k = Inr True"
    by (rule ms.verify_signed [OF TrueI assms(3)])
  moreover have "dict_get s (u ''payload'') = dict_get m (u ''payload'')"
    using assms(3) by (auto simp: sign_message_def res_simps dict_get_def update_conv')
  moreover have "verify_message_signature m' k = Inr True \<longleftrightarrow> unsigned_view m' = unsigned_view m \<or>
      (\<exists>c c'. c \<noteq> c' \<and> canonical_bytes m = Inr c \<and> canonical_bytes m' = Inr c' \<and> hmac_sha256 k c = hmac_sha256 k c')"
    by (rule ms.accepted_iff [OF TrueI assms(1-3)]) (simp add: message_tag_def assms(4))
  ultimately show ?thesis
    using validate_signed_task_ValueError [of s k] by (auto simp: validate_signed_task_Inr task_payload_def)
qed

definition ex_task_message :: pydict where
  "ex_task_message = [(u ''type'', PStr MSG_TASK_REQUEST), (u ''payload'', PDict [(u ''task_id'', PStr (u ''t''))])]"

theorem validate_signed_task_spec_witness:
  "\<exists>s. sign_message ex_task_message [1, 2] = Inr s \<and> validate_signed_task s [1, 2] = Inr [(u ''task_id'', PStr (u ''t''))]"
proof -
  obtain s where s: "sign_message ex_task_message [1, 2] = Inr s"
    by (auto simp: sign_message_def canonical_bytes_ascii)
  have ok: "message_ok ex_task_message"
    by (simp add: message_ok_def ex_task_message_def message_types)
  have "message_ok s"
    using s ok by (auto simp: message_ok_def sign_message_def res_simps delete_update_same)
  then have "validate_signed_task s [1, 2] = Inr payload \<longleftrightarrow> task_payload ex_task_message payload" for payload
    using validate_signed_task_spec [OF ok _ s refl] by blast
  then show ?thesis
    using s by (auto simp: task_payload_def ex_task_message_def dict_get_def)
qed

end
