(* ===== verification/Failover.thy ===== *)
theory Failover
  imports Dht Execution Monitoring Task_Signing
begin

text \<open>
  \<open>examples/full_stack_demo.py\<close>: the flow the components are made for. The least loaded node is selected, a
  signed task is created for it, the node falls silent, the monitor reports it, and the task is retried on
  the least loaded node that is left. Clock readings are arguments, as are the nodes, the registered
  function and its call; the program's own values of these are given at the end.
\<close>

text \<open>\<open>table.peers[node_id].state = state\<close> and \<open>monitor.peers[node_id]["last_seen"] = t\<close>.\<close>

definition set_peer_state :: "peer_table \<Rightarrow> pystr \<Rightarrow> pystr \<Rightarrow> peer_table res" where
  "set_peer_state t node_id st =
     (case map_of t node_id of
        None \<Rightarrow> Inl KeyError
      | Some p \<Rightarrow> Inr (AList.update node_id (p\<lparr>pi_state := st\<rparr>) t))"

definition set_last_seen :: "'a heartbeat_monitor \<Rightarrow> pystr \<Rightarrow> pyfloat \<Rightarrow> 'a heartbeat_monitor res" where
  "set_last_seen m node_id t =
     (case map_of (hm_peers m) node_id of
        None \<Rightarrow> Inl KeyError
      | Some item \<Rightarrow> Inr (m\<lparr>hm_peers := AList.update node_id (item\<lparr>it_last_seen := Some t\<rparr>) (hm_peers m)\<rparr>))"

text \<open>What the demo prints, and the manager it ends with.\<close>

record ('f, 'v) failover_trace =
  fo_selected :: peer_load
  fo_signature_valid :: bool
  fo_changed :: "(pystr \<times> pystr) list"
  fo_replacement :: peer_load
  fo_reply :: "'v exec_reply"
  fo_manager :: "('f, 'v) task_manager"

text \<open>The first half: selection, task and signature.\<close>

definition submit_task ::
    "pystr \<Rightarrow> bytes \<Rightarrow> 'f \<Rightarrow> pyval list \<Rightarrow> peer_load \<Rightarrow> (pydict \<times> bool \<times> ('f, 'v) task_manager) res" where
  "submit_task source secret fn args selected =
     (case register (\<lambda>_. True) (TaskManager (pl_node_id selected)) (u ''multiply'') fn of
        (r1, manager1) \<Rightarrow> and_then r1 (\<lambda>_.
          (case tm_create manager1 [] (u ''multiply'') args PNone (Some (u ''task-001'')) of
             (r2, manager2) \<Rightarrow> and_then r2 (\<lambda>task.
               and_then (NodeIdentity source secret) (\<lambda>identity.
               and_then (dict_item task (u ''task_id'')) (\<lambda>tid.
               and_then (ni_sign identity [(u ''type'', PStr (u ''TASK_SUBMIT'')), (u ''sender_id'', PStr source),
                   (u ''payload'', PDict [(u ''task_id'', tid)])]) (\<lambda>signed_request.
               and_then (ni_verify identity signed_request) (\<lambda>valid. Inr (task, valid, manager2)))))))))"

text \<open>The worker disappears: what the monitor reports.\<close>

definition lose_worker ::
    "pyfloat \<Rightarrow> pyfloat \<times> pyfloat \<times> pyfloat \<Rightarrow> peer_table \<Rightarrow> peer_load \<Rightarrow> (peer_table \<times> (pystr \<times> pystr) list) res" where
  "lose_worker timeout clock table selected =
     (case clock of (t_update, t_stop, t_check) \<Rightarrow>
        (case hm_update (HeartbeatMonitor timeout (FFin 1)) t_update (pl_node_id selected) (pl_cpu_load selected) (PFloat (FFin 0))
                (Some (pl_host selected, pl_port selected)) of
           (r, monitor) \<Rightarrow>
             and_then r (\<lambda>_.
             and_then (set_peer_state table (pl_node_id selected) (u ''OFFLINE'')) (\<lambda>table.
             and_then (set_last_seen monitor (pl_node_id selected) (fsub t_stop (FFin 1))) (\<lambda>monitor.
             and_then (fst (check_once monitor t_check None ())) (\<lambda>changed. Inr (table, changed)))))))"

text \<open>The task is retried on the node that is selected now.\<close>

definition retry_elsewhere ::
    "('f, 'v, 'a) call \<Rightarrow> ('a \<Rightarrow> 'v outcome) \<Rightarrow> pystr \<Rightarrow> peer_table \<Rightarrow> pydict \<Rightarrow> ('f, 'v) task_manager
      \<Rightarrow> (peer_load \<times> 'v exec_reply \<times> ('f, 'v) task_manager) res" where
  "retry_elsewhere call await source table task manager =
     and_then (dict_item task (u ''task_id'')) (\<lambda>tid.
       (let manager1 = (case tid of PStr s \<Rightarrow> mark_for_retry manager s | _ \<Rightarrow> manager) in
        and_then (lowest_load table (Some source)) (\<lambda>found.
          (case found of
             None \<Rightarrow> Inl RuntimeError
           | Some replacement \<Rightarrow>
               (case tm_execute call await (manager1\<lparr>tm_node_id := pl_node_id replacement\<rparr>) task of
                  (r, manager2) \<Rightarrow> and_then r (\<lambda>reply. Inr (replacement, reply, manager2)))))))"

definition full_stack_main ::
    "('f, 'v, 'a) call \<Rightarrow> ('a \<Rightarrow> 'v outcome) \<Rightarrow> pystr \<Rightarrow> bytes \<Rightarrow> 'f \<Rightarrow> pyval list \<Rightarrow> pyfloat \<Rightarrow> pyfloat \<times> pyfloat \<times> pyfloat
      \<Rightarrow> peer_info list \<Rightarrow> ('f, 'v) failover_trace res" where
  "full_stack_main call await source secret fn args timeout clock nodes =
     (let table = foldl upsert PeerTable nodes in
      and_then (lowest_load table (Some source)) (\<lambda>found.
        (case found of
           None \<Rightarrow> Inl AttributeError
         | Some selected \<Rightarrow>
             and_then (submit_task source secret fn args selected) (\<lambda>(task, valid, manager).
             and_then (lose_worker timeout clock table selected) (\<lambda>(table, changed).
             and_then (retry_elsewhere call await source table task manager) (\<lambda>(replacement, reply, manager).
               Inr \<lparr>fo_selected = selected, fo_signature_valid = valid, fo_changed = changed, fo_replacement = replacement,
                 fo_reply = reply, fo_manager = manager\<rparr>))))))"

text \<open>The values of the demo: five nodes, and a product.\<close>

definition demo_node :: "string \<Rightarrow> int \<Rightarrow> int \<Rightarrow> pyfloat \<Rightarrow> peer_info" where
  "demo_node name port cpu_load now =
     \<lparr>pi_node_id = u name, pi_host = u ''127.0.0.1'', pi_port = port, pi_cpu_load = PInt cpu_load, pi_ram_percent = PFloat (FFin 0),
      pi_state = u ''ALIVE'', pi_last_seen = now\<rparr>"

definition demo_nodes :: "(nat \<Rightarrow> pyfloat) \<Rightarrow> peer_info list" where
  "demo_nodes t = [demo_node ''node-1'' 9001 31 (t 0), demo_node ''node-2'' 9002 18 (t 1), demo_node ''node-3'' 9003 9 (t 2),
     demo_node ''node-4'' 9004 24 (t 3), demo_node ''node-5'' 9005 14 (t 4)]"

definition multiply_call :: "(unit, pyval, unit) call" where
  "multiply_call fn args kwargs =
     (case args of PList [PInt a, PInt b] \<Rightarrow> Inl (Returned (PInt (a * b))) | _ \<Rightarrow> Inl (Raised (u ''TypeError'') []))"

definition demo_main :: "(nat \<Rightarrow> pyfloat) \<Rightarrow> pyfloat \<times> pyfloat \<times> pyfloat \<Rightarrow> (unit, pyval) failover_trace res" where
  "demo_main t clock =
     full_stack_main multiply_call (\<lambda>_. Raised [] []) (u ''node-1'') (map of_nat (u ''meshweaver-demo-secret'')) () [PInt 6, PInt 7]
       (round64 (1 / 5)) clock (demo_nodes t)"

section \<open>The steps\<close>

lemma pt_reachable_upserts: "pt_reachable t \<Longrightarrow> pt_reachable (foldl upsert t nodes)"
  by (induction nodes arbitrary: t) (simp_all add: pt_upsert)

lemma submit_task_ok:
  assumes "source \<noteq> []" and "secret \<noteq> []"
  shows "submit_task source secret fn args selected =
    Inr ([(u ''task_id'', PStr (u ''task-001'')), (u ''fn_name'', PStr (u ''multiply'')), (u ''args'', PList args), (u ''kwargs'', PDict [])],
      True, \<lparr>tm_node_id = pl_node_id selected, tm_tasks = [(u ''task-001'', 0)], tm_records = [new_record (u ''task-001'')],
        tm_accepted_results = {}, tm_registry = [(u ''multiply'', fn)]\<rparr>)"
proof -
  obtain ni where ni: "NodeIdentity source secret = Inr ni"
    using assms by (simp add: NodeIdentity_def)
  have "\<exists>s. ni_sign ni m = Inr s \<and> ni_verify ni s = Inr True" for m
    using node_identity_roundtrip [of source secret m] by (simp add: ni)
  then obtain s where "ni_sign ni [(u ''type'', PStr (u ''TASK_SUBMIT'')), (u ''sender_id'', PStr source),
      (u ''payload'', PDict [(u ''task_id'', PStr (u ''task-001''))])] = Inr s" "ni_verify ni s = Inr True" by blast
  then show ?thesis
    by (simp add: submit_task_def register_def tm_create_def put_record_def TaskManager_def ni dict_item_def Let_def)
qed

lemma lose_worker_ok:
  assumes p: "map_of table (pl_node_id selected) = Some p" and load: "py_float (pl_cpu_load selected) = Inr x"
    and silent: "age_state timeout (fsub t_check (fsub t_stop (FFin 1))) = OFFLINE"
  shows "lose_worker timeout (t_update, t_stop, t_check) table selected =
    Inr (AList.update (pl_node_id selected) (p\<lparr>pi_state := u ''OFFLINE''\<rparr>) table, [(pl_node_id selected, OFFLINE)])"
proof -
  have "py_float (PFloat (FFin 0)) = Inr (FFin 0)"
    by (simp add: py_float_def)
  then show ?thesis
    using silent by (simp add: lose_worker_def hm_update_def HeartbeatMonitor_def load set_peer_state_def p set_last_seen_def check_once_def
        item_age_def peer_states Let_def del: fsub.simps)
qed

lemma retry_elsewhere_ok:
  fixes node :: pystr
  assumes found: "lowest_load table (Some source) = Inr (Some replacement)"
    and res: "(case call fn (PList args) (PDict []) of Inl r \<Rightarrow> r | Inr a \<Rightarrow> await a) = Returned v"
  defines "task \<equiv> [(u ''task_id'', PStr (u ''task-001'')), (u ''fn_name'', PStr (u ''multiply'')), (u ''args'', PList args), (u ''kwargs'', PDict [])]"
    and "manager \<equiv> \<lparr>tm_node_id = node, tm_tasks = [(u ''task-001'', 0)], tm_records = [new_record (u ''task-001'')],
        tm_accepted_results = {}, tm_registry = [(u ''multiply'', fn)]\<rparr>"
  shows "retry_elsewhere call await source table task manager = Inr (replacement, ResultReply (u ''task-001'') v (pl_node_id replacement),
    \<lparr>tm_node_id = pl_node_id replacement, tm_tasks = [(u ''task-001'', 0)],
      tm_records = [\<lparr>er_task_id = u ''task-001'', er_state = COMPLETED, er_executing_node = Some (pl_node_id replacement),
        er_result = Some v, er_error = None, er_attempts = 1\<rparr>],
      tm_accepted_results = {}, tm_registry = [(u ''multiply'', fn)]\<rparr>)"
proof -
  have "u ''task-001'' \<noteq> []"
    by (simp add: u_def)
  then show ?thesis
    using res by (simp add: retry_elsewhere_def task_def manager_def found dict_item_def mark_for_retry_def setdefault_record_def set_record_def
        tm_execute_def task_function_def dict_get_def execute_begin_def execute_end_def call_task_def new_record_def Let_def)
qed

text \<open>The table after the worker is marked: it is upserted, so the table stays reachable, and it alone is no longer available.\<close>

lemma available_without:
  assumes "pt_reachable t" and "p \<in> set (pt_available t src)"
  defines "t' \<equiv> AList.update (pi_node_id p) (p\<lparr>pi_state := u ''OFFLINE''\<rparr>) t"
  shows "pt_reachable t' \<and> set (pt_available t' src) = set (pt_available t src) - {p} \<and> map_of t (pi_node_id p) = Some p"
proof -
  have keys: "distinct (map fst t)" "\<And>n q. (n, q) \<in> set t \<Longrightarrow> n = pi_node_id q"
    using pt_reachable_keys [OF assms(1)] by auto
  have "p \<in> snd ` set t"
    using assms(2) by (auto simp: pt_available_def)
  then have p: "(pi_node_id p, p) \<in> set t"
    using keys(2) by fastforce
  then have at: "map_of t (pi_node_id p) = Some p"
    using keys(1) by simp
  have t': "t' = upsert t (p\<lparr>pi_state := u ''OFFLINE''\<rparr>)"
    by (simp add: t'_def upsert_def)
  have dist': "distinct (map fst t')"
    by (simp add: t'_def distinct_update keys(1))
  have mem: "(n, q) \<in> set t' \<longleftrightarrow> (if n = pi_node_id p then q = p\<lparr>pi_state := u ''OFFLINE''\<rparr> else (n, q) \<in> set t)" for n q
  proof -
    have "(n, q) \<in> set t' \<longleftrightarrow> map_of t' n = Some q" "(n, q) \<in> set t \<longleftrightarrow> map_of t n = Some q"
      using dist' keys(1) by simp_all
    moreover have "map_of t' = (map_of t)(pi_node_id p \<mapsto> p\<lparr>pi_state := u ''OFFLINE''\<rparr>)"
      by (simp add: t'_def update_conv')
    ultimately show ?thesis by auto
  qed
  have snds: "q \<in> snd ` S \<longleftrightarrow> (\<exists>n. (n, q) \<in> S)" for q and S :: "(pystr \<times> peer_info) set"
    by force
  have "q \<in> snd ` set t' \<longleftrightarrow> q = p\<lparr>pi_state := u ''OFFLINE''\<rparr> \<or> (\<exists>n. n \<noteq> pi_node_id p \<and> (n, q) \<in> set t)" for q
    unfolding snds mem by (metis (no_types, lifting))
  moreover have "(\<exists>n. n \<noteq> pi_node_id p \<and> (n, q) \<in> set t) \<longleftrightarrow> q \<in> snd ` set t \<and> q \<noteq> p" for q
    unfolding snds using keys(2) p eq_key_imp_eq_value [OF keys(1) p] by metis
  moreover have "u ''OFFLINE'' \<noteq> u ''ALIVE''" and "pi_state p = u ''ALIVE''"
    using assms(2) by (simp_all add: pt_available_def)
  then have "p\<lparr>pi_state := u ''OFFLINE''\<rparr> \<noteq> p"
    by (auto dest: arg_cong [where f = pi_state])
  ultimately have "set (pt_available t' src) = set (pt_available t src) - {p}"
    unfolding pt_available_def by auto
  then show ?thesis
    using assms(1) at by (simp add: t' pt_upsert)
qed

section \<open>Properties\<close>

text \<open>
  C9. The failover flow, for any nodes of which at least two live ones other than the source are known: the
  least loaded one is selected; the signature of its task request verifies; when it falls silent the
  monitor reports exactly it as OFFLINE; the task is retried on the least loaded of the others and returns
  the value of the function, and its record says COMPLETED there, after one attempt. The source itself is
  never chosen.
\<close>

theorem failover_flow:
  assumes t: "t = foldl upsert PeerTable nodes"
    and loads: "\<forall>p \<in> set (pt_available t (Some source)). py_float (pi_cpu_load p) = Inr (load p) \<and> \<not> is_nan (load p)"
    and two: "2 \<le> card (set (pt_available t (Some source)))"
    and names: "source \<noteq> []" "secret \<noteq> []"
    and res: "(case call fn (PList args) (PDict []) of Inl r \<Rightarrow> r | Inr a \<Rightarrow> await a) = Returned v"
    and silent: "age_state timeout (fsub t_check (fsub t_stop (FFin 1))) = OFFLINE"
  shows "\<exists>selected replacement. {selected, replacement} \<subseteq> set (pt_available t (Some source)) \<and> selected \<noteq> replacement \<and>
    (\<forall>q \<in> set (pt_available t (Some source)) - {selected}. load_key_lt (load selected, pi_node_id selected) (load q, pi_node_id q)) \<and>
    (\<forall>q \<in> set (pt_available t (Some source)) - {selected, replacement}.
       load_key_lt (load replacement, pi_node_id replacement) (load q, pi_node_id q)) \<and>
    full_stack_main call await source secret fn args timeout (t_update, t_stop, t_check) nodes =
      Inr \<lparr>fo_selected = info_load selected, fo_signature_valid = True, fo_changed = [(pi_node_id selected, OFFLINE)],
        fo_replacement = info_load replacement, fo_reply = ResultReply (u ''task-001'') v (pi_node_id replacement),
        fo_manager = \<lparr>tm_node_id = pi_node_id replacement, tm_tasks = [(u ''task-001'', 0)],
          tm_records = [\<lparr>er_task_id = u ''task-001'', er_state = COMPLETED, er_executing_node = Some (pi_node_id replacement),
            er_result = Some v, er_error = None, er_attempts = 1\<rparr>],
          tm_accepted_results = {}, tm_registry = [(u ''multiply'', fn)]\<rparr>\<rparr>"
proof -
  let ?av = "set (pt_available t (Some source))"
  have reach: "pt_reachable t"
    unfolding t by (rule pt_reachable_upserts [OF pt_new])
  have "?av \<noteq> {}"
    using two by auto
  then obtain p where p: "lowest_load t (Some source) = Inr (Some (info_load p))" "p \<in> ?av"
    "\<forall>q \<in> ?av. q \<noteq> p \<longrightarrow> load_key_lt (load p, pi_node_id p) (load q, pi_node_id q)"
    using lowest_load_least [OF reach loads] by (auto simp del: load_key_lt.simps split: sum.splits option.splits)
  define t' where "t' = AList.update (pi_node_id p) (p\<lparr>pi_state := u ''OFFLINE''\<rparr>) t"
  have reach': "pt_reachable t'" and av': "set (pt_available t' (Some source)) = ?av - {p}" and at: "map_of t (pi_node_id p) = Some p"
    using available_without [OF reach p(2)] by (simp_all add: t'_def)
  have "card (?av - {p}) \<noteq> 0"
    using two p(2) by (simp add: card_Diff_singleton)
  then have "?av - {p} \<noteq> {}" by force
  then obtain r where r: "lowest_load t' (Some source) = Inr (Some (info_load r))" "r \<in> ?av - {p}"
    "\<forall>q \<in> ?av - {p}. q \<noteq> r \<longrightarrow> load_key_lt (load r, pi_node_id r) (load q, pi_node_id q)"
    using lowest_load_least [OF reach', of "Some source" load] loads av'
    by (auto simp del: load_key_lt.simps split: sum.splits option.splits)
  have ids: "pl_node_id (info_load q) = pi_node_id q" "pl_cpu_load (info_load q) = pi_cpu_load q" for q
    by (simp_all add: info_load_def)
  have load: "py_float (pl_cpu_load (info_load p)) = Inr (load p)"
    using loads p(2) by (simp add: ids)
  note lose = lose_worker_ok [where selected = "info_load p" and table = t, unfolded ids, OF at load [unfolded ids] silent, folded t'_def]
  note retry = retry_elsewhere_ok [where call = call and fn = fn and args = args and await = await, OF r(1) res]
  have "full_stack_main call await source secret fn args timeout (t_update, t_stop, t_check) nodes =
      Inr \<lparr>fo_selected = info_load p, fo_signature_valid = True, fo_changed = [(pi_node_id p, OFFLINE)],
        fo_replacement = info_load r, fo_reply = ResultReply (u ''task-001'') v (pi_node_id r),
        fo_manager = \<lparr>tm_node_id = pi_node_id r, tm_tasks = [(u ''task-001'', 0)],
          tm_records = [\<lparr>er_task_id = u ''task-001'', er_state = COMPLETED, er_executing_node = Some (pi_node_id r),
            er_result = Some v, er_error = None, er_attempts = 1\<rparr>],
          tm_accepted_results = {}, tm_registry = [(u ''multiply'', fn)]\<rparr>\<rparr>"
    by (simp add: full_stack_main_def p(1) submit_task_ok [OF names] lose retry ids flip: t)
  moreover have "{p, r} \<subseteq> ?av" "p \<noteq> r"
    using p(2) r(2) by auto
  moreover have "\<forall>q \<in> ?av - {p}. load_key_lt (load p, pi_node_id p) (load q, pi_node_id q)"
    using p(3) by blast
  moreover have "\<forall>q \<in> ?av - {p, r}. load_key_lt (load r, pi_node_id r) (load q, pi_node_id q)"
    using r(3) by blast
  ultimately show ?thesis by blast
qed

text \<open>The demo's timeout of 0.2 seconds: twice the nearest double is less than one second.\<close>

lemma demo_timeout: "age_state (round64 (1 / 5)) (FFin 1) = OFFLINE"
proof -
  have quarter: "pow2 (- 2) = 1 / 4" and half: "pow2 (- 1) = 1 / 2"
    by (simp_all add: pow2_def)
  have "rnd (1 / 5) \<le> 1 / 4" and "0 \<le> rnd (1 / 5)"
    using rnd_mono [of "1 / 5" "1 / 4"] rnd_pow2 [of "- 2"] by (simp_all add: quarter rnd_nonneg)
  moreover from this have "rnd (2 * rnd (1 / 5)) \<le> 1 / 2" and "0 \<le> rnd (2 * rnd (1 / 5))"
    using rnd_mono [of "2 * rnd (1 / 5)" "1 / 2"] rnd_pow2 [of "- 1"] by (simp_all add: half rnd_nonneg)
  moreover have "round64 q = FFin (rnd q)" if "0 \<le> rnd q" "rnd q \<le> 1 / 2" "0 \<le> q" for q
    using that by (simp add: round64_rnd)
  ultimately show ?thesis
    by (simp add: age_state_def fval_def)
qed

lemma demo_available:
  "pt_available (foldl upsert PeerTable (demo_nodes t)) (Some (u ''node-1'')) =
    [demo_node ''node-2'' 9002 18 (t 1), demo_node ''node-3'' 9003 9 (t 2), demo_node ''node-4'' 9004 24 (t 3), demo_node ''node-5'' 9005 14 (t 4)]"
  by (simp add: demo_nodes_def PeerTable_def upsert_def demo_node_def pt_available_def)

definition demo_load :: "peer_info \<Rightarrow> pyfloat" where
  "demo_load p = (case pi_cpu_load p of PInt i \<Rightarrow> FFin (of_int i) | _ \<Rightarrow> FFin 0)"

lemma demo_load_simps: "demo_load (demo_node n port cpu now) = FFin (of_int cpu)" "pi_node_id (demo_node n port cpu now) = u n"
  by (simp_all add: demo_load_def demo_node_def)

theorem failover_flow_witness:
  "\<exists>trace. demo_main (\<lambda>_. FFin 100) (FFin 100, FFin 100, FFin 100) = Inr trace \<and>
    pl_node_id (fo_selected trace) = u ''node-3'' \<and> fo_changed trace = [(u ''node-3'', OFFLINE)] \<and>
    pl_node_id (fo_replacement trace) = u ''node-5'' \<and> fo_reply trace = ResultReply (u ''task-001'') (PInt 42) (u ''node-5'')"
proof -
  let ?t = "\<lambda>_ :: nat. FFin 100" and ?n = "\<lambda>i c. demo_node i 9002 c (FFin 100)"
  let ?av = "pt_available (foldl upsert PeerTable (demo_nodes ?t)) (Some (u ''node-1''))"
  have loads: "\<forall>p \<in> set ?av. py_float (pi_cpu_load p) = Inr (demo_load p) \<and> \<not> is_nan (demo_load p)"
    using round64_of_int [of 18] round64_of_int [of 9] round64_of_int [of 24] round64_of_int [of 14]
    by (simp add: demo_available demo_load_def demo_node_def py_float_def float_of_int_def is_nan_def)
  have "distinct ?av"
    by (simp add: demo_available demo_node_def)
  then have two: "2 \<le> card (set ?av)"
    by (simp add: distinct_card demo_available)
  have res: "(case multiply_call () (PList [PInt 6, PInt 7]) (PDict []) of Inl r \<Rightarrow> r | Inr a \<Rightarrow> Raised [] []) = Returned (PInt 42)"
    by (simp add: multiply_call_def)
  have silent: "age_state (round64 (1 / 5)) (fsub (FFin 100) (fsub (FFin 100) (FFin 1))) = OFFLINE"
    using fsub_of_int [of 100 1] fsub_of_int [of 100 99] demo_timeout by simp
  have flow: "u ''node-1'' \<noteq> []" "map of_nat (u ''meshweaver-demo-secret'') \<noteq> ([] :: bytes)"
    by (simp_all add: u_def)
  obtain sel rep where av: "{sel, rep} \<subseteq> set ?av" "sel \<noteq> rep"
    and sel: "\<forall>q \<in> set ?av - {sel}. load_key_lt (demo_load sel, pi_node_id sel) (demo_load q, pi_node_id q)"
    and rep: "\<forall>q \<in> set ?av - {sel, rep}. load_key_lt (demo_load rep, pi_node_id rep) (demo_load q, pi_node_id q)"
    and main: "demo_main ?t (FFin 100, FFin 100, FFin 100) = Inr \<lparr>fo_selected = info_load sel, fo_signature_valid = True,
      fo_changed = [(pi_node_id sel, OFFLINE)], fo_replacement = info_load rep, fo_reply = ResultReply (u ''task-001'') (PInt 42) (pi_node_id rep),
      fo_manager = \<lparr>tm_node_id = pi_node_id rep, tm_tasks = [(u ''task-001'', 0)],
          tm_records = [\<lparr>er_task_id = u ''task-001'', er_state = COMPLETED, er_executing_node = Some (pi_node_id rep),
            er_result = Some (PInt 42), er_error = None, er_attempts = 1\<rparr>],
          tm_accepted_results = {}, tm_registry = [(u ''multiply'', ())]\<rparr>\<rparr>"
    using failover_flow [where call = multiply_call and fn = "()" and args = "[PInt 6, PInt 7]" and await = "\<lambda>_. Raised [] []" and t_update = "FFin 100",
        OF refl loads two flow res silent] unfolding demo_main_def by blast
  let ?n3 = "demo_node ''node-3'' 9003 9 (FFin 100)" and ?n5 = "demo_node ''node-5'' 9005 14 (FFin 100)"
  have "\<not> load_key_lt (demo_load q, pi_node_id q) (demo_load ?n3, pi_node_id ?n3)" if "q \<in> set ?av" for q
    using that by (auto simp: demo_available demo_load_simps feq_def fval_def)
  moreover have mem: "?n3 \<in> set ?av" "?n5 \<in> set ?av"
    by (simp_all add: demo_available)
  ultimately have n3: "sel = ?n3"
    using sel av(1) by blast
  have "\<not> load_key_lt (demo_load q, pi_node_id q) (demo_load ?n5, pi_node_id ?n5)" if "q \<in> set ?av - {?n3}" for q
    using that by (auto simp: demo_available demo_load_simps feq_def fval_def)
  moreover have "?n5 \<noteq> ?n3"
    by (simp add: demo_node_def)
  ultimately have "rep = ?n5"
    using rep av n3 mem by blast
  then show ?thesis
    by (simp add: main info_load_def demo_load_simps n3)
qed

end
