(* ===== verification/Gossip_Mesh.thy ===== *)
theory Gossip_Mesh
  imports Gossip
begin

text \<open>
  \<open>week2_gossip_demo.py\<close>: two gossip managers, each with a transport that calls the handler of the other, and
  their background loops interleaved in any order. An abstract board of who knows which status of whom is
  the specification; the theorem is that the managers implement it, so that everything a node knows of
  another was collected by that other node.
\<close>

section \<open>The program\<close>

datatype mesh_side = Node1 | Node2

fun other :: "mesh_side \<Rightarrow> mesh_side" where
  "other Node1 = Node2"
| "other Node2 = Node1"

fun mesh_id :: "mesh_side \<Rightarrow> pystr" where
  "mesh_id Node1 = u ''node-1''"
| "mesh_id Node2 = u ''node-2''"

text \<open>
  The transport of a node is \<open>lambda msg: other.handle_incoming_gossip(msg)\<close>: its world is the other manager.
  As each manager holds a callback into the other one, the pair is kept with the callbacks taken off
  (\<open>detached\<close>), and a node is connected while it broadcasts.
\<close>

type_synonym mesh = "mesh_side \<Rightarrow> unit gossip_manager"

definition peer_transport :: "'w gossip_manager gossip_transport" where
  "peer_transport peer msg = handle_incoming_gossip peer (PDict msg)"

definition detached :: "'v gossip_manager \<Rightarrow> 'w gossip_manager" where
  "detached m =
     \<lparr>gm_node_id = gm_node_id m, gm_ttl = gm_ttl m, gm_monitor_interval = gm_monitor_interval m, gm_running = gm_running m,
      gm_latest = gm_latest m, gm_peer_table = gm_peer_table m, gm_transport_cb = None\<rparr>"

definition wired :: "'v gossip_manager \<Rightarrow> 'w gossip_manager gossip_manager" where
  "wired m = set_transport (detached m) peer_transport"

definition mesh_init :: mesh where
  "mesh_init i = GossipManager (mesh_id i) (FFin 1) (FFin 15)"

text \<open>
  What can happen next: the monitor task of a node starts, makes a round with the given sensor readings and
  clock, or the broadcast task of a node makes a round.
\<close>

datatype mesh_event =
  MonitorStart mesh_side
| MonitorRound mesh_side "(pyval \<times> pyval) option" pyfloat
| BroadcastRound mesh_side pyfloat

fun mesh_step :: "mesh_event \<Rightarrow> mesh \<Rightarrow> unit res \<times> mesh" where
  "mesh_step (MonitorStart i) s = (Inr (), s(i := monitor_loop_start (s i)))"
| "mesh_step (MonitorRound i sensors now) s = (Inr (), s(i := monitor_loop_body (s i) sensors now))"
| "mesh_step (BroadcastRound i now) s =
     (case broadcast_loop_body (wired (s i)) now (s (other i)) of
        (r, m, peer) \<Rightarrow> (r, s(i := detached m, other i := peer)))"

definition run_simulated_mesh :: "mesh_event list \<Rightarrow> mesh" where
  "run_simulated_mesh es = fold (\<lambda>e s. snd (mesh_step e s)) es mesh_init"

section \<open>The specification\<close>

text \<open>\<open>mv_knows v i j\<close> is what node \<open>i\<close> knows of node \<open>j\<close>.\<close>

record mesh_view =
  mv_running :: "mesh_side \<Rightarrow> bool"
  mv_latest :: "mesh_side \<Rightarrow> resource_status option"
  mv_knows :: "mesh_side \<Rightarrow> mesh_side \<Rightarrow> resource_status option"

definition view_init :: mesh_view where
  "view_init = \<lparr>mv_running = (\<lambda>_. False), mv_latest = (\<lambda>_. None), mv_knows = (\<lambda>_ _. None)\<rparr>"

definition outdated :: "pyfloat \<Rightarrow> resource_status \<Rightarrow> bool" where
  "outdated now st \<longleftrightarrow> flt (FFin 15) (fsub now (rs_timestamp st))"

definition keep_fresh :: "pyfloat \<Rightarrow> resource_status option \<Rightarrow> resource_status option" where
  "keep_fresh now known = Option.bind known (\<lambda>st. if outdated now st then None else Some st)"

text \<open>
  A broadcast forgets what is outdated at the sender and, once the sender has a status, makes its latest one
  what the other node knows of it.
\<close>

fun view_step :: "mesh_event \<Rightarrow> mesh_view \<Rightarrow> mesh_view" where
  "view_step (MonitorStart i) v = v\<lparr>mv_running := (mv_running v)(i := True)\<rparr>"
| "view_step (MonitorRound i sensors now) v =
     (case rm_collect (mesh_id i) sensors now of
        Inr st \<Rightarrow>
          if mv_running v i
          then v\<lparr>mv_latest := (mv_latest v)(i := Some st), mv_knows := (mv_knows v)(i := (mv_knows v i)(i := Some st))\<rparr>
          else v
      | Inl _ \<Rightarrow> v)"
| "view_step (BroadcastRound i now) v =
     v\<lparr>mv_knows := (mv_knows v)
         (i := \<lambda>j. keep_fresh now (mv_knows v i j),
          other i := (mv_knows v (other i))
            (i := case mv_latest v i of None \<Rightarrow> mv_knows v (other i) i | Some st \<Rightarrow> Some st))\<rparr>"

definition mesh_view :: "mesh_event list \<Rightarrow> mesh_view" where
  "mesh_view es = fold view_step es view_init"

section \<open>The simulation\<close>

lemma other_simps [simp]: "other i \<noteq> i" "i \<noteq> other i" "other (other i) = i"
  by (cases i; simp)+

lemma side_cases: "j = i \<or> j = other i"
  by (cases i; cases j) simp_all

lemma mesh_id_inject [simp]: "mesh_id i = mesh_id j \<longleftrightarrow> i = j"
  by (cases i; cases j) simp_all

definition table_of :: "(mesh_side \<Rightarrow> resource_status option) \<Rightarrow> (pyval \<times> pydict) list \<Rightarrow> bool" where
  "table_of known t \<longleftrightarrow> distinct (map fst t) \<and> dom (map_of t) \<subseteq> PStr ` range mesh_id \<and>
     (\<forall>j. map_of t (PStr (mesh_id j)) = map_option rs_to_dict (known j))"

definition node_sim :: "mesh_view \<Rightarrow> mesh_side \<Rightarrow> 'w gossip_manager \<Rightarrow> bool" where
  "node_sim v i m \<longleftrightarrow> gm_node_id m = mesh_id i \<and> gm_ttl m = FFin 15 \<and> gm_running m = mv_running v i \<and>
     gm_latest m = mv_latest v i \<and> (\<forall>st. mv_latest v i = Some st \<longrightarrow> rs_node_id st = PStr (mesh_id i)) \<and>
     table_of (mv_knows v i) (gm_peer_table m)"

definition mesh_sim :: "mesh_view \<Rightarrow> mesh \<Rightarrow> bool" where
  "mesh_sim v s \<longleftrightarrow> (\<forall>i. node_sim v i (s i))"

lemma table_of_update:
  "table_of known t \<Longrightarrow> table_of (known(j := Some st)) (AList.update (PStr (mesh_id j)) (rs_to_dict st) t)"
  by (auto simp: table_of_def update_conv' distinct_update)

lemma map_of_filter_values:
  "distinct (map fst t) \<Longrightarrow> map_of (filter (\<lambda>(k, v). P v) t) k = Option.bind (map_of t k) (\<lambda>v. if P v then Some v else None)"
proof (induction t)
  case (Cons e t)
  then have "map_of t (fst e) = None" by (simp add: map_of_eq_None_iff)
  with Cons show ?case by (auto split: prod.splits)
qed simp

lemma is_expired_status: "is_expired now (FFin 15) (rs_to_dict st) = Inr (outdated now st)"
  by (simp add: is_expired_def float_minus_def rs_to_dict_def outdated_def py_float_def)

lemma table_of_entry:
  assumes "table_of known t" and "(k, d) \<in> set t"
  obtains j st where "k = PStr (mesh_id j)" and "d = rs_to_dict st" and "known j = Some st"
proof -
  have d: "map_of t k = Some d" and "dom (map_of t) \<subseteq> PStr ` range mesh_id"
    and at: "map_of t (PStr (mesh_id j)) = map_option rs_to_dict (known j)" for j
    using assms by (simp_all add: table_of_def)
  then obtain j where "k = PStr (mesh_id j)" by blast
  with at [of j] d that show ?thesis by auto
qed

text \<open>A cleanup of such a table never raises and forgets exactly what is outdated.\<close>

lemma cleanup_node_sim:
  assumes "node_sim v i m"
  obtains t where "cleanup_stale_peers m now = (Inr (), m\<lparr>gm_peer_table := t\<rparr>)" and "table_of (\<lambda>j. keep_fresh now (mv_knows v i j)) t"
proof -
  let ?x = "\<lambda>d. projr (is_expired now (FFin 15) d)" and ?t = "gm_peer_table m"
  have tab: "table_of (mv_knows v i) ?t" and ttl: "gm_ttl m = FFin 15"
    using assms by (simp_all add: node_sim_def)
  have dist: "distinct (map fst ?t)"
    using tab by (simp add: table_of_def)
  have "is_expired now (gm_ttl m) d = Inr (?x d)" if "(k, d) \<in> set ?t" for k d
    using table_of_entry [OF tab that] by (metis ttl is_expired_status sum.sel(2))
  note ret = cleanup_returns [OF dist this]
  have "table_of (\<lambda>j. keep_fresh now (mv_knows v i j)) (filter (\<lambda>(k, d). \<not> ?x d) ?t)"
    unfolding table_of_def
  proof (intro conjI allI)
    show "dom (map_of (filter (\<lambda>(k, d). \<not> ?x d) ?t)) \<subseteq> PStr ` range mesh_id"
      using tab by (force simp: table_of_def dest: map_of_SomeD)
  next
    fix j
    show "map_of (filter (\<lambda>(k, d). \<not> ?x d) ?t) (PStr (mesh_id j)) = map_option rs_to_dict (keep_fresh now (mv_knows v i j))"
      using tab by (cases "mv_knows v i j") (simp_all add: table_of_def map_of_filter_values [OF dist] keep_fresh_def is_expired_status)
  qed (simp add: dist distinct_map_filter)
  with ret show ?thesis by (rule that)
qed

text \<open>The message of a node is stored by the other one under the sender's id.\<close>

lemma peer_transport_status:
  assumes "node_sim v (other i) peer" and "rs_node_id st = PStr (mesh_id i)"
  shows "peer_transport peer (build_status_msg st)
    = (Inr (), peer\<lparr>gm_peer_table := AList.update (PStr (mesh_id i)) (rs_to_dict st) (gm_peer_table peer)\<rparr>)"
  using assms
  by (simp add: peer_transport_def handle_incoming_gossip_def build_status_msg_def dict_get_def dict_item_def dict_key_def
      rs_to_dict_def node_sim_def)

lemma monitor_node_sim:
  "node_sim v i m \<Longrightarrow> node_sim (view_step (MonitorRound i sensors now) v) i (monitor_loop_body m sensors now)"
  by (auto simp: node_sim_def monitor_loop_body_def on_local_update_def table_of_update rm_collect_def res_simps
      split: sum.splits prod.splits)

lemma node_sim_detached [simp]: "node_sim v i (detached m) \<longleftrightarrow> node_sim v i m"
  by (simp add: node_sim_def detached_def)

lemma node_sim_wired: "node_sim v i m \<Longrightarrow> node_sim v i (wired m)"
  by (simp add: node_sim_def wired_def detached_def set_transport_def)

lemma node_sim_sender:
  "node_sim v i m \<Longrightarrow> table_of (\<lambda>j. keep_fresh now (mv_knows v i j)) t \<Longrightarrow>
    node_sim (view_step (BroadcastRound i now) v) i (m\<lparr>gm_peer_table := t\<rparr>)"
  by (simp add: node_sim_def)

lemma node_sim_receiver:
  "node_sim v (other i) peer \<Longrightarrow>
    node_sim (view_step (BroadcastRound i now) v) (other i)
      (case mv_latest v i of None \<Rightarrow> peer
       | Some st \<Rightarrow> peer\<lparr>gm_peer_table := AList.update (PStr (mesh_id i)) (rs_to_dict st) (gm_peer_table peer)\<rparr>)"
  by (cases "mv_latest v i") (simp_all add: node_sim_def table_of_update)

lemma broadcast_sim:
  fixes peer :: "'w gossip_manager"
  assumes "node_sim v i m" and "node_sim v (other i) peer"
  obtains m' peer' where "broadcast_loop_body (wired m) now peer = (Inr (), m', peer')"
    and "node_sim (view_step (BroadcastRound i now) v) i m'" and "node_sim (view_step (BroadcastRound i now) v) (other i) peer'"
proof -
  let ?m = "wired m :: 'w gossip_manager gossip_manager"
  have con: "node_sim v i ?m"
    by (rule node_sim_wired [OF assms(1)])
  obtain t where cl: "cleanup_stale_peers ?m now = (Inr (), ?m\<lparr>gm_peer_table := t\<rparr>)"
    and t: "table_of (\<lambda>j. keep_fresh now (mv_knows v i j)) t"
    by (rule cleanup_node_sim [OF con])
  have cb: "gm_transport_cb ?m = Some peer_transport"
    by (simp add: wired_def set_transport_def)
  have lat: "gm_latest ?m = mv_latest v i" and id: "mv_latest v i = Some st \<Longrightarrow> rs_node_id st = PStr (mesh_id i)" for st
    using con by (simp_all add: node_sim_def)
  have "broadcast_loop_body ?m now peer = (Inr (), ?m\<lparr>gm_peer_table := t\<rparr>,
      case mv_latest v i of None \<Rightarrow> peer
       | Some st \<Rightarrow> peer\<lparr>gm_peer_table := AList.update (PStr (mesh_id i)) (rs_to_dict st) (gm_peer_table peer)\<rparr>)"
    by (cases "mv_latest v i") (simp_all add: broadcast_loop_body_def cl cb lat peer_transport_status [OF assms(2)] id)
  from that [OF this node_sim_sender [OF con t] node_sim_receiver [OF assms(2)]] show ?thesis .
qed

lemma node_sim_frame:
  "node_sim v (other i) m \<Longrightarrow> node_sim (view_step (MonitorStart i) v) (other i) m"
  "node_sim v (other i) m \<Longrightarrow> node_sim (view_step (MonitorRound i sensors now) v) (other i) m"
  by (simp_all add: node_sim_def split: sum.split)

lemma mesh_simI: "node_sim v i (s i) \<Longrightarrow> node_sim v (other i) (s (other i)) \<Longrightarrow> mesh_sim v s"
  unfolding mesh_sim_def by (metis side_cases)

lemma mesh_step_sim:
  assumes "mesh_sim v s"
  shows "fst (mesh_step e s) = Inr () \<and> mesh_sim (view_step e v) (snd (mesh_step e s))"
proof -
  have at: "node_sim v i (s i)" for i
    using assms by (simp add: mesh_sim_def)
  show ?thesis
  proof (cases e)
    case (MonitorStart i)
    have "node_sim (view_step e v) i (monitor_loop_start (s i))"
      using at [of i] by (simp add: MonitorStart node_sim_def monitor_loop_start_def)
    then show ?thesis
      using node_sim_frame(1) [OF at] by (auto simp: MonitorStart simp del: view_step.simps intro!: mesh_simI [of _ i])
  next
    case (MonitorRound i sensors now)
    then show ?thesis
      using monitor_node_sim [OF at] node_sim_frame(2) [OF at] by (auto simp del: view_step.simps intro!: mesh_simI [of _ i])
  next
    case (BroadcastRound i now)
    obtain m' peer' where "broadcast_loop_body (wired (s i)) now (s (other i)) = (Inr (), m', peer')"
      and "node_sim (view_step e v) i m'" and "node_sim (view_step e v) (other i) peer'"
      unfolding BroadcastRound by (rule broadcast_sim [OF at at])
    then show ?thesis
      by (auto simp: BroadcastRound simp del: view_step.simps intro!: mesh_simI [of _ i])
  qed
qed

lemma mesh_run_sim: "mesh_sim v s \<Longrightarrow> mesh_sim (fold view_step es v) (fold (\<lambda>e s. snd (mesh_step e s)) es s)"
  by (induction es arbitrary: v s) (simp_all add: mesh_step_sim del: view_step.simps mesh_step.simps)

lemma mesh_sim_init: "mesh_sim view_init mesh_init"
  by (simp add: mesh_sim_def node_sim_def table_of_def view_init_def mesh_init_def GossipManager_def)

lemma simulated_mesh_sim: "mesh_sim (mesh_view es) (run_simulated_mesh es)"
  unfolding mesh_view_def run_simulated_mesh_def by (rule mesh_run_sim [OF mesh_sim_init])

section \<open>Authenticity\<close>

text \<open>The statuses the monitor of a node has collected in a history.\<close>

definition collected :: "mesh_event list \<Rightarrow> mesh_side \<Rightarrow> resource_status set" where
  "collected es i = {st. \<exists>sensors now. MonitorRound i sensors now \<in> set es \<and> rm_collect (mesh_id i) sensors now = Inr st}"

definition authentic :: "mesh_event list \<Rightarrow> mesh_view \<Rightarrow> bool" where
  "authentic es v \<longleftrightarrow> (\<forall>j st. mv_latest v j = Some st \<longrightarrow> st \<in> collected es j) \<and>
     (\<forall>i j st. mv_knows v i j = Some st \<longrightarrow> st \<in> collected es j)"

lemma collected_snoc: "collected (es @ [e]) i = collected es i \<union> collected [e] i"
  by (auto simp: collected_def)

lemma collected_now: "rm_collect (mesh_id i) sensors now = Inr st \<Longrightarrow> st \<in> collected [MonitorRound i sensors now] i"
  by (auto simp: collected_def)

lemma keep_fresh_SomeD: "keep_fresh now known = Some st \<Longrightarrow> known = Some st"
  by (auto simp: keep_fresh_def bind_eq_Some_conv split: if_splits)

lemma broadcast_knows:
  "mv_knows (view_step (BroadcastRound i now) v) k j = Some st \<Longrightarrow>
    mv_knows v k j = Some st \<or> j = i \<and> mv_latest v i = Some st"
  by (cases "mv_latest v i") (auto dest: keep_fresh_SomeD split: if_splits)

lemma view_step_authentic:
  assumes "authentic es v"
  shows "authentic (es @ [e]) (view_step e v)"
proof (cases e)
  case (MonitorRound i sensors now)
  then show ?thesis
    using assms collected_now [of i sensors now] unfolding authentic_def collected_snoc
    by (cases "rm_collect (mesh_id i) sensors now") simp_all
next
  case (BroadcastRound i now)
  have "mv_latest (view_step e v) = mv_latest v"
    by (simp add: BroadcastRound)
  then show ?thesis
    using assms broadcast_knows [of i now v] unfolding authentic_def collected_snoc BroadcastRound by fastforce
qed (use assms in \<open>simp add: authentic_def collected_snoc\<close>)

lemma mesh_view_authentic: "authentic es (mesh_view es)"
proof (induction es rule: rev_induct)
  case (snoc e es)
  from view_step_authentic [OF this, of e] show ?case by (simp add: mesh_view_def)
qed (simp add: authentic_def mesh_view_def view_init_def)

section \<open>Properties\<close>

text \<open>
  C19. Two connected gossip managers implement the board, whatever the order of their rounds, the sensor
  readings and the clocks. No round of either broadcast loop raises, so both loops go on. The table of a node
  holds, under the two node ids and no other, exactly the status the board says it knows. Each of these was
  collected by the monitor of the node it is about. A node that has collected a status is known by its latest
  one at the other node after its next broadcast.
\<close>

theorem simulated_mesh_refines:
  "(\<forall>e. fst (mesh_step e (run_simulated_mesh es)) = Inr ()) \<and>
   (\<forall>i. dom (map_of (gm_peer_table (run_simulated_mesh es i))) \<subseteq> PStr ` range mesh_id) \<and>
   (\<forall>i j. map_of (gm_peer_table (run_simulated_mesh es i)) (PStr (mesh_id j)) = map_option rs_to_dict (mv_knows (mesh_view es) i j)) \<and>
   (\<forall>i j st. mv_knows (mesh_view es) i j = Some st \<longrightarrow> st \<in> collected es j) \<and>
   (\<forall>i now st. gm_latest (run_simulated_mesh es i) = Some st \<longrightarrow>
      map_of (gm_peer_table (run_simulated_mesh (es @ [BroadcastRound i now]) (other i))) (PStr (mesh_id i)) = Some (rs_to_dict st))"
proof (intro conjI allI impI)
  note sim = simulated_mesh_sim [unfolded mesh_sim_def node_sim_def table_of_def, rule_format]
  show "fst (mesh_step e (run_simulated_mesh es)) = Inr ()" for e
    using mesh_step_sim [OF simulated_mesh_sim] by blast
  show "dom (map_of (gm_peer_table (run_simulated_mesh es i))) \<subseteq> PStr ` range mesh_id" for i
    using sim by blast
  show "map_of (gm_peer_table (run_simulated_mesh es i)) (PStr (mesh_id j)) = map_option rs_to_dict (mv_knows (mesh_view es) i j)" for i j
    using sim by blast
  show "st \<in> collected es j" if "mv_knows (mesh_view es) i j = Some st" for i j st
    using that mesh_view_authentic [of es] by (simp add: authentic_def)
  fix i now st
  assume "gm_latest (run_simulated_mesh es i) = Some st"
  then have "mv_latest (mesh_view es) i = Some st"
    using sim by metis
  then have "mv_knows (mesh_view (es @ [BroadcastRound i now])) (other i) i = Some st"
    by (simp add: mesh_view_def)
  then show "map_of (gm_peer_table (run_simulated_mesh (es @ [BroadcastRound i now]) (other i))) (PStr (mesh_id i)) = Some (rs_to_dict st)"
    using sim by (metis option.map(2))
qed

definition ex_history :: "mesh_event list" where
  "ex_history = [BroadcastRound Node1 (FFin 0), MonitorStart Node1, MonitorRound Node1 (Some (PFloat (FFin 10), PFloat (FFin 20))) (FFin 1)]"

theorem simulated_mesh_refines_witness:
  "map_of (gm_peer_table (run_simulated_mesh (ex_history @ [BroadcastRound Node1 (FFin 2)]) Node2)) (PStr (u ''node-1''))
     = Some (rs_to_dict \<lparr>rs_node_id = PStr (u ''node-1''), rs_cpu_percent = FFin 10, rs_ram_percent = FFin 20, rs_timestamp = FFin 1\<rparr>)"
proof -
  let ?st = "\<lparr>rs_node_id = PStr (u ''node-1''), rs_cpu_percent = FFin 10, rs_ram_percent = FFin 20, rs_timestamp = FFin 1\<rparr>"
  have "gm_latest (run_simulated_mesh ex_history Node1) = Some ?st"
    by (simp add: run_simulated_mesh_def ex_history_def mesh_init_def GossipManager_def broadcast_loop_body_def cleanup_stale_peers_def
        wired_def detached_def set_transport_def monitor_loop_start_def monitor_loop_body_def on_local_update_def rm_collect_def py_float_def)
  then show ?thesis
    using simulated_mesh_refines [of ex_history, THEN conjunct2, THEN conjunct2, THEN conjunct2, THEN conjunct2, THEN spec, of Node1,
        THEN spec, of "FFin 2", THEN spec, of ?st] by simp
qed

end
