(* ===== verification/Py_Format.thy ===== *)
theory Py_Format
  imports Py_Convert
begin

text \<open>
  The number formatting the program's output uses: \<open>f"{x:.nf}"\<close> with a fixed number of decimals (the exact
  value, correctly rounded, ties to even), padding to a width, \<open>round(x, n)\<close>, and \<open>1 / x\<close>. The text of a
  number with at least one decimal reads back, through \<open>float\<close>, as the rounded value.
\<close>

text \<open>The last \<open>n\<close> digits of a number.\<close>

primrec fixed_digits :: "nat \<Rightarrow> nat \<Rightarrow> nat list" where
  "fixed_digits 0 k = []"
| "fixed_digits (Suc n) k = fixed_digits n (k div 10) @ [k mod 10]"

text \<open>The value in units of the last decimal.\<close>

definition fixed_units :: "nat \<Rightarrow> rat \<Rightarrow> nat" where
  "fixed_units n q = nat (round_half_even (\<bar>q\<bar> * 10 ^ n))"

definition fixed_text :: "nat \<Rightarrow> bool \<Rightarrow> nat \<Rightarrow> pystr" where
  "fixed_text n neg m = num_text (neg, dec_digits (m div 10 ^ n), fixed_digits n (m mod 10 ^ n), None)"

definition format_fixed :: "nat \<Rightarrow> pyfloat \<Rightarrow> pystr" where
  "format_fixed n x =
     (case x of
        FFin q \<Rightarrow> fixed_text n (q < 0) (fixed_units n q)
      | FNegZero \<Rightarrow> fixed_text n True 0
      | FInf \<Rightarrow> u ''inf''
      | FNegInf \<Rightarrow> u ''-inf''
      | FNaN \<Rightarrow> u ''nan'')"

definition pad_right :: "nat \<Rightarrow> pystr \<Rightarrow> pystr" where
  "pad_right w s = s @ replicate (w - length s) 32"

definition pad_left :: "nat \<Rightarrow> pystr \<Rightarrow> pystr" where
  "pad_left w s = replicate (w - length s) 32 @ s"

text \<open>\<open>round(x, n)\<close> gives the double nearest to the rounded decimal; a negative number can round to minus zero.\<close>

definition py_round :: "nat \<Rightarrow> pyfloat \<Rightarrow> pyfloat" where
  "py_round n x =
     (case x of
        FFin q \<Rightarrow>
          (let r = of_nat (fixed_units n q) / 10 ^ n in
           if q < 0 then (if fixed_units n q = 0 then FNegZero else round64 (- r)) else round64 r)
      | _ \<Rightarrow> x)"

text \<open>\<open>1 / x\<close>.\<close>

definition finverse :: "pyfloat \<Rightarrow> pyfloat res" where
  "finverse x =
     (case x of
        FFin q \<Rightarrow> if q = 0 then Inl ZeroDivisionError else Inr (round64 (1 / q))
      | FNegZero \<Rightarrow> Inl ZeroDivisionError
      | FInf \<Rightarrow> Inr (FFin 0)
      | FNegInf \<Rightarrow> Inr FNegZero
      | FNaN \<Rightarrow> Inr FNaN)"

section \<open>Digits\<close>

lemma fixed_digits_bound: "d \<in> set (fixed_digits n k) \<Longrightarrow> d < 10"
  by (induction n arbitrary: k) auto

lemma length_fixed_digits [simp]: "length (fixed_digits n k) = n"
  by (induction n arbitrary: k) simp_all

lemma dec_val_fixed_digits: "k < 10 ^ n \<Longrightarrow> dec_val (ds @ fixed_digits n k) = dec_val ds * 10 ^ n + k"
proof (induction n arbitrary: k)
  case (Suc n)
  then have "k div 10 < 10 ^ n"
    by (simp add: div_less_iff_less_mult mult.commute)
  then have "dec_val (ds @ fixed_digits (Suc n) k) = (dec_val ds * 10 ^ n + k div 10) * 10 + k mod 10"
    using Suc.IH dec_val_snoc [of "ds @ fixed_digits n (k div 10)" "k mod 10"] by simp
  also have "\<dots> = dec_val ds * 10 ^ Suc n + k"
    by (simp add: algebra_simps)
  finally show ?case .
qed simp

lemma fixed_units_error: "\<bar>of_nat (fixed_units n q) / 10 ^ n - \<bar>q\<bar>\<bar> \<le> 1 / (2 * 10 ^ n)"
proof -
  let ?x = "\<bar>q\<bar> * 10 ^ n"
  have "0 \<le> round_half_even ?x"
    using round_half_even_mono [of 0 ?x] round_half_even_of_int [of 0] by simp
  then have "of_nat (fixed_units n q) = (of_int (round_half_even ?x) :: rat)"
    by (simp add: fixed_units_def)
  then have "\<bar>of_nat (fixed_units n q) - ?x\<bar> \<le> 1 / 2"
    using round_half_even_error [of ?x] by simp
  then have "\<bar>of_nat (fixed_units n q) - ?x\<bar> / 10 ^ n \<le> 1 / 2 / 10 ^ n"
    by (intro divide_right_mono) simp_all
  moreover have "of_nat (fixed_units n q) / 10 ^ n - \<bar>q\<bar> = (of_nat (fixed_units n q) - ?x) / 10 ^ n"
    by (simp add: diff_divide_distrib)
  ultimately show ?thesis
    by (simp add: abs_divide)
qed

section \<open>Reading the text of a number\<close>

lemma drop_underscores_id: "95 \<notin> set s \<Longrightarrow> drop_underscores b s = Some s"
  by (induction s arbitrary: b) auto

lemma map_ascii_of_id: "\<forall>c \<in> set s. c < 127 \<Longrightarrow> map ascii_of s = s"
  by (induction s) (simp_all add: ascii_of_def)

definition number_char :: "nat \<Rightarrow> bool" where
  "number_char c \<longleftrightarrow> c = 45 \<or> c = 46 \<or> is_digit c"

lemma digit_text_chars: "\<forall>d \<in> set ds. d < 10 \<Longrightarrow> \<forall>c \<in> set (digit_text ds). is_digit c"
  by (auto simp: digit_text_def is_digit_def)

lemma num_text_chars: "num_ok (neg, ds, fs, None) \<Longrightarrow> \<forall>c \<in> set (num_text (neg, ds, fs, None)). number_char c"
  using digit_text_chars [of ds] digit_text_chars [of fs] by (auto simp: num_text_def num_ok_def number_char_def)

lemma strip_spaces_padded:
  assumes "s \<noteq> []" and "\<forall>c \<in> set s. number_char c"
  shows "strip_spaces (replicate k 32 @ s) = s"
proof -
  have hd: "\<not> is_space (hd s)" and last: "\<not> is_space (last s)"
    using assms(2) [rule_format, OF hd_in_set [OF assms(1)]] assms(2) [rule_format, OF last_in_set [OF assms(1)]]
    by (auto simp: number_char_def is_digit_def is_space_def)
  have "dropWhile is_space (replicate k 32 @ s) = dropWhile is_space s"
    by (induction k) (simp_all add: is_space_def)
  also have "\<dots> = s"
    using hd assms(1) by (cases s) simp_all
  finally have "strip_spaces (replicate k 32 @ s) = rev (dropWhile is_space (rev s))"
    by (simp add: strip_spaces_def)
  also have "dropWhile is_space (rev s) = rev s"
    using last assms(1) by (cases s rule: rev_cases) simp_all
  finally show ?thesis by simp
qed

lemma float_literal_num_text:
  assumes "num_ok (neg, ds, fs, None)"
  shows "float_literal (num_text (neg, ds, fs, None)) = Some (float_of_match neg ds fs 0)"
proof -
  let ?t = "digit_text ds @ (if fs = [] then [] else 46 # digit_text fs)"
  have ds: "ds \<noteq> []" "\<forall>d \<in> set ds. d < 10" and fs: "\<forall>d \<in> set fs. d < 10"
    using assms by (auto simp: num_ok_def)
  obtain d ds' where Cons: "ds = d # ds'" "d < 10"
    using ds by (cases ds) auto
  have hd: "hd ?t = 48 + d" "?t \<noteq> []"
    by (simp_all add: Cons digit_text_def)
  have sign: "match_float_sign (num_text (neg, ds, fs, None)) = (neg, ?t)"
    using Cons by (auto simp: num_text_def match_float_sign_def digit_text_def)
  have low: "hd (map lower_ascii ?t) = 48 + d"
    using Cons by (simp add: digit_text_def lower_ascii_def)
  have special: "map lower_ascii ?t \<notin> {u ''inf'', u ''infinity'', u ''nan''}"
    using low Cons(2) by (auto simp: u_def dest: arg_cong [where f = hd])
  have span: "span_digits ?t = (ds, if fs = [] then [] else 46 # digit_text fs)"
    using ds(2) by (intro span_digits_digit_text) (auto simp: is_digit_def)
  have "span_digits (digit_text fs) = (fs, [])"
    using span_digits_digit_text [OF fs, of "[]"] by simp
  then show ?thesis
    using special ds(1) by (auto simp: float_literal_def sign span match_exp_none Let_def)
qed

lemma float_of_padded:
  assumes "num_ok (neg, ds, fs, None)"
  shows "float_of_str (replicate k 32 @ num_text (neg, ds, fs, None)) = Inr (float_of_match neg ds fs 0)"
proof -
  let ?s = "num_text (neg, ds, fs, None)"
  have chars: "\<forall>c \<in> set ?s. number_char c"
    by (rule num_text_chars [OF assms])
  then have "\<forall>c \<in> set (replicate k 32 @ ?s). c < 127" "95 \<notin> set ?s"
    by (auto simp: number_char_def is_digit_def)
  moreover have "?s \<noteq> []"
    using assms by (auto simp: num_text_def num_ok_def digit_text_def)
  ultimately show ?thesis
    using strip_spaces_padded [OF _ chars, of k] float_literal_num_text [OF assms]
    by (simp add: float_of_str_def map_ascii_of_id drop_underscores_id del: map_append)
qed

lemma num_ok_fixed: "num_ok (neg, dec_digits a, fixed_digits n b, None)"
  using num_ok_int [of neg a] fixed_digits_bound by (auto simp: num_ok_def)

text \<open>What the text of a number with \<open>n\<close> decimals, padded on the left, is read as.\<close>

lemma float_of_format_fixed:
  "float_of_str (pad_left w (format_fixed n (FFin q))) = Inr (py_round n (FFin q))"
proof -
  let ?m = "fixed_units n q"
  have m: "dec_val (dec_digits (?m div 10 ^ n) @ fixed_digits n (?m mod 10 ^ n)) = ?m"
    by (simp add: dec_val_fixed_digits div_mult_mod_eq)
  have "float_of_match (q < 0) (dec_digits (?m div 10 ^ n)) (fixed_digits n (?m mod 10 ^ n)) 0 = py_round n (FFin q)"
    by (simp add: float_of_match_def m py_round_def Let_def pow10_def)
  then show ?thesis
    by (simp add: pad_left_def format_fixed_def fixed_text_def float_of_padded [OF num_ok_fixed])
qed

end
