(* ===== verification/Mesh_Node.thy ===== *)
theory Mesh_Node
  imports Protocol
begin

text \<open>
  \<open>meshweaver/node.py\<close>: the local node with its address, load and known peers. \<open>touch\<close> takes the clock
  reading as an argument; \<open>PNone\<close> is a load that is not given. The loads are converted one after the other,
  so an exception at the second leaves the first one set.
\<close>

record node =
  nd_node_id :: pystr
  nd_host :: pystr
  nd_port :: int
  nd_cpu_load :: pyfloat
  nd_ram_percent :: pyfloat
  nd_state :: pystr
  nd_last_seen :: pyfloat
  nd_peers :: "(pystr \<times> pystr \<times> int) list"

definition touch :: "node \<Rightarrow> pyfloat \<Rightarrow> pyval \<Rightarrow> pyval \<Rightarrow> unit res \<times> node" where
  "touch n now cpu_load ram_percent =
     (let n1 = n\<lparr>nd_last_seen := now, nd_state := u ''ALIVE''\<rparr> in
      case (if cpu_load = PNone then Inr n1 else and_then (py_float cpu_load) (\<lambda>x. Inr (n1\<lparr>nd_cpu_load := x\<rparr>))) of
        Inl e \<Rightarrow> (Inl e, n1)
      | Inr n2 \<Rightarrow>
          (case (if ram_percent = PNone then Inr n2 else and_then (py_float ram_percent) (\<lambda>x. Inr (n2\<lparr>nd_ram_percent := x\<rparr>))) of
             Inl e \<Rightarrow> (Inl e, n2)
           | Inr n3 \<Rightarrow> (Inr (), n3)))"

definition add_peer :: "node \<Rightarrow> pystr \<Rightarrow> pystr \<Rightarrow> int \<Rightarrow> node" where
  "add_peer n node_id host port = n\<lparr>nd_peers := AList.update node_id (host, port) (nd_peers n)\<rparr>"

definition nd_address :: "node \<Rightarrow> pystr \<times> int" where
  "nd_address n = (nd_host n, nd_port n)"

lemma touch_node_id [simp]: "nd_node_id (snd (touch n now c r)) = nd_node_id n"
  by (simp add: touch_def Let_def and_then_def split: sum.splits)

text \<open>With both loads convertible or absent, \<open>touch\<close> sets exactly the given ones.\<close>

lemma touch_ok:
  assumes "c = PNone \<or> py_float c = Inr x" and "r = PNone \<or> py_float r = Inr y"
  shows "touch n now c r = (Inr (), n\<lparr>nd_last_seen := now, nd_state := u ''ALIVE'',
    nd_cpu_load := (if c = PNone then nd_cpu_load n else x), nd_ram_percent := (if r = PNone then nd_ram_percent n else y)\<rparr>)"
  using assms by (auto simp: touch_def Let_def)

end
