(* ===== verification/Dashboard.thy ===== *)
theory Dashboard
  imports Py_Format Mesh_Node Polling_Loop
begin

text \<open>
  \<open>meshweaver/dashboard.py\<close>: the table of the network's nodes, as text or as a table of the library rich,
  and the loop that shows it. A table of rich is what the code hands to the library: title, columns and
  rows. The clock is read once per node, in the order of the nodes; which of the two forms is used is an
  argument, as the import of rich decides it.
\<close>

record dash_row =
  dr_node_id :: pystr
  dr_state :: pystr
  dr_cpu :: pyfloat
  dr_ram :: pyfloat
  dr_last_seen :: pyfloat

record dash_snapshot =
  ds_nodes :: "dash_row list"
  ds_tasks :: pyval

definition dash_row_of :: "pyfloat \<Rightarrow> node \<Rightarrow> dash_row" where
  "dash_row_of now n =
     \<lparr>dr_node_id = nd_node_id n, dr_state = nd_state n, dr_cpu = nd_cpu_load n, dr_ram = nd_ram_percent n,
      dr_last_seen = py_round 2 (fsub now (nd_last_seen n))\<rparr>"

definition snapshot :: "(nat \<Rightarrow> pyfloat) \<Rightarrow> node list \<Rightarrow> pyval \<Rightarrow> dash_snapshot" where
  "snapshot clock nodes tasks =
     \<lparr>ds_nodes = map (\<lambda>(i, n). dash_row_of (clock i) n) (enumerate 0 nodes),
      ds_tasks = (if truthy tasks then tasks else PDict [])\<rparr>"

text \<open>\<open>"\n".join(lines)\<close>.\<close>

fun join_lines :: "pystr list \<Rightarrow> pystr" where
  "join_lines [] = []"
| "join_lines [l] = l"
| "join_lines (l # ls) = l @ 10 # join_lines ls"

datatype rendering = Text pystr | Rich_Table pystr "pystr list" "pystr list list"

definition text_row :: "dash_row \<Rightarrow> pystr" where
  "text_row n = pad_right 16 (dr_node_id n) @ u '' '' @ pad_right 10 (dr_state n) @ u '' CPU '' @
     pad_left 5 (format_fixed 1 (dr_cpu n)) @ u ''% RAM '' @ pad_left 5 (format_fixed 1 (dr_ram n)) @ u ''%''"

definition table_row :: "dash_row \<Rightarrow> pystr list" where
  "table_row n = [dr_node_id n, dr_state n, format_fixed 1 (dr_cpu n) @ u ''%'', format_fixed 1 (dr_ram n) @ u ''%'',
     format_fixed 2 (dr_last_seen n) @ u ''s'']"

definition render :: "bool \<Rightarrow> (nat \<Rightarrow> pyfloat) \<Rightarrow> node list \<Rightarrow> pyval \<Rightarrow> rendering" where
  "render rich_available clock nodes tasks =
     (let data = snapshot clock nodes tasks in
      if \<not> rich_available then Text (join_lines (u ''MeshWeaver Network'' # map text_row (ds_nodes data)))
      else Rich_Table (u ''MeshWeaver Network'') (map u [''Node'', ''State'', ''CPU'', ''RAM'', ''Last Seen'']) (map table_row (ds_nodes data)))"

text \<open>
  \<open>live_dashboard\<close>: what the providers and the clock give in a round is the round's input, and the state is the
  list of what was shown. With rich the first rendering is made before the loop, and \<open>max(1, int(1 / refresh))\<close>
  is computed for the refresh rate.
\<close>

definition refresh_rate :: "pyfloat \<Rightarrow> int res" where
  "refresh_rate refresh = and_then (finverse refresh) (\<lambda>x. and_then (py_int (PFloat x)) (\<lambda>i. Inr (max 1 i)))"

definition show_round ::
    "bool \<Rightarrow> (nat \<Rightarrow> pyfloat) \<times> node list \<times> pyval \<Rightarrow> rendering list \<Rightarrow> unit res \<times> rendering list" where
  "show_round rich_available = (\<lambda>(clock, nodes, tasks) shown. (Inr (), shown @ [render rich_available clock nodes tasks]))"

definition live_dashboard ::
    "bool \<Rightarrow> (nat \<Rightarrow> pyfloat) \<times> node list \<times> pyval \<Rightarrow> (nat \<Rightarrow> (nat \<Rightarrow> pyfloat) \<times> node list \<times> pyval) \<Rightarrow> pyfloat
      \<Rightarrow> (unit res \<times> nat \<times> rendering list) option" where
  "live_dashboard rich_available first inputs refresh =
     (if \<not> rich_available then poll_from (\<lambda>_. True) (show_round False) (\<lambda>(_ :: unit) s. s) inputs (\<lambda>_. []) 0 []
      else
        (let shown = snd (show_round True first []) in
         case refresh_rate refresh of
           Inl e \<Rightarrow> Some (Inl e, 0, [])
         | Inr _ \<Rightarrow> poll_from (\<lambda>_. True) (show_round True) (\<lambda>(_ :: unit) s. s) inputs (\<lambda>_. []) 0 shown))"

section \<open>Properties\<close>

interpretation dash: polling_loop "\<lambda>_. True" "show_round rich_available" "\<lambda>(_ :: unit) s. s" "\<lambda>_. False" for rich_available
  by unfold_locales simp_all

text \<open>The dashboard runs until it is cancelled, unless rich is used and the refresh interval has no inverse.\<close>

lemma live_dashboard_runs:
  "live_dashboard rich_available first inputs refresh = None \<longleftrightarrow> \<not> rich_available \<or> \<not> isl (refresh_rate refresh)"
proof -
  have "poll_from (\<lambda>_. True) (show_round rich) (\<lambda>(_ :: unit) s. s) inputs (\<lambda>_. []) 0 shown = None" for rich shown
    by (rule dash.forever) (simp_all add: show_round_def split: prod.splits)
  then show ?thesis
    by (simp add: live_dashboard_def Let_def isl_def split: sum.split)
qed

lemma length_fixed_text:
  assumes "m < 10000"
  shows "length (fixed_text 1 False m) \<le> 5"
proof -
  have "length (dec_digits k) \<le> 3" if "k < 1000" for k
    using that by (subst dec_digits.simps, subst dec_digits.simps, subst dec_digits.simps) auto
  then show ?thesis
    using assms by (simp add: fixed_text_def num_text_def digit_text_def)
qed

text \<open>A percentage is shown in five characters, which \<open>float\<close> reads as a number within half a tenth of it.\<close>

lemma shown_percentage:
  defines "shown \<equiv> \<lambda>q. pad_left 5 (format_fixed 1 (FFin q))"
  shows "\<exists>v. \<bar>v - q\<bar> \<le> 1 / 20 \<and> float_of_str (shown q) = Inr (if v = 0 \<and> q < 0 then FNegZero else round64 v)"
    and "0 \<le> q \<Longrightarrow> q \<le> 999 \<Longrightarrow> length (shown q) = 5"
proof -
  let ?m = "fixed_units 1 q"
  have err: "\<bar>of_nat ?m / 10 - \<bar>q\<bar>\<bar> \<le> 1 / 20"
    using fixed_units_error [of 1 q] by simp
  show "\<exists>v. \<bar>v - q\<bar> \<le> 1 / 20 \<and> float_of_str (shown q) = Inr (if v = 0 \<and> q < 0 then FNegZero else round64 v)"
  proof (intro exI conjI)
    let ?v = "(if q < 0 then - 1 else 1) * (of_nat ?m / 10) :: rat"
    show "\<bar>?v - q\<bar> \<le> 1 / 20"
    proof (cases "q < 0")
      case True
      then have "?v - q = - (of_nat ?m / 10 - \<bar>q\<bar>)" by simp
      then show ?thesis using err by (simp only: abs_minus_cancel)
    qed (use err in simp)
    show "float_of_str (shown q) = Inr (if ?v = 0 \<and> q < 0 then FNegZero else round64 ?v)"
      by (auto simp: shown_def float_of_format_fixed py_round_def Let_def)
  qed
  assume q: "0 \<le> q" "q \<le> 999"
  then have "of_nat ?m \<le> (9991 :: rat)"
    using abs_le_D1 [OF err] by simp
  then have "?m < 10000"
    by simp
  then show "length (shown q) = 5"
    using q(1) length_fixed_text [of ?m] by (simp add: shown_def pad_left_def format_fixed_def)
qed

text \<open>
  C38. The text rendering: a title and one line per node, in the order of the nodes. The line of a node with
  finite loads gives its id and state and, for CPU and RAM, a text that \<open>float\<close> reads as a number within half
  a tenth of the load. Lines are aligned: every node with loads from 0 to 999, an id of at most 16 and a
  state of at most 10 characters takes 49 characters.
\<close>

theorem render_text_spec:
  "\<exists>lines. render False clock nodes tasks = Text (join_lines lines) \<and> length lines = Suc (length nodes) \<and>
    lines ! 0 = u ''MeshWeaver Network'' \<and>
    (\<forall>i c r. i < length nodes \<and> nd_cpu_load (nodes ! i) = FFin c \<and> nd_ram_percent (nodes ! i) = FFin r \<longrightarrow>
       (\<exists>cpu ram v x. lines ! Suc i = pad_right 16 (nd_node_id (nodes ! i)) @ u '' '' @ pad_right 10 (nd_state (nodes ! i)) @
            u '' CPU '' @ cpu @ u ''% RAM '' @ ram @ u ''%'' \<and>
          \<bar>v - c\<bar> \<le> 1 / 20 \<and> float_of_str cpu = Inr (if v = 0 \<and> c < 0 then FNegZero else round64 v) \<and>
          \<bar>x - r\<bar> \<le> 1 / 20 \<and> float_of_str ram = Inr (if x = 0 \<and> r < 0 then FNegZero else round64 x)) \<and>
       (0 \<le> c \<and> c \<le> 999 \<and> 0 \<le> r \<and> r \<le> 999 \<and> length (nd_node_id (nodes ! i)) \<le> 16 \<and> length (nd_state (nodes ! i)) \<le> 10 \<longrightarrow>
          length (lines ! Suc i) = 49))"
proof -
  define lines where "lines = u ''MeshWeaver Network'' # map (\<lambda>(i, n). text_row (dash_row_of (clock i) n)) (enumerate 0 nodes)"
  show ?thesis
  proof (intro exI [of _ lines] conjI allI impI)
    show "render False clock nodes tasks = Text (join_lines lines)"
      by (simp add: render_def snapshot_def Let_def lines_def comp_def split_def)
    show "length lines = Suc (length nodes)" and "lines ! 0 = u ''MeshWeaver Network''"
      by (simp_all add: lines_def)
    fix i c r
    assume a: "i < length nodes \<and> nd_cpu_load (nodes ! i) = FFin c \<and> nd_ram_percent (nodes ! i) = FFin r"
    have line: "lines ! Suc i = pad_right 16 (nd_node_id (nodes ! i)) @ u '' '' @ pad_right 10 (nd_state (nodes ! i)) @
        u '' CPU '' @ pad_left 5 (format_fixed 1 (FFin c)) @ u ''% RAM '' @ pad_left 5 (format_fixed 1 (FFin r)) @ u ''%''"
      using a by (simp add: lines_def nth_enumerate_eq text_row_def dash_row_of_def)
    show "\<exists>cpu ram v x. lines ! Suc i = pad_right 16 (nd_node_id (nodes ! i)) @ u '' '' @ pad_right 10 (nd_state (nodes ! i)) @
              u '' CPU '' @ cpu @ u ''% RAM '' @ ram @ u ''%'' \<and>
            \<bar>v - c\<bar> \<le> 1 / 20 \<and> float_of_str cpu = Inr (if v = 0 \<and> c < 0 then FNegZero else round64 v) \<and>
            \<bar>x - r\<bar> \<le> 1 / 20 \<and> float_of_str ram = Inr (if x = 0 \<and> r < 0 then FNegZero else round64 x)"
      using line shown_percentage(1) [of c] shown_percentage(1) [of r] by blast
    assume b: "0 \<le> c \<and> c \<le> 999 \<and> 0 \<le> r \<and> r \<le> 999 \<and> length (nd_node_id (nodes ! i)) \<le> 16 \<and> length (nd_state (nodes ! i)) \<le> 10"
    have "length (pad_right w s) = w" if "length s \<le> w" for w s
      using that by (simp add: pad_right_def)
    then show "length (lines ! Suc i) = 49"
      using b shown_percentage(2) [of c] shown_percentage(2) [of r] unfolding line by (simp add: u_def)
  qed
qed

definition ex_dash_node :: node where
  "ex_dash_node = \<lparr>nd_node_id = u ''node-1'', nd_host = u ''127.0.0.1'', nd_port = 9001, nd_cpu_load = FFin (25 / 2), nd_ram_percent = FFin 40,
     nd_state = u ''ALIVE'', nd_last_seen = FFin 100, nd_peers = []\<rparr>"

theorem render_text_spec_witness:
  "\<exists>lines. render False (\<lambda>_. FFin 101) [ex_dash_node] PNone = Text (join_lines lines) \<and> length lines = 2 \<and> length (lines ! 1) = 49"
proof -
  obtain lines where "render False (\<lambda>_. FFin 101) [ex_dash_node] PNone = Text (join_lines lines)" and len: "length lines = Suc (length [ex_dash_node])"
    and row: "\<forall>i c r. i < length [ex_dash_node] \<and> nd_cpu_load ([ex_dash_node] ! i) = FFin c \<and> nd_ram_percent ([ex_dash_node] ! i) = FFin r \<longrightarrow>
       (0 \<le> c \<and> c \<le> 999 \<and> 0 \<le> r \<and> r \<le> 999 \<and> length (nd_node_id ([ex_dash_node] ! i)) \<le> 16 \<and> length (nd_state ([ex_dash_node] ! i)) \<le> 10 \<longrightarrow>
          length (lines ! Suc i) = 49)"
    using render_text_spec [of "\<lambda>_. FFin 101" "[ex_dash_node]" PNone] by blast
  moreover have "length (lines ! Suc 0) = 49"
    using row [rule_format, of 0 "25 / 2" 40] by (simp add: ex_dash_node_def u_def)
  ultimately show ?thesis
    by (intro exI [of _ lines]) simp
qed

end
