(* ===== verification/Console_Demo.thy ===== *)
theory Console_Demo
  imports Dashboard
begin

text \<open>
  \<open>week4_dashboard_demo.py\<close>: the two tables of the console demo, as they are handed to the library rich (title,
  columns, rows), and the eight rounds in which the loads of the live nodes are drawn anew. What
  \<open>random.uniform\<close> returns is an argument; the layout around the tables is the library's.
\<close>

record console_node =
  cn_id :: pystr
  cn_status :: pystr
  cn_cpu :: pyfloat
  cn_ram :: pyfloat
  cn_info :: pystr

record console_task =
  ct_id :: pystr
  ct_node :: pystr
  ct_state :: pystr
  ct_msg :: pystr

text \<open>\<open>f"[{col}]{text}[/{col}]"\<close>.\<close>

definition coloured :: "pystr \<Rightarrow> pystr \<Rightarrow> pystr" where
  "coloured col text = u ''['' @ col @ u '']'' @ text @ u ''[/'' @ col @ u '']''"

definition status_colour :: "pystr \<Rightarrow> pystr" where
  "status_colour status = (if status = u ''ALIVE'' then u ''green'' else if status = u ''SUSPECTED'' then u ''yellow'' else u ''red'')"

definition state_colour :: "pystr \<Rightarrow> pystr" where
  "state_colour state = (if state = u ''COMPLETED'' then u ''green'' else if state = u ''FAILED'' then u ''red'' else u ''blue'')"

definition node_cells :: "console_node \<Rightarrow> pystr list" where
  "node_cells n = [cn_id n, coloured (status_colour (cn_status n)) (cn_status n), format_fixed 1 (cn_cpu n), format_fixed 1 (cn_ram n), cn_info n]"

definition make_nodes_table :: "console_node list \<Rightarrow> rendering" where
  "make_nodes_table nodes =
     Rich_Table (u ''Topology & Node Metrics'') (map u [''Node ID'', ''State'', ''CPU %'', ''RAM %'', ''Details'']) (map node_cells nodes)"

definition task_cells :: "console_task \<Rightarrow> pystr list" where
  "task_cells t = [ct_id t, ct_node t, coloured (state_colour (ct_state t)) (ct_state t), ct_msg t]"

definition make_tasks_table :: "console_task list \<Rightarrow> rendering" where
  "make_tasks_table tasks =
     Rich_Table (u ''Task Queue Status'') (map u [''Task ID'', ''Assigned Node'', ''Status'', ''Message'']) (map task_cells tasks)"

definition console_nodes :: "console_node list" where
  "console_nodes =
     [\<lparr>cn_id = u ''node-101'', cn_status = u ''ALIVE'', cn_cpu = FFin 12, cn_ram = FFin 45, cn_info = u ''Leader''\<rparr>,
      \<lparr>cn_id = u ''node-102'', cn_status = u ''ALIVE'', cn_cpu = FFin (17 / 2), cn_ram = FFin 32, cn_info = u ''Worker''\<rparr>,
      \<lparr>cn_id = u ''node-103'', cn_status = u ''ALIVE'', cn_cpu = FFin 75, cn_ram = FFin 60, cn_info = u ''Worker''\<rparr>,
      \<lparr>cn_id = u ''node-104'', cn_status = u ''SUSPECTED'', cn_cpu = FFin 0, cn_ram = FFin 0, cn_info = u ''Timeout''\<rparr>]"

definition console_tasks :: "console_task list" where
  "console_tasks =
     [\<lparr>ct_id = u ''task-01'', ct_node = u ''node-102'', ct_state = u ''RUNNING'', ct_msg = u ''Processing payload...''\<rparr>,
      \<lparr>ct_id = u ''task-02'', ct_node = u ''node-103'', ct_state = u ''COMPLETED'', ct_msg = u ''Done in 1.2s''\<rparr>,
      \<lparr>ct_id = u ''task-03'', ct_node = u ''node-104'', ct_state = u ''FAILED'', ct_msg = u ''Node unreachable, re-routing''\<rparr>]"

text \<open>One draw of the loads; \<open>draw i\<close> is the pair drawn for the \<open>i\<close>-th node. Then the frames of \<open>rounds\<close> rounds.\<close>

definition redraw :: "(nat \<Rightarrow> pyfloat \<times> pyfloat) \<Rightarrow> console_node list \<Rightarrow> console_node list" where
  "redraw draw nodes =
     map (\<lambda>(i, n). if cn_status n = u ''ALIVE'' then n\<lparr>cn_cpu := fst (draw i), cn_ram := snd (draw i)\<rparr> else n) (enumerate 0 nodes)"

fun console_frames :: "nat \<Rightarrow> (nat \<Rightarrow> nat \<Rightarrow> pyfloat \<times> pyfloat) \<Rightarrow> console_node list \<Rightarrow> console_task list \<Rightarrow> (rendering \<times> rendering) list" where
  "console_frames 0 draw nodes tasks = []"
| "console_frames (Suc rounds) draw nodes tasks =
     (let nodes' = redraw (draw 0) nodes
      in (make_nodes_table nodes', make_tasks_table tasks) # console_frames rounds (\<lambda>k. draw (Suc k)) nodes' tasks)"

definition console_main :: "(nat \<Rightarrow> nat \<Rightarrow> pyfloat \<times> pyfloat) \<Rightarrow> (rendering \<times> rendering) list" where
  "console_main draw = console_frames 8 draw console_nodes console_tasks"

section \<open>What is shown\<close>

text \<open>Only the loads of live nodes change, and each frame shows the draw of its own round.\<close>

lemma redraw_redraw: "redraw draw' (redraw draw nodes) = redraw draw' nodes"
  by (rule nth_equalityI) (simp_all add: redraw_def nth_enumerate_eq split_beta)

lemma console_frames_nth:
  "k < rounds \<Longrightarrow> console_frames rounds draw nodes tasks ! k = (make_nodes_table (redraw (draw k) nodes), make_tasks_table tasks)"
proof (induction rounds arbitrary: k draw nodes)
  case (Suc rounds)
  then show ?case
    by (cases k) (simp_all add: Let_def redraw_redraw)
qed simp

lemma length_console_frames: "length (console_frames rounds draw nodes tasks) = rounds"
  by (induction rounds arbitrary: draw nodes) (simp_all add: Let_def)

lemma console_main_frames:
  "console_main draw = map (\<lambda>k. (make_nodes_table (redraw (draw k) console_nodes), make_tasks_table console_tasks)) [0..<8]"
  by (rule nth_equalityI) (simp_all add: console_main_def length_console_frames console_frames_nth)

text \<open>Different states have different colours, so a colour tells a live node and a completed task apart from the others.\<close>

lemma green_iff: "status_colour status = u ''green'' \<longleftrightarrow> status = u ''ALIVE''" "state_colour state = u ''green'' \<longleftrightarrow> state = u ''COMPLETED''"
  by (simp_all add: status_colour_def state_colour_def)

end
