(* ===== verification/Network.thy ===== *)
theory Network
  imports Task_Signing Mesh_Node
begin

text \<open>
  \<open>meshweaver/network.py\<close>: the UDP control-plane protocol with correlated requests. The asyncio side is
  explicit: a call of \<open>send_request\<close> creates a future and waits for it, and the futures of all calls so far
  are kept in a list, so that \<open>pending_requests\<close> maps a request ID to the index of a future. A coroutine that
  waits is resumed in a step of its own, after its future was completed by a datagram, by
  \<open>connection_lost\<close>, or cancelled by the timeout of \<open>wait_for\<close> or by a cancellation of the calling task.

  Addresses have an arbitrary type \<open>'a\<close>. The callbacks \<open>on_message\<close> and \<open>on_node_seen\<close> are optional functions
  that thread a world \<open>'w\<close> and may raise; they do not call back into the protocol. Clock readings and the
  UUID of a request are arguments.
\<close>

datatype future = FPending | FResult pydict | FException pyexc | FCancelled pyexc

record request =
  rq_id :: pystr
  rq_future :: future
  rq_outcome :: "pydict res option"

record 'a network_protocol =
  np_node :: node
  np_transport :: bool
  np_sent :: "(bytes \<times> 'a) list"
  np_pending :: "(pystr \<times> nat) list"
  np_last_seen :: "(pystr \<times> pyfloat) list"
  np_requests :: "request list"

type_synonym ('a, 'w) net_callback = "pydict \<Rightarrow> 'a \<Rightarrow> 'w \<Rightarrow> unit res \<times> 'w"

record ('a, 'w) net_callbacks =
  on_message :: "('a, 'w) net_callback option"
  on_node_seen :: "('a, 'w) net_callback option"

definition NetworkProtocol :: "node \<Rightarrow> 'a network_protocol" where
  "NetworkProtocol n = \<lparr>np_node = n, np_transport = False, np_sent = [], np_pending = [], np_last_seen = [], np_requests = []\<rparr>"

text \<open>\<open>connection_made\<close>, with the port of the socket when the transport knows its address.\<close>

definition connection_made :: "'a network_protocol \<Rightarrow> int option \<Rightarrow> 'a network_protocol" where
  "connection_made s sockport =
     (let s1 = s\<lparr>np_transport := True\<rparr> in
      case sockport of None \<Rightarrow> s1 | Some p \<Rightarrow> s1\<lparr>np_node := (np_node s1)\<lparr>nd_port := p\<rparr>\<rparr>)"

definition np_send :: "'a network_protocol \<Rightarrow> pydict \<Rightarrow> 'a \<Rightarrow> unit res \<times> 'a network_protocol" where
  "np_send s message address =
     (if \<not> np_transport s then (Inl ConnectionError, s)
      else
        (case encode_message message of
           Inl e \<Rightarrow> (Inl e, s)
         | Inr data \<Rightarrow> (Inr (), s\<lparr>np_sent := np_sent s @ [(data, address)]\<rparr>)))"

text \<open>Sending a message whose construction may raise.\<close>

definition send_created :: "'a network_protocol \<Rightarrow> pydict res \<Rightarrow> 'a \<Rightarrow> unit res \<times> 'a network_protocol" where
  "send_created s message address = (case message of Inl e \<Rightarrow> (Inl e, s) | Inr m \<Rightarrow> np_send s m address)"

section \<open>Handlers\<close>

definition np_handle_ping :: "'a network_protocol \<Rightarrow> pydict \<Rightarrow> 'a \<Rightarrow> unit res \<times> 'a network_protocol" where
  "np_handle_ping s message addr =
     send_created s (create_message MSG_PONG (nd_node_id (np_node s)) (dict_get message (u ''request_id'')) PNone) addr"

text \<open>\<open>message.get("payload", {})\<close>: a validated message has a dictionary there or nothing.\<close>

definition payload_of :: "pydict \<Rightarrow> pydict" where
  "payload_of message = (case dict_get message (u ''payload'') of PDict p \<Rightarrow> p | _ \<Rightarrow> [])"

definition load_payload :: "node \<Rightarrow> pyfloat \<Rightarrow> pyval" where
  "load_payload n now = PDict [(u ''timestamp'', PFloat now), (u ''cpu_load'', PFloat (nd_cpu_load n)),
     (u ''ram_percent'', PFloat (nd_ram_percent n))]"

definition handle_heartbeat ::
    "'a network_protocol \<Rightarrow> pyfloat \<Rightarrow> pyfloat \<Rightarrow> pydict \<Rightarrow> 'a \<Rightarrow> unit res \<times> 'a network_protocol" where
  "handle_heartbeat s t_touch t_ack message addr =
     (let payload = payload_of message in
      case touch (np_node s) t_touch (dict_get payload (u ''cpu_load'')) (dict_get payload (u ''ram_percent'')) of
        (Inl e, n) \<Rightarrow> (Inl e, s\<lparr>np_node := n\<rparr>)
      | (Inr _, n) \<Rightarrow>
          send_created (s\<lparr>np_node := n\<rparr>)
            (create_message HEARTBEAT_ACK (nd_node_id n) (dict_get message (u ''request_id'')) (load_payload n t_ack)) addr)"

definition handle_task_route_request ::
    "'a network_protocol \<Rightarrow> pyfloat \<Rightarrow> pydict \<Rightarrow> 'a \<Rightarrow> unit res \<times> 'a network_protocol" where
  "handle_task_route_request s now message addr =
     (let payload = payload_of message; task_id = dict_get payload (u ''task_id'') in
      if \<not> truthy task_id \<or> \<not> truthy (dict_get payload (u ''source_node'')) then (Inr (), s)
      else
        send_created s
          (create_message ROUTE_CANDIDATE_RESPONSE (nd_node_id (np_node s)) (dict_get message (u ''request_id''))
            (PDict [(u ''task_id'', task_id), (u ''source_node'', dict_get payload (u ''source_node'')),
              (u ''candidate_node'', PStr (nd_node_id (np_node s))),
              (u ''cpu_load'', if dict_get payload (u ''cpu_load'') = PNone then PFloat (nd_cpu_load (np_node s))
                                else dict_get payload (u ''cpu_load'')),
              (u ''timestamp'', PFloat now)])) addr)"

definition call_back :: "('a, 'w) net_callback option \<Rightarrow> pydict \<Rightarrow> 'a \<Rightarrow> 'w \<Rightarrow> unit res \<times> 'w" where
  "call_back cb message addr w = (case cb of None \<Rightarrow> (Inr (), w) | Some f \<Rightarrow> f message addr w)"

text \<open>
  The handler table. PONG and HEARTBEAT\_ACK are ignored, the two route messages and unknown types go to
  \<open>on_message\<close>, when there is one.
\<close>

definition dispatch_message ::
    "('a, 'w) net_callbacks \<Rightarrow> pyfloat \<Rightarrow> pyfloat \<Rightarrow> 'a network_protocol \<Rightarrow> pydict \<Rightarrow> 'a \<Rightarrow> 'w
      \<Rightarrow> unit res \<times> 'a network_protocol \<times> 'w" where
  "dispatch_message cbs t1 t2 s message addr w =
     (let ty = dict_get message (u ''type'') in
      if ty = PStr MSG_PING then (case np_handle_ping s message addr of (r, s') \<Rightarrow> (r, s', w))
      else if ty = PStr MSG_PONG then (Inr (), s, w)
      else if ty = PStr TASK_ROUTE_REQUEST then (case handle_task_route_request s t1 message addr of (r, s') \<Rightarrow> (r, s', w))
      else if ty = PStr HEARTBEAT then (case handle_heartbeat s t1 t2 message addr of (r, s') \<Rightarrow> (r, s', w))
      else if ty = PStr HEARTBEAT_ACK then (Inr (), s, w)
      else (case call_back (on_message cbs) message addr w of (r, w') \<Rightarrow> (r, s, w')))"

text \<open>\<open>future.set_result\<close> unless the future is done.\<close>

definition complete :: "future \<Rightarrow> request \<Rightarrow> request" where
  "complete f r = (if rq_future r = FPending then r\<lparr>rq_future := f\<rparr> else r)"

definition complete_at :: "future \<Rightarrow> nat \<Rightarrow> request list \<Rightarrow> request list" where
  "complete_at f i rs = (if i < length rs then rs[i := complete f (rs ! i)] else rs)"

text \<open>
  \<open>datagram_received\<close> in its three stages: decoding, the record of the sender with its callback, and the
  delivery to the waiting request or else to the handlers.
\<close>

definition note_sender ::
    "('a, 'w) net_callbacks \<Rightarrow> pyfloat \<Rightarrow> 'a network_protocol \<Rightarrow> pydict \<Rightarrow> 'a \<Rightarrow> 'w \<Rightarrow> unit res \<times> 'a network_protocol \<times> 'w" where
  "note_sender cbs now s message addr w =
     (case dict_get message (u ''sender_id'') of
        PStr sender_id \<Rightarrow>
          if sender_id \<noteq> [] then
            (case call_back (on_node_seen cbs) message addr w of
               (r, w1) \<Rightarrow> (r, s\<lparr>np_last_seen := AList.update sender_id now (np_last_seen s)\<rparr>, w1))
          else (Inr (), s, w)
      | _ \<Rightarrow> (Inr (), s, w))"

definition deliver_message ::
    "('a, 'w) net_callbacks \<Rightarrow> pyfloat \<Rightarrow> pyfloat \<Rightarrow> 'a network_protocol \<Rightarrow> pydict \<Rightarrow> 'a \<Rightarrow> 'w
      \<Rightarrow> unit res \<times> 'a network_protocol \<times> 'w" where
  "deliver_message cbs t1 t2 s message addr w =
     (case dict_get message (u ''request_id'') of
        PStr request_id \<Rightarrow>
          (case map_of (np_pending s) request_id of
             Some i \<Rightarrow>
               if request_id \<noteq> [] then
                 (Inr (), s\<lparr>np_pending := AList.delete request_id (np_pending s),
                            np_requests := complete_at (FResult message) i (np_requests s)\<rparr>, w)
               else dispatch_message cbs t1 t2 s message addr w
           | None \<Rightarrow> dispatch_message cbs t1 t2 s message addr w)
      | _ \<Rightarrow> dispatch_message cbs t1 t2 s message addr w)"

definition datagram_received ::
    "('a, 'w) net_callbacks \<Rightarrow> pyfloat \<Rightarrow> pyfloat \<Rightarrow> pyfloat \<Rightarrow> 'a network_protocol \<Rightarrow> bytes \<Rightarrow> 'a \<Rightarrow> 'w
      \<Rightarrow> unit res \<times> 'a network_protocol \<times> 'w" where
  "datagram_received cbs t0 t1 t2 s data addr w =
     (case decode_message data of
        Inl _ \<Rightarrow> (Inr (), s, w)
      | Inr message \<Rightarrow>
          (case note_sender cbs t0 s message addr w of
             (Inl e, s1, w1) \<Rightarrow> (Inl e, s1, w1)
           | (Inr _, s1, w1) \<Rightarrow> deliver_message cbs t1 t2 s1 message addr w1))"

section \<open>Requests\<close>

text \<open>
  \<open>send_request\<close> up to its \<open>await\<close>: the index of the future it waits for, or the exception. A failing
  \<open>_send\<close> unregisters the request again; its call has then ended with that exception.
\<close>

definition send_request ::
    "'a network_protocol \<Rightarrow> pystr \<Rightarrow> pystr \<Rightarrow> 'a \<Rightarrow> pyval \<Rightarrow> node_identity option \<Rightarrow> nat res \<times> 'a network_protocol" where
  "send_request s uuid message_type address payload signed_by =
     (case and_then (create_request uuid message_type (nd_node_id (np_node s)) payload)
             (\<lambda>request. case signed_by of None \<Rightarrow> Inr request | Some ni \<Rightarrow> ni_sign ni request) of
        Inl e \<Rightarrow> (Inl e, s)
      | Inr request \<Rightarrow>
          (let i = length (np_requests s);
               s1 = s\<lparr>np_pending := AList.update uuid i (np_pending s),
                      np_requests := np_requests s @ [\<lparr>rq_id = uuid, rq_future = FPending, rq_outcome = None\<rparr>]\<rparr>
           in case np_send s1 request address of
                (Inl e, s2) \<Rightarrow>
                  (Inl e, s2\<lparr>np_pending := AList.delete uuid (np_pending s2),
                             np_requests := (np_requests s2)[i := \<lparr>rq_id = uuid, rq_future = FPending, rq_outcome = Some (Inl e)\<rparr>]\<rparr>)
              | (Inr _, s2) \<Rightarrow> (Inr i, s2)))"

definition np_heartbeat ::
    "'a network_protocol \<Rightarrow> pystr \<Rightarrow> pyfloat \<Rightarrow> 'a \<Rightarrow> nat res \<times> 'a network_protocol" where
  "np_heartbeat s uuid now address = send_request s uuid HEARTBEAT address (load_payload (np_node s) now) None"

definition send_task_route_request ::
    "'a network_protocol \<Rightarrow> pystr \<Rightarrow> pyfloat \<Rightarrow> 'a \<Rightarrow> pyval \<Rightarrow> pyval list \<Rightarrow> node_identity option \<Rightarrow> nat res \<times> 'a network_protocol" where
  "send_task_route_request s uuid now address task_id candidates signed_by =
     send_request s uuid TASK_ROUTE_REQUEST address
       (PDict [(u ''task_id'', task_id), (u ''source_node'', PStr (nd_node_id (np_node s))), (u ''candidate_node'', PNone),
               (u ''cpu_load'', PNone), (u ''candidates'', PList candidates), (u ''timestamp'', PFloat now)]) signed_by"

text \<open>
  What ends the waiting: the timeout of \<open>wait_for\<close> or a cancellation of the task cancels a future that is
  not done. Then the coroutine is resumed: with a result it returns it; otherwise it unregisters the
  request and raises. An interruption may also come after the future was completed and before the
  coroutine is resumed (\<open>late\<close>); its exception then replaces what the future holds.
\<close>

definition wait_interrupted :: "pyexc \<Rightarrow> 'a network_protocol \<Rightarrow> nat \<Rightarrow> 'a network_protocol" where
  "wait_interrupted e s i = s\<lparr>np_requests := complete_at (FCancelled e) i (np_requests s)\<rparr>"

fun awaited :: "future \<Rightarrow> pydict res option" where
  "awaited FPending = None"
| "awaited (FResult m) = Some (Inr m)"
| "awaited (FException e) = Some (Inl e)"
| "awaited (FCancelled e) = Some (Inl e)"

definition resume_request :: "'a network_protocol \<Rightarrow> pyexc option \<Rightarrow> nat \<Rightarrow> 'a network_protocol" where
  "resume_request s late i =
     (let r = np_requests s ! i in
      if length (np_requests s) \<le> i \<or> rq_outcome r \<noteq> None then s
      else
        (case awaited (rq_future r) of
           None \<Rightarrow> s
         | Some v \<Rightarrow>
             (let v' = (case late of None \<Rightarrow> v | Some e \<Rightarrow> Inl e);
                  s1 = s\<lparr>np_requests := (np_requests s)[i := r\<lparr>rq_outcome := Some v'\<rparr>]\<rparr>
              in if isl v' then s1\<lparr>np_pending := AList.delete (rq_id r) (np_pending s1)\<rparr> else s1)))"

definition connection_lost :: "'a network_protocol \<Rightarrow> 'a network_protocol" where
  "connection_lost s =
     s\<lparr>np_requests := fold (\<lambda>(rid, i). complete_at (FException ConnectionError) i) (np_pending s) (np_requests s),
       np_pending := [], np_transport := False\<rparr>"

section \<open>Steps\<close>

text \<open>
  One step of the event loop. The UUID of a new request is none of those used before, which is what
  \<open>uuid.uuid4\<close> provides.
\<close>

inductive net_step :: "('a, 'w) net_callbacks \<Rightarrow> 'a network_protocol \<times> 'w \<Rightarrow> 'a network_protocol \<times> 'w \<Rightarrow> bool"
  for cbs where
  st_made: "net_step cbs (s, w) (connection_made s port, w)"
| st_datagram: "datagram_received cbs t0 t1 t2 s data addr w = (r, s', w') \<Longrightarrow> net_step cbs (s, w) (s', w')"
| st_request: "uuid \<noteq> [] \<Longrightarrow> uuid \<notin> rq_id ` set (np_requests s) \<Longrightarrow>
    send_request s uuid ty addr payload signed_by = (r, s') \<Longrightarrow> net_step cbs (s, w) (s', w)"
| st_interrupt: "net_step cbs (s, w) (wait_interrupted e s i, w)"
| st_resume: "net_step cbs (s, w) (resume_request s late i, w)"
| st_lost: "net_step cbs (s, w) (connection_lost s, w)"

inductive net_reachable :: "('a, 'w) net_callbacks \<Rightarrow> node \<Rightarrow> 'a network_protocol \<times> 'w \<Rightarrow> bool" for cbs n where
  nr_new: "net_reachable cbs n (NetworkProtocol n, w)"
| nr_step: "net_reachable cbs n sw \<Longrightarrow> net_step cbs sw sw' \<Longrightarrow> net_reachable cbs n sw'"

section \<open>The invariant of the request table\<close>

text \<open>A message answers a request when it carries its ID.\<close>

definition answers :: "pystr \<Rightarrow> pydict \<Rightarrow> bool" where
  "answers rid m \<longleftrightarrow> map_of m (u ''request_id'') = Some (PStr rid)"

text \<open>What holds of one request at index \<open>i\<close>, given the pending table as a map.\<close>

definition request_ok :: "(pystr \<rightharpoonup> nat) \<Rightarrow> nat \<Rightarrow> request \<Rightarrow> bool" where
  "request_ok pending i r \<longleftrightarrow>
     rq_id r \<noteq> [] \<and>
     (rq_outcome r = None \<longrightarrow> rq_future r = FPending \<longrightarrow> pending (rq_id r) = Some i) \<and>
     (pending (rq_id r) = Some i \<longrightarrow> rq_outcome r = None \<and> (rq_future r = FPending \<or> (\<exists>e. rq_future r = FCancelled e))) \<and>
     (\<forall>m. rq_future r = FResult m \<or> rq_outcome r = Some (Inr m) \<longrightarrow> answers (rq_id r) m)"

definition table_inv :: "(pystr \<rightharpoonup> nat) \<Rightarrow> request list \<Rightarrow> bool" where
  "table_inv pending rs \<longleftrightarrow>
     distinct (map rq_id rs) \<and>
     (\<forall>rid i. pending rid = Some i \<longrightarrow> i < length rs \<and> rq_id (rs ! i) = rid) \<and>
     (\<forall>i < length rs. request_ok pending i (rs ! i))"

definition net_inv :: "'a network_protocol \<Rightarrow> bool" where
  "net_inv s \<longleftrightarrow> distinct (map fst (np_pending s)) \<and> table_inv (map_of (np_pending s)) (np_requests s)"

lemma complete_fields [simp]: "rq_id (complete f r) = rq_id r" "rq_outcome (complete f r) = rq_outcome r"
  by (simp_all add: complete_def)

lemma complete_at_length [simp]: "length (complete_at f i rs) = length rs"
  by (simp add: complete_at_def)

lemma complete_at_nth: "j < length rs \<Longrightarrow> complete_at f i rs ! j = (if j = i then complete f (rs ! j) else rs ! j)"
  by (simp add: complete_at_def)

lemma request_ok_cong: "P' (rq_id r) = P (rq_id r) \<Longrightarrow> request_ok P' i r = request_ok P i r"
  by (simp add: request_ok_def)

lemma table_invD:
  assumes "table_inv P rs"
  shows "distinct (map rq_id rs)" and "P rid = Some i \<Longrightarrow> i < length rs \<and> rq_id (rs ! i) = rid"
    and "i < length rs \<Longrightarrow> request_ok P i (rs ! i)"
  using assms by (simp_all add: table_inv_def)

text \<open>Changing one request, and possibly dropping its pending entry.\<close>

lemma table_inv_update:
  assumes inv: "table_inv P rs" and i: "i < length rs" and id: "rq_id r = rq_id (rs ! i)"
    and P': "P' = P \<or> P' = P(rq_id r := None)" and ok: "request_ok P' i r"
  shows "table_inv P' (rs[i := r])"
proof -
  have ids: "map rq_id (rs[i := r]) = map rq_id rs"
    using i id by (metis list_update_id map_update)
  note dist = table_invD(1) [OF inv] and pend = table_invD(2) [OF inv]
  have "rq_id (rs ! j) \<noteq> rq_id r" if "j < length rs" "j \<noteq> i" for j
    using that i id dist by (auto simp: distinct_conv_nth)
  then have "P' (rq_id (rs ! j)) = P (rq_id (rs ! j))" if "j < length rs" "j \<noteq> i" for j
    using that P' by auto
  then have "request_ok P' j (rs ! j)" if "j < length rs" "j \<noteq> i" for j
    using that table_invD(3) [OF inv] request_ok_cong by blast
  moreover have "P' rid = Some j \<Longrightarrow> j < length rs \<and> rq_id (rs[i := r] ! j) = rid" for rid j
    using pend [of rid j] P' id i by (cases "j = i") (auto split: if_splits)
  ultimately show ?thesis
    unfolding table_inv_def ids using dist ok i by (simp add: nth_list_update)
qed

lemma table_inv_new:
  assumes inv: "table_inv P rs" and fresh: "rq_id r \<notin> rq_id ` set rs"
    and P': "P' = P(rq_id r \<mapsto> length rs) \<or> P' = P(rq_id r := None)" and ok: "request_ok P' (length rs) r"
  shows "table_inv P' (rs @ [r])"
proof -
  note pend = table_invD(2) [OF inv]
  have "rq_id (rs ! j) \<noteq> rq_id r" if "j < length rs" for j
    using that fresh by (metis image_eqI nth_mem)
  then have "P' (rq_id (rs ! j)) = P (rq_id (rs ! j))" if "j < length rs" for j
    using that P' by auto
  then have "request_ok P' j (rs ! j)" if "j < length rs" for j
    using that table_invD(3) [OF inv] request_ok_cong by blast
  moreover have "P' rid = Some j \<Longrightarrow> j < length (rs @ [r]) \<and> rq_id ((rs @ [r]) ! j) = rid" for rid j
    using pend [of rid j] P' by (auto simp: nth_append split: if_splits)
  ultimately show ?thesis
    unfolding table_inv_def using table_invD(1) [OF inv] fresh ok by (auto simp: nth_append less_Suc_eq)
qed

lemma length_fold_complete_at [simp]: "length (fold (\<lambda>(rid, i). complete_at f i) ps rs) = length rs"
  by (induction ps arbitrary: rs) auto

lemma fold_complete_at:
  assumes "f \<noteq> FPending" and "j < length rs"
  shows "fold (\<lambda>(rid, i). complete_at f i) ps rs ! j = (if j \<in> snd ` set ps then complete f (rs ! j) else rs ! j)"
  using assms(2)
proof (induction ps arbitrary: rs)
  case (Cons p ps)
  have "complete f (complete f r) = complete f r" for r
    by (simp add: complete_def)
  then show ?case
    using Cons.IH [of "complete_at f (snd p) rs"] Cons.prems by (cases p) (auto simp: complete_at_nth)
qed simp

section \<open>What the operations change\<close>

definition same_requests :: "'a network_protocol \<Rightarrow> 'a network_protocol \<Rightarrow> bool" where
  "same_requests s s' \<longleftrightarrow> np_pending s' = np_pending s \<and> np_requests s' = np_requests s"

lemma np_send_same: "same_requests s (snd (np_send s m a))"
  by (simp add: np_send_def same_requests_def split: sum.splits)

lemma send_created_same: "same_requests s (snd (send_created s m a))"
  by (cases m) (simp_all add: send_created_def np_send_same, simp add: same_requests_def)

lemma handlers_same:
  "same_requests s (snd (np_handle_ping s m a))"
  "same_requests s (snd (handle_heartbeat s t1 t2 m a))"
  "same_requests s (snd (handle_task_route_request s t1 m a))"
proof -
  show "same_requests s (snd (np_handle_ping s m a))"
    by (simp add: np_handle_ping_def send_created_same)
  show "same_requests s (snd (handle_task_route_request s t1 m a))"
    by (simp add: handle_task_route_request_def send_created_same Let_def) (simp add: same_requests_def)
  have "same_requests s (snd (send_created (s\<lparr>np_node := n\<rparr>) m' a))" for n m'
    using send_created_same [of "s\<lparr>np_node := n\<rparr>" m' a] by (simp add: same_requests_def)
  then show "same_requests s (snd (handle_heartbeat s t1 t2 m a))"
    by (simp add: handle_heartbeat_def Let_def split: prod.splits sum.splits) (simp add: same_requests_def)
qed

lemma dispatch_same: "dispatch_message cbs t1 t2 s m a w = (r, s', w') \<Longrightarrow> same_requests s s'"
  using handlers_same(1) [of s m a] handlers_same(2) [of s t1 t2 m a] handlers_same(3) [of s t1 m a]
  by (auto simp: dispatch_message_def Let_def same_requests_def split: prod.splits if_splits)

lemma note_sender_same: "note_sender cbs t s m a w = (r, s', w') \<Longrightarrow> same_requests s s'"
  by (auto simp: note_sender_def same_requests_def split: pyval.splits prod.splits if_splits)

lemma deliver_message_cases:
  assumes "deliver_message cbs t1 t2 s message addr w = (r, s', w')"
  shows "same_requests s s' \<or>
    (\<exists>rid i. rid \<noteq> [] \<and> answers rid message \<and> map_of (np_pending s) rid = Some i \<and>
       np_pending s' = AList.delete rid (np_pending s) \<and> np_requests s' = complete_at (FResult message) i (np_requests s))"
proof (cases "dict_get message (u ''request_id'')")
  case (PStr rid)
  then have "answers rid message"
    by (auto simp: answers_def dict_get_def split: option.splits)
  with assms show ?thesis
    by (auto simp: deliver_message_def PStr dest: dispatch_same split: option.splits if_splits)
qed (use assms in \<open>auto simp: deliver_message_def dest: dispatch_same\<close>)

lemma datagram_received_cases:
  assumes "datagram_received cbs t0 t1 t2 s data addr w = (r, s', w')"
  shows "same_requests s s' \<or>
    (\<exists>message rid i. decode_message data = Inr message \<and> rid \<noteq> [] \<and> answers rid message \<and> map_of (np_pending s) rid = Some i \<and>
       np_pending s' = AList.delete rid (np_pending s) \<and> np_requests s' = complete_at (FResult message) i (np_requests s))"
proof (cases "decode_message data")
  case (Inl e)
  with assms show ?thesis by (simp add: datagram_received_def same_requests_def)
next
  case (Inr message)
  obtain v s1 w1 where note1: "note_sender cbs t0 s message addr w = (v, s1, w1)" by (metis prod_cases3)
  have same: "np_pending s1 = np_pending s" "np_requests s1 = np_requests s"
    using note_sender_same [OF note1] by (simp_all add: same_requests_def)
  show ?thesis
  proof (cases v)
    case Inl
    then show ?thesis using assms same by (auto simp: datagram_received_def Inr note1 same_requests_def)
  next
    case (Inr x)
    then have "deliver_message cbs t1 t2 s1 message addr w1 = (r, s', w')"
      using assms by (simp add: datagram_received_def \<open>decode_message data = Inr message\<close> note1)
    from deliver_message_cases [OF this] show ?thesis
      using \<open>decode_message data = Inr message\<close> by (auto simp: same_requests_def same)
  qed
qed

lemma send_request_cases:
  assumes "send_request s uuid ty addr payload signed_by = (r, s')"
  shows "s' = s \<or>
    (\<exists>i. r = Inr i \<and> i = length (np_requests s) \<and> np_pending s' = AList.update uuid i (np_pending s) \<and>
       np_requests s' = np_requests s @ [\<lparr>rq_id = uuid, rq_future = FPending, rq_outcome = None\<rparr>]) \<or>
    (\<exists>e. r = Inl e \<and> np_pending s' = AList.delete uuid (np_pending s) \<and>
       np_requests s' = np_requests s @ [\<lparr>rq_id = uuid, rq_future = FPending, rq_outcome = Some (Inl e)\<rparr>])"
proof -
  have "np_send (s\<lparr>np_pending := p, np_requests := q\<rparr>) m addr = (v, s2) \<Longrightarrow> np_pending s2 = p \<and> np_requests s2 = q" for p q m v s2
    using np_send_same [of "s\<lparr>np_pending := p, np_requests := q\<rparr>" m addr] by (simp add: same_requests_def)
  with assms show ?thesis
    by (auto simp: send_request_def Let_def delete_update_same split: sum.splits prod.splits dest!: meta_spec)
qed

section \<open>Every step keeps the invariant\<close>

lemma net_inv_same: "same_requests s s' \<Longrightarrow> net_inv s \<Longrightarrow> net_inv s'"
  by (simp add: same_requests_def net_inv_def)

lemma net_inv_datagram:
  assumes "net_inv s" and "datagram_received cbs t0 t1 t2 s data addr w = (r, s', w')"
  shows "net_inv s'"
  using datagram_received_cases [OF assms(2)]
proof
  assume "same_requests s s'"
  then show ?thesis using assms(1) by (rule net_inv_same)
next
  assume "\<exists>message rid i. decode_message data = Inr message \<and> rid \<noteq> [] \<and> answers rid message \<and> map_of (np_pending s) rid = Some i \<and>
       np_pending s' = AList.delete rid (np_pending s) \<and> np_requests s' = complete_at (FResult message) i (np_requests s)"
  then obtain message rid i where ans: "answers rid message" and pend: "map_of (np_pending s) rid = Some i"
    and s': "np_pending s' = AList.delete rid (np_pending s)" "np_requests s' = complete_at (FResult message) i (np_requests s)"
    by blast
  let ?P = "map_of (np_pending s)" and ?rs = "np_requests s"
  have inv: "table_inv ?P ?rs" and dist: "distinct (map fst (np_pending s))"
    using assms(1) by (simp_all add: net_inv_def)
  have i: "i < length ?rs" and id: "rq_id (?rs ! i) = rid"
    using table_invD(2) [OF inv pend] by simp_all
  have "request_ok ?P i (?rs ! i)"
    by (rule table_invD(3) [OF inv i])
  then have "request_ok (?P(rid := None)) i (complete (FResult message) (?rs ! i))"
    using ans pend by (auto simp: request_ok_def complete_def id)
  then have "table_inv (?P(rid := None)) (?rs[i := complete (FResult message) (?rs ! i)])"
    by (intro table_inv_update [OF inv i]) (simp_all add: id)
  then show ?thesis
    using dist i by (simp add: net_inv_def s' delete_conv' distinct_delete complete_at_def)
qed

lemma net_inv_request:
  assumes "net_inv s" and "uuid \<notin> rq_id ` set (np_requests s)" and "uuid \<noteq> []"
    and "send_request s uuid ty addr payload signed_by = (r, s')"
  shows "net_inv s'"
proof -
  let ?P = "map_of (np_pending s)" and ?rs = "np_requests s"
  have inv: "table_inv ?P ?rs" and dist: "distinct (map fst (np_pending s))"
    using assms(1) by (simp_all add: net_inv_def)
  have "table_inv (?P(uuid \<mapsto> length ?rs)) (?rs @ [\<lparr>rq_id = uuid, rq_future = FPending, rq_outcome = None\<rparr>])"
    by (rule table_inv_new [OF inv]) (simp_all add: assms(2,3) request_ok_def)
  moreover have "table_inv (?P(uuid := None)) (?rs @ [\<lparr>rq_id = uuid, rq_future = FPending, rq_outcome = Some (Inl e)\<rparr>])" for e
    by (rule table_inv_new [OF inv]) (simp_all add: assms(2,3) request_ok_def)
  ultimately show ?thesis
    using send_request_cases [OF assms(4)] assms(1) dist
    by (auto simp: net_inv_def update_conv' delete_conv' distinct_update distinct_delete)
qed

lemma net_inv_interrupt: "net_inv s \<Longrightarrow> net_inv (wait_interrupted e s i)"
proof (cases "i < length (np_requests s)")
  case True
  assume inv: "net_inv s"
  let ?P = "map_of (np_pending s)" and ?rs = "np_requests s"
  have t: "table_inv ?P ?rs"
    using inv by (simp add: net_inv_def)
  have "request_ok ?P i (complete (FCancelled e) (?rs ! i))"
    using table_invD(3) [OF t True] by (auto simp: request_ok_def complete_def)
  then have "table_inv ?P (?rs[i := complete (FCancelled e) (?rs ! i)])"
    by (intro table_inv_update [OF t True]) simp_all
  with inv show ?thesis
    using True by (simp add: net_inv_def wait_interrupted_def complete_at_def)
qed (simp add: wait_interrupted_def complete_at_def)

lemma resume_request_cases:
  obtains "resume_request s late i = s"
  | v where "i < length (np_requests s)" "rq_outcome (np_requests s ! i) = None" "awaited (rq_future (np_requests s ! i)) = Some v"
      "late = None" "\<not> isl v"
      "resume_request s late i = s\<lparr>np_requests := (np_requests s)[i := (np_requests s ! i)\<lparr>rq_outcome := Some v\<rparr>]\<rparr>"
  | v where "i < length (np_requests s)" "rq_outcome (np_requests s ! i) = None" "isl v"
      "resume_request s late i = s\<lparr>np_requests := (np_requests s)[i := (np_requests s ! i)\<lparr>rq_outcome := Some v\<rparr>],
         np_pending := AList.delete (rq_id (np_requests s ! i)) (np_pending s)\<rparr>"
proof (cases "length (np_requests s) \<le> i \<or> rq_outcome (np_requests s ! i) \<noteq> None \<or> awaited (rq_future (np_requests s ! i)) = None")
  case True
  then have "resume_request s late i = s"
    by (auto simp: resume_request_def Let_def)
  then show ?thesis by (rule that(1))
next
  case False
  then obtain v where v: "awaited (rq_future (np_requests s ! i)) = Some v" by blast
  show ?thesis
  proof (cases "isl (case late of None \<Rightarrow> v | Some e \<Rightarrow> Inl e)")
    case True
    with False v show ?thesis
      by (intro that(3) [of "case late of None \<Rightarrow> v | Some e \<Rightarrow> Inl e"]) (simp_all add: resume_request_def Let_def)
  next
    case f: False
    then have "late = None" by (cases late) auto
    with f False v show ?thesis
      by (intro that(2) [of v]) (simp_all add: resume_request_def)
  qed
qed

lemma net_inv_resume:
  assumes "net_inv s"
  shows "net_inv (resume_request s late i)"
proof -
  let ?P = "map_of (np_pending s)" and ?rs = "np_requests s" and ?r = "np_requests s ! i"
  have t: "table_inv ?P ?rs" and dist: "distinct (map fst (np_pending s))"
    using assms by (simp_all add: net_inv_def)
  show ?thesis
  proof (cases rule: resume_request_cases [of s late i])
    case 1
    then show ?thesis using assms by simp
  next
    case (2 v)
    obtain m where m: "v = Inr m" "rq_future ?r = FResult m"
      using 2(3,5) by (cases "rq_future ?r") auto
    have "request_ok ?P i (?r\<lparr>rq_outcome := Some v\<rparr>)"
      using table_invD(3) [OF t 2(1)] m by (auto simp: request_ok_def)
    then have "table_inv ?P (?rs[i := ?r\<lparr>rq_outcome := Some v\<rparr>])"
      by (intro table_inv_update [OF t 2(1)]) simp_all
    then show ?thesis using dist by (simp add: net_inv_def 2(6))
  next
    case (3 v)
    have "request_ok (?P(rq_id ?r := None)) i (?r\<lparr>rq_outcome := Some v\<rparr>)"
      using table_invD(3) [OF t 3(1)] 3(3) by (auto simp: request_ok_def)
    then have "table_inv (?P(rq_id ?r := None)) (?rs[i := ?r\<lparr>rq_outcome := Some v\<rparr>])"
      by (intro table_inv_update [OF t 3(1)]) simp_all
    then show ?thesis using dist by (simp add: net_inv_def 3(4) delete_conv' distinct_delete)
  qed
qed

lemma net_inv_lost:
  assumes "net_inv s"
  shows "net_inv (connection_lost s)"
proof -
  let ?P = "map_of (np_pending s)" and ?rs = "np_requests s" and ?f = "FException ConnectionError"
  define rs' where "rs' = fold (\<lambda>(rid, i). complete_at ?f i) (np_pending s) ?rs"
  have t: "table_inv ?P ?rs"
    using assms by (simp add: net_inv_def)
  have nth: "rs' ! j = (if j \<in> snd ` set (np_pending s) then complete ?f (?rs ! j) else ?rs ! j)" if "j < length ?rs" for j
    using fold_complete_at [of ?f j ?rs "np_pending s"] that by (simp add: rs'_def)
  have len: "length rs' = length ?rs"
    by (simp add: rs'_def)
  have "map rq_id rs' = map rq_id ?rs"
    by (rule nth_equalityI) (simp_all add: len nth)
  moreover have "request_ok Map.empty j (rs' ! j)" if "j < length ?rs" for j
  proof -
    have "j \<in> snd ` set (np_pending s)" if "?P (rq_id (?rs ! j)) = Some j"
      using map_of_SomeD [OF that] by (rule rev_image_eqI) simp
    with table_invD(3) [OF t \<open>j < length ?rs\<close>] show ?thesis
      using nth [OF \<open>j < length ?rs\<close>] by (auto simp: request_ok_def complete_def)
  qed
  ultimately have "table_inv Map.empty rs'"
    using table_invD(1) [OF t] by (simp add: table_inv_def len)
  then show ?thesis
    by (simp add: net_inv_def connection_lost_def flip: rs'_def)
qed

lemma net_step_inv: "net_step cbs sw sw' \<Longrightarrow> net_inv (fst sw) \<Longrightarrow> net_inv (fst sw')"
proof (induction rule: net_step.induct)
  case (st_made s w port)
  then show ?case
    using net_inv_same [of s "connection_made s port"]
    by (simp add: same_requests_def connection_made_def Let_def split: option.splits)
next
  case (st_datagram t0 t1 t2 s data addr w r s' w')
  then show ?case using net_inv_datagram [OF _ st_datagram.hyps] by simp
next
  case (st_request uuid s ty addr payload signed_by r s' w)
  then show ?case using net_inv_request [OF _ st_request.hyps(2,1,3)] by simp
qed (simp_all add: net_inv_interrupt net_inv_resume net_inv_lost)

lemma net_reachable_inv: "net_reachable cbs n sw \<Longrightarrow> net_inv (fst sw)"
proof (induction rule: net_reachable.induct)
  case (nr_new w)
  show ?case by (simp add: NetworkProtocol_def net_inv_def table_inv_def)
next
  case (nr_step sw sw')
  then show ?case using net_step_inv by blast
qed

section \<open>The abstract view: calls that wait, return or raise\<close>

text \<open>
  What a client of \<open>send_request\<close> sees: a call waits, and then returns a message or raises, once. The
  abstract step allows any number of waiting calls to end and new calls to appear; a call that has ended
  never changes again, and what a call returns carries its request ID.
\<close>

datatype call_status = Waiting | Returned pydict | Raised pyexc

definition status_of :: "request \<Rightarrow> call_status" where
  "status_of r = (case rq_outcome r of None \<Rightarrow> Waiting | Some (Inr m) \<Rightarrow> Returned m | Some (Inl e) \<Rightarrow> Raised e)"

definition calls :: "'a network_protocol \<Rightarrow> pystr \<Rightarrow> call_status option" where
  "calls s = map_of (map (\<lambda>r. (rq_id r, status_of r)) (np_requests s))"

definition calls_step :: "(pystr \<Rightarrow> call_status option) \<Rightarrow> (pystr \<Rightarrow> call_status option) \<Rightarrow> bool" where
  "calls_step A A' \<longleftrightarrow>
     (\<forall>rid. case A rid of
        None \<Rightarrow> (case A' rid of Some (Returned m) \<Rightarrow> False | _ \<Rightarrow> True)
      | Some Waiting \<Rightarrow> (case A' rid of None \<Rightarrow> False | Some (Returned m) \<Rightarrow> answers rid m | _ \<Rightarrow> True)
      | Some st \<Rightarrow> A' rid = Some st)"

lemma calls_nth:
  assumes "distinct (map rq_id (np_requests s))" and "i < length (np_requests s)"
  shows "calls s (rq_id (np_requests s ! i)) = Some (status_of (np_requests s ! i))"
  unfolding calls_def
proof (rule map_of_is_SomeI)
  show "distinct (map fst (map (\<lambda>r. (rq_id r, status_of r)) (np_requests s)))"
    using assms(1) by (simp add: comp_def)
  show "(rq_id (np_requests s ! i), status_of (np_requests s ! i)) \<in> set (map (\<lambda>r. (rq_id r, status_of r)) (np_requests s))"
    using assms(2) by auto
qed

lemma calls_None_iff: "calls s rid = None \<longleftrightarrow> rid \<notin> rq_id ` set (np_requests s)"
  by (auto simp: calls_def map_of_eq_None_iff image_iff)

text \<open>
  How the list of requests evolves: requests are appended, none of them with a result, and the outcome of
  a waiting request may be set.
\<close>

definition evolves :: "request list \<Rightarrow> request list \<Rightarrow> bool" where
  "evolves rs rs' \<longleftrightarrow> length rs \<le> length rs' \<and>
     (\<forall>i < length rs. rq_id (rs' ! i) = rq_id (rs ! i) \<and>
        (rq_outcome (rs' ! i) = rq_outcome (rs ! i) \<or>
         rq_outcome (rs ! i) = None \<and> (\<forall>m. rq_outcome (rs' ! i) = Some (Inr m) \<longrightarrow> answers (rq_id (rs ! i)) m))) \<and>
     (\<forall>i m. length rs \<le> i \<longrightarrow> i < length rs' \<longrightarrow> rq_outcome (rs' ! i) \<noteq> Some (Inr m))"

lemma calls_stepI:
  assumes "distinct (map rq_id (np_requests s))" and "distinct (map rq_id (np_requests s'))"
    and ev: "evolves (np_requests s) (np_requests s')"
  shows "calls_step (calls s) (calls s')"
  unfolding calls_step_def
proof
  fix rid
  note old = ev [unfolded evolves_def, THEN conjunct2, THEN conjunct1, rule_format]
    and new = ev [unfolded evolves_def, THEN conjunct2, THEN conjunct2, rule_format]
    and len = ev [unfolded evolves_def, THEN conjunct1]
  show "case calls s rid of
        None \<Rightarrow> (case calls s' rid of Some (Returned m) \<Rightarrow> False | _ \<Rightarrow> True)
      | Some Waiting \<Rightarrow> (case calls s' rid of None \<Rightarrow> False | Some (Returned m) \<Rightarrow> answers rid m | _ \<Rightarrow> True)
      | Some st \<Rightarrow> calls s' rid = Some st"
  proof (cases "\<exists>i < length (np_requests s). rq_id (np_requests s ! i) = rid")
    case True
    then obtain i where i: "i < length (np_requests s)" "rq_id (np_requests s ! i) = rid" by blast
    have "calls s rid = Some (status_of (np_requests s ! i))"
      using calls_nth [OF assms(1) i(1)] i(2) by simp
    moreover have "calls s' rid = Some (status_of (np_requests s' ! i))"
      using calls_nth [OF assms(2), of i] old [OF i(1)] i len by simp
    ultimately show ?thesis
      using old [OF i(1)] i(2) by (auto simp: status_of_def split: option.splits sum.splits)
  next
    case False
    then have none: "calls s rid = None"
      by (auto simp: calls_None_iff in_set_conv_nth)
    show ?thesis
    proof (cases "calls s' rid")
      case (Some st)
      then obtain i where i: "i < length (np_requests s')" "rq_id (np_requests s' ! i) = rid"
        by (metis calls_None_iff imageE in_set_conv_nth option.distinct(1))
      have "length (np_requests s) \<le> i"
        using False old i by (metis not_le)
      then show ?thesis
        using calls_nth [OF assms(2) i(1)] new [OF _ i(1)] i(2) none
        by (auto simp: status_of_def split: option.splits sum.splits)
    qed (simp add: none)
  qed
qed

lemma evolves_refl: "evolves rs rs"
  by (simp add: evolves_def)

lemma evolves_complete_at: "evolves rs (complete_at f i rs)"
  by (simp add: evolves_def complete_at_nth)

lemma evolves_resume:
  assumes "net_inv s"
  shows "evolves (np_requests s) (np_requests (resume_request s late i))"
proof (cases rule: resume_request_cases [of s late i])
  case 1
  then show ?thesis by (simp add: evolves_refl)
next
  case (2 v)
  have "request_ok (map_of (np_pending s)) i (np_requests s ! i)"
    using assms table_invD(3) 2(1) by (auto simp: net_inv_def)
  moreover have "v = Inr m \<Longrightarrow> rq_future (np_requests s ! i) = FResult m" for m
    using 2(3) by (cases "rq_future (np_requests s ! i)") auto
  ultimately show ?thesis
    using 2(1,2) unfolding 2(6) by (auto simp: evolves_def nth_list_update request_ok_def)
next
  case (3 v)
  then show ?thesis
    by (auto simp: evolves_def nth_list_update)
qed

lemma net_step_evolves:
  assumes "net_step cbs (s, w) (s', w')" and "net_inv s"
  shows "evolves (np_requests s) (np_requests s')"
  using assms(1)
proof cases
  case (st_made port)
  then show ?thesis by (simp add: connection_made_def Let_def evolves_refl split: option.splits)
next
  case (st_datagram t0 t1 t2 data addr r)
  from datagram_received_cases [OF this] show ?thesis
    by (auto simp: same_requests_def evolves_refl evolves_complete_at)
next
  case (st_request uuid ty addr payload signed_by r)
  from send_request_cases [OF this(4)] show ?thesis
    by (auto simp: evolves_def nth_append less_Suc_eq_le)
next
  case (st_interrupt e i)
  then show ?thesis by (simp add: wait_interrupted_def evolves_complete_at)
next
  case (st_resume late i)
  then show ?thesis using evolves_resume [OF assms(2)] by simp
next
  case st_lost
  then show ?thesis by (simp add: connection_lost_def evolves_def fold_complete_at)
qed

section \<open>An example run\<close>

definition ex_node :: node where
  "ex_node = \<lparr>nd_node_id = u ''a'', nd_host = u ''127.0.0.1'', nd_port = 9000, nd_cpu_load = FFin 5, nd_ram_percent = FFin 6,
     nd_state = u ''ALIVE'', nd_last_seen = FFin 0, nd_peers = []\<rparr>"

definition ex_callbacks :: "(nat, unit) net_callbacks" where
  "ex_callbacks = \<lparr>on_message = None, on_node_seen = None\<rparr>"

text \<open>The node is connected and waits for the reply to a heartbeat.\<close>

definition ex_waiting :: "nat network_protocol" where
  "ex_waiting = snd (np_heartbeat (connection_made (NetworkProtocol ex_node) None) (u ''id1'') (FFin 1) 7)"

lemma ex_waiting_requests:
  "np_requests ex_waiting = [\<lparr>rq_id = u ''id1'', rq_future = FPending, rq_outcome = None\<rparr>]"
  "np_pending ex_waiting = [(u ''id1'', 0)]"
  by (simp_all add: ex_waiting_def np_heartbeat_def send_request_def create_request_def create_message_def connection_made_def
      NetworkProtocol_def ex_node_def np_send_def encode_message_ascii message_types load_payload_def del: json_dumps.simps)

lemma ex_waiting_reachable: "net_reachable ex_callbacks ex_node (ex_waiting, ())"
proof -
  have node: "np_node (connection_made (NetworkProtocol ex_node :: nat network_protocol) None) = ex_node"
    by (simp add: connection_made_def NetworkProtocol_def)
  have "net_reachable ex_callbacks ex_node (connection_made (NetworkProtocol ex_node) None, ())"
    by (rule nr_step [OF nr_new st_made])
  then show ?thesis
  proof (rule nr_step [OF _ st_request])
    show "send_request (connection_made (NetworkProtocol ex_node) None) (u ''id1'') HEARTBEAT 7
        (load_payload ex_node (FFin 1)) None
      = (fst (np_heartbeat (connection_made (NetworkProtocol ex_node) None) (u ''id1'') (FFin 1) (7 :: nat)), ex_waiting)"
      by (simp add: ex_waiting_def np_heartbeat_def node)
  qed (simp_all add: connection_made_def NetworkProtocol_def)
qed

text \<open>A reply to a waiting call: it is stored in the future of the call, which then returns it.\<close>

lemma waiting_reply:
  assumes reach: "net_reachable cbs n (s, w)" and i: "i < length (np_requests s)" and r: "r = np_requests s ! i"
    and wait: "rq_outcome r = None" "rq_future r = FPending"
    and dec: "decode_message data = Inr m" and ans: "map_of m (u ''request_id'') = Some (PStr (rq_id r))"
    and seen: "call_back (on_node_seen cbs) m addr w = (Inr (), w1)"
  shows "\<exists>s'. datagram_received cbs t0 t1 t2 s data addr w = (Inr (), s', w1) \<and> np_sent s' = np_sent s \<and>
      rq_outcome (np_requests (resume_request s' None i) ! i) = Some (Inr m) \<and>
      map_of (np_pending (resume_request s' None i)) (rq_id r) = None"
proof -
  have inv: "table_inv (map_of (np_pending s)) (np_requests s)"
    using net_reachable_inv [OF reach] by (simp add: net_inv_def)
  have ok: "rq_id r \<noteq> []" and pend: "map_of (np_pending s) (rq_id r) = Some i"
    using table_invD(3) [OF inv i] wait by (simp_all add: request_ok_def r)
  obtain sid where sid: "map_of m (u ''sender_id'') = Some (PStr sid)" "sid \<noteq> []"
    using decode_message_valid [OF dec] by (auto simp: validate_dict_Inr)
  define s1 where "s1 = s\<lparr>np_last_seen := AList.update sid t0 (np_last_seen s)\<rparr>"
  define s' where "s' = s1\<lparr>np_pending := AList.delete (rq_id r) (np_pending s1), np_requests := complete_at (FResult m) i (np_requests s1)\<rparr>"
  have "note_sender cbs t0 s m addr w = (Inr (), s1, w1)"
    using sid seen by (simp add: note_sender_def dict_get_def s1_def)
  moreover have "deliver_message cbs t1 t2 s1 m addr w1 = (Inr (), s', w1)"
    using ans pend ok by (simp add: deliver_message_def dict_get_def s'_def s1_def)
  ultimately have "datagram_received cbs t0 t1 t2 s data addr w = (Inr (), s', w1)"
    by (simp add: datagram_received_def dec)
  moreover have "np_requests s' ! i = r\<lparr>rq_future := FResult m\<rparr>" "length (np_requests s') = length (np_requests s)"
    "map_of (np_pending s') (rq_id r) = None" "np_sent s' = np_sent s"
    using i wait by (simp_all add: s'_def s1_def complete_at_nth complete_def r delete_conv')
  ultimately show ?thesis
    using i wait by (intro exI [of _ s']) (simp add: resume_request_def)
qed

section \<open>Properties\<close>

text \<open>
  C6. The table of pending requests in every state that any interleaving of datagrams, new requests,
  timeouts, cancellations, resumed coroutines and connection losses can reach: a call that waits and whose
  future is not done is registered under its own ID, so a reply finds it; a call that has ended is not in
  the table, so no entry outlives its call; every entry belongs to a call that still waits; and a call
  that has returned a message has returned one with its own request ID.
\<close>

theorem pending_requests_exact:
  assumes "net_reachable cbs n (s, w)"
  shows "(\<forall>i < length (np_requests s). let r = np_requests s ! i in
      (rq_outcome r = None \<and> rq_future r = FPending \<longrightarrow> map_of (np_pending s) (rq_id r) = Some i) \<and>
      (rq_outcome r \<noteq> None \<longrightarrow> map_of (np_pending s) (rq_id r) = None) \<and>
      (\<forall>m. rq_outcome r = Some (Inr m) \<longrightarrow> map_of m (u ''request_id'') = Some (PStr (rq_id r)))) \<and>
    (\<forall>(rid, i) \<in> set (np_pending s). i < length (np_requests s) \<and> rq_id (np_requests s ! i) = rid \<and>
       rq_outcome (np_requests s ! i) = None)"
proof -
  have dist: "distinct (map fst (np_pending s))" and inv: "table_inv (map_of (np_pending s)) (np_requests s)"
    using net_reachable_inv [OF assms] by (simp_all add: net_inv_def)
  note t = table_invD [OF inv]
  have ended: "map_of (np_pending s) (rq_id (np_requests s ! i)) = None"
    if "i < length (np_requests s)" "rq_outcome (np_requests s ! i) \<noteq> None" for i
  proof (rule ccontr)
    assume "map_of (np_pending s) (rq_id (np_requests s ! i)) \<noteq> None"
    then obtain j where j: "map_of (np_pending s) (rq_id (np_requests s ! i)) = Some j" by blast
    then have "j = i"
      using nth_eq_iff_index_eq [OF t(1), of j i] t(2) [OF j] that(1) by simp
    then show False
      using t(3) [OF that(1)] j that(2) by (simp add: request_ok_def)
  qed
  have entry: "i < length (np_requests s) \<and> rq_id (np_requests s ! i) = rid \<and> rq_outcome (np_requests s ! i) = None"
    if "(rid, i) \<in> set (np_pending s)" for rid i
  proof -
    have pend: "map_of (np_pending s) rid = Some i"
      using that dist by simp
    note i = t(2) [OF pend]
    then show ?thesis
      using t(3) [of i] pend by (auto simp: request_ok_def)
  qed
  show ?thesis
    using ended entry t(3) unfolding Let_def request_ok_def answers_def by blast
qed

theorem pending_requests_exact_witness:
  "map_of (np_pending ex_waiting) (u ''id1'') = Some 0 \<and> rq_outcome (np_requests ex_waiting ! 0) = None"
  using pending_requests_exact [OF ex_waiting_reachable] by (simp add: ex_waiting_requests)

text \<open>
  C4. Every step of the event loop, seen by the callers of \<open>send_request\<close>, is a step of the abstract
  machine of calls: a call that has returned or raised never changes, a waiting call may return a message
  that carries its request ID or raise, a new call cannot have returned yet, and no call disappears.
\<close>

theorem network_refines_calls:
  assumes "net_reachable cbs n (s, w)" and "net_step cbs (s, w) (s', w')"
  shows "calls_step (calls s) (calls s')"
proof (rule calls_stepI)
  have "net_inv s"
    using net_reachable_inv [OF assms(1)] by simp
  then show "distinct (map rq_id (np_requests s))" and "evolves (np_requests s) (np_requests s')"
    using net_step_evolves [OF assms(2)] by (simp_all add: net_inv_def table_inv_def)
  have "net_inv s'"
    using net_reachable_inv [OF nr_step [OF assms]] by simp
  then show "distinct (map rq_id (np_requests s'))"
    by (simp add: net_inv_def table_inv_def)
qed

theorem network_refines_calls_witness:
  "calls_step (calls ex_waiting) (calls (wait_interrupted TimeoutError ex_waiting 0))"
  by (rule network_refines_calls [OF ex_waiting_reachable st_interrupt])

text \<open>
  C5. How a waiting call ends, from any reachable state. A datagram that decodes to a message with its
  request ID, from a peer whose \<open>on_node_seen\<close> callback does not raise, is given to it and to no handler, and
  the call then returns it; a timeout makes it raise \<open>TimeoutError\<close> and the loss of the connection
  \<open>ConnectionError\<close>, in each case with its entry removed from the pending table.
\<close>

theorem waiting_call_ends:
  assumes reach: "net_reachable cbs n (s, w)" and i: "i < length (np_requests s)" and r: "r = np_requests s ! i"
    and wait: "rq_outcome r = None" "rq_future r = FPending"
    and dec: "decode_message data = Inr m" and ans: "map_of m (u ''request_id'') = Some (PStr (rq_id r))"
    and seen: "call_back (on_node_seen cbs) m addr w = (Inr (), w1)"
  shows "(\<exists>s'. datagram_received cbs t0 t1 t2 s data addr w = (Inr (), s', w1) \<and> np_sent s' = np_sent s \<and>
      rq_outcome (np_requests (resume_request s' None i) ! i) = Some (Inr m) \<and>
      map_of (np_pending (resume_request s' None i)) (rq_id r) = None) \<and>
    (let s' = resume_request (wait_interrupted TimeoutError s i) None i in
      rq_outcome (np_requests s' ! i) = Some (Inl TimeoutError) \<and> map_of (np_pending s') (rq_id r) = None) \<and>
    (let s' = resume_request (connection_lost s) None i in
      rq_outcome (np_requests s' ! i) = Some (Inl ConnectionError) \<and> np_pending s' = [])"
proof (intro conjI)
  have inv: "table_inv (map_of (np_pending s)) (np_requests s)"
    using net_reachable_inv [OF reach] by (simp add: net_inv_def)
  have pend: "map_of (np_pending s) (rq_id r) = Some i"
    using table_invD(3) [OF inv i] wait by (simp add: request_ok_def r)
  show "\<exists>s'. datagram_received cbs t0 t1 t2 s data addr w = (Inr (), s', w1) \<and> np_sent s' = np_sent s \<and>
      rq_outcome (np_requests (resume_request s' None i) ! i) = Some (Inr m) \<and>
      map_of (np_pending (resume_request s' None i)) (rq_id r) = None"
    by (rule waiting_reply [OF assms])
  show "let s' = resume_request (wait_interrupted TimeoutError s i) None i in
      rq_outcome (np_requests s' ! i) = Some (Inl TimeoutError) \<and> map_of (np_pending s') (rq_id r) = None"
    using i wait by (simp add: resume_request_def wait_interrupted_def complete_at_nth complete_def r delete_conv')
  have "i \<in> snd ` set (np_pending s)"
    using map_of_SomeD [OF pend] by (rule rev_image_eqI) simp
  then show "let s' = resume_request (connection_lost s) None i in
      rq_outcome (np_requests s' ! i) = Some (Inl ConnectionError) \<and> np_pending s' = []"
    using i wait by (simp add: resume_request_def connection_lost_def fold_complete_at complete_def r)
qed

definition ex_reply :: pydict where
  "ex_reply = [(u ''type'', PStr HEARTBEAT_ACK), (u ''sender_id'', PStr (u ''b'')), (u ''request_id'', PStr (u ''id1''))]"

theorem waiting_call_ends_witness:
  "\<exists>s'. datagram_received ex_callbacks (FFin 2) (FFin 2) (FFin 2) ex_waiting (map byte_of (json_dumps (PDict ex_reply))) 7 () = (Inr (), s', ()) \<and>
     rq_outcome (np_requests (resume_request s' None 0) ! 0) = Some (Inr (sorted_dict ex_reply))"
proof -
  have ok: "val_ok (PDict ex_reply)" and v: "validate_dict ex_reply None = Inr ()" and d: "distinct (map fst ex_reply)"
    by (simp_all add: ex_reply_def validate_dict_Inr message_types)
  have dec: "decode_message (map byte_of (json_dumps (PDict ex_reply))) = Inr (sorted_dict ex_reply)"
    using decode_encoded [OF ok] v by simp
  have ans: "map_of (sorted_dict ex_reply) (u ''request_id'') = Some (PStr (u ''id1''))"
    unfolding map_of_sorted_dict [OF d] by (simp add: ex_reply_def)
  show ?thesis
    using waiting_call_ends [OF ex_waiting_reachable _ refl _ _ dec, of 0 7 "()" "FFin 2" "FFin 2" "FFin 2"] ans
    by (auto simp: ex_waiting_requests call_back_def ex_callbacks_def)
qed

end
