(* ===== verification/Local_Demo.thy ===== *)
theory Local_Demo
  imports Network Dht Execution Monitoring
begin

text \<open>
  \<open>meshweaver/demo.py\<close>: five UDP endpoints on one machine, the selection of the least loaded node, a route
  request to it, and then the signature, execution and monitoring parts. What the creation of an endpoint
  gives (the port of its socket, or an exception), the clock readings and the answer to the route request
  are arguments. The body runs inside \<open>try ... finally\<close>: closing a transport makes the event loop call
  \<open>connection_lost\<close>. Two of its calls cannot succeed; the theorems say where it stops and that it closes
  every endpoint it opened.
\<close>

section \<open>Binding the arguments of a call\<close>

text \<open>
  A call with \<open>positional\<close> positional arguments and the given keywords, to a function with these parameters
  of which the first \<open>required\<close> have no default.
\<close>

definition bind_arguments :: "pystr list \<Rightarrow> nat \<Rightarrow> nat \<Rightarrow> pystr list \<Rightarrow> unit res" where
  "bind_arguments params required positional keywords =
     (if length params < positional then Inl TypeError
      else if list_ex (\<lambda>k. List.member (take positional params) k \<or> \<not> List.member params k) keywords then Inl TypeError
      else if list_ex (\<lambda>p. \<not> List.member (take positional params @ keywords) p) (take required params) then Inl TypeError
      else Inr ())"

definition route_request_params :: "pystr list" where
  "route_request_params = [u ''address'', u ''task_id'', u ''candidates'', u ''timeout'', u ''signed_by'']"

section \<open>The program\<close>

definition demo_mesh :: "(nat \<Rightarrow> pyfloat) \<Rightarrow> node list" where
  "demo_mesh born =
     map (\<lambda>(i, name, load). \<lparr>nd_node_id = u name, nd_host = u ''127.0.0.1'', nd_port = 0, nd_cpu_load = FFin load, nd_ram_percent = FFin 0,
        nd_state = u ''ALIVE'', nd_last_seen = born i, nd_peers = []\<rparr>)
       [(0, ''node-1'', 42), (1, ''node-2'', 12), (2, ''node-3'', 27), (3, ''node-4'', 8), (4, ''node-5'', 19)]"

type_synonym endpoint = "(pystr \<times> int) network_protocol"

text \<open>The endpoints opened so far are the result, with the exception that ended the loop, if any.\<close>

fun open_endpoints :: "(nat \<Rightarrow> int option res) \<Rightarrow> nat \<Rightarrow> node list \<Rightarrow> endpoint list \<Rightarrow> unit res \<times> endpoint list" where
  "open_endpoints create i [] networks = (Inr (), networks)"
| "open_endpoints create i (n # ns) networks =
     (case create i of
        Inl e \<Rightarrow> (Inl e, networks)
      | Inr sockport \<Rightarrow> open_endpoints create (Suc i) ns (networks @ [connection_made (NetworkProtocol n) sockport]))"

definition demo_info :: "pyfloat \<Rightarrow> node \<Rightarrow> peer_info" where
  "demo_info now n =
     \<lparr>pi_node_id = nd_node_id n, pi_host = nd_host n, pi_port = nd_port n, pi_cpu_load = PFloat (nd_cpu_load n),
      pi_ram_percent = PFloat (nd_ram_percent n), pi_state = nd_state n, pi_last_seen = now\<rparr>"

definition demo_select :: "(nat \<Rightarrow> pyfloat) \<Rightarrow> node list \<Rightarrow> peer_load res" where
  "demo_select clock nodes =
     and_then (lowest_load (foldl upsert PeerTable (map (\<lambda>(i, n). demo_info (clock i) n) (enumerate 0 nodes))) (Some (u ''node-1'')))
       (\<lambda>found. case found of None \<Rightarrow> Inl AttributeError | Some selected \<Rightarrow> Inr selected)"

text \<open>
  \<open>response["type"]\<close> and \<open>response["payload"]["candidate_node"]\<close>, the signed and the tampered request, the sum, and
  the monitor: \<open>selected\<close> is a \<open>PeerLoad\<close>, which has no attribute \<open>ram_percent\<close>.
\<close>

definition show_response :: "pydict \<Rightarrow> unit res" where
  "show_response response =
     and_then (dict_item response (u ''type'')) (\<lambda>_.
     and_then (dict_item response (u ''payload'')) (\<lambda>payload.
       (case payload of PDict d \<Rightarrow> and_then (dict_item d (u ''candidate_node'')) (\<lambda>_. Inr ()) | _ \<Rightarrow> Inl TypeError)))"

definition tampered :: "pydict \<Rightarrow> pydict res" where
  "tampered message =
     and_then (dict_item message (u ''payload'')) (\<lambda>payload.
       (case payload of
          PDict d \<Rightarrow> Inr (AList.update (u ''payload'') (PDict (AList.update (u ''task_id'') (PStr (u ''tampered'')) d)) message)
        | _ \<Rightarrow> Inl TypeError))"

definition show_signature :: "(bool \<times> bool) res" where
  "show_signature =
     and_then (NodeIdentity (u ''node-1'') (map of_nat (u ''demo-shared-secret-change-me''))) (\<lambda>identity.
     and_then (ni_sign identity [(u ''type'', PStr TASK_ROUTE_REQUEST), (u ''sender_id'', PStr (u ''node-1'')),
         (u ''payload'', PDict [(u ''task_id'', PStr (u ''demo-task-001''))])]) (\<lambda>message.
     and_then (ni_verify identity message) (\<lambda>valid.
     and_then (tampered message) (\<lambda>forged.
     and_then (ni_verify identity forged) (\<lambda>accepted. Inr (valid, accepted))))))"

definition add_call :: "(unit, pyval, unit) call" where
  "add_call fn args kwargs =
     (case args of PList [PInt a, PInt b] \<Rightarrow> Inl (Returned (PInt (a + b))) | _ \<Rightarrow> Inl (Raised (u ''TypeError'') []))"

definition show_execution :: "peer_load \<Rightarrow> pyval exec_reply res" where
  "show_execution selected =
     (case register (\<lambda>_. True) (TaskManager (pl_node_id selected)) (u ''add'') () of
        (r1, manager1) \<Rightarrow> and_then r1 (\<lambda>_.
          (case tm_create manager1 [] (u ''add'') [PInt 2, PInt 3] PNone (Some (u ''demo-task-001'')) of
             (r2, manager2) \<Rightarrow> and_then r2 (\<lambda>task. fst (tm_execute add_call (\<lambda>_. Raised [] []) manager2 task)))))"

text \<open>The part after the arguments of the route request are bound; \<open>answer\<close> is what the awaited request ends with.\<close>

definition demo_rest :: "pydict res \<Rightarrow> peer_load \<Rightarrow> unit res" where
  "demo_rest answer selected =
     and_then answer (\<lambda>response.
     and_then (show_response response) (\<lambda>_.
     and_then show_signature (\<lambda>_.
     and_then (show_execution selected) (\<lambda>_. Inl AttributeError))))"

definition demo_body :: "(nat \<Rightarrow> pyfloat) \<Rightarrow> pydict res \<Rightarrow> node list \<Rightarrow> unit res" where
  "demo_body clock answer nodes =
     and_then (demo_select clock nodes) (\<lambda>selected.
     and_then (case find (\<lambda>n. nd_node_id n = pl_node_id selected) nodes of None \<Rightarrow> Inl RuntimeError | Some _ \<Rightarrow> Inr ()) (\<lambda>_.
     and_then (bind_arguments route_request_params 2 2 [u ''task_id'', u ''candidates'', u ''timeout'']) (\<lambda>_.
       demo_rest answer selected)))"

definition run_demo ::
    "(nat \<Rightarrow> pyfloat) \<Rightarrow> (nat \<Rightarrow> int option res) \<Rightarrow> (nat \<Rightarrow> pyfloat) \<Rightarrow> pydict res \<Rightarrow> unit res \<times> endpoint list" where
  "run_demo born create clock answer =
     (case open_endpoints create 0 (demo_mesh born) [] of
        (Inl e, networks) \<Rightarrow> (Inl e, map connection_lost networks)
      | (Inr _, networks) \<Rightarrow> (demo_body clock answer (map np_node networks), map connection_lost networks))"

section \<open>Where it stops\<close>

lemma open_endpoints_map:
  assumes "\<And>k. k < length ns \<Longrightarrow> create (i + k) = Inr (port k)"
  shows "open_endpoints create i ns networks = (Inr (), networks @ map (\<lambda>(k, n). connection_made (NetworkProtocol n) (port k)) (enumerate 0 ns))"
  using assms
proof (induction ns arbitrary: i networks port)
  case (Cons n ns)
  have "create i = Inr (port 0)"
    using Cons.prems [of 0] by simp
  moreover have "open_endpoints create (Suc i) ns networks' = (Inr (), networks' @ map (\<lambda>(k, n). connection_made (NetworkProtocol n) (port (Suc k))) (enumerate 0 ns))" for networks'
    using Cons.prems [of "Suc _"] by (intro Cons.IH) simp
  ultimately show ?case
    by (simp add: enumerate_Suc_eq comp_def split_beta)
qed simp

lemma open_endpoints_exception:
  assumes "fst (open_endpoints create i ns networks) = Inl e"
  shows "\<exists>k < length ns. create (i + k) = Inl e"
  using assms
proof (induction ns arbitrary: i networks)
  case (Cons n ns)
  show ?case
  proof (cases "create i")
    case (Inl e')
    then show ?thesis using Cons.prems by (intro exI [of _ 0]) simp
  next
    case (Inr port)
    then obtain k where "k < length ns" "create (Suc i + k) = Inl e"
      using Cons.IH [of "Suc i"] Cons.prems by auto
    then show ?thesis by (intro exI [of _ "Suc k"]) simp
  qed
qed simp

lemma open_endpoints_created:
  assumes "fst (open_endpoints create i ns networks) = Inr ()" and "k < length ns"
  shows "\<exists>port. create (i + k) = Inr port"
  using assms
proof (induction ns arbitrary: i networks k)
  case (Cons n ns)
  then show ?case
    using Cons.IH [of "Suc i" _ "k - 1"] by (cases k) (auto split: sum.splits)
qed simp

lemma np_node_made [simp]:
  "np_node (connection_made (NetworkProtocol n) port) = (case port of None \<Rightarrow> n | Some p \<Rightarrow> n\<lparr>nd_port := p\<rparr>)"
  by (simp add: connection_made_def NetworkProtocol_def split: option.split)

text \<open>The node that is selected is node-4, whatever the ports and the clock.\<close>

definition with_ports :: "(nat \<Rightarrow> int) \<Rightarrow> node list \<Rightarrow> node list" where
  "with_ports port ns = map (\<lambda>(k, n). n\<lparr>nd_port := port k\<rparr>) (enumerate 0 ns)"

lemma demo_selects:
  "\<exists>selected. demo_select clock (with_ports port (demo_mesh born)) = Inr selected \<and> pl_node_id selected = u ''node-4''"
  by (simp add: demo_select_def demo_mesh_def with_ports_def demo_info_def lowest_load_def select_lowest_load_def PeerTable_def upsert_def
      info_load_def is_available_def load_key_def py_float_def feq_def fval_def min_by_def)

lemma demo_arguments: "bind_arguments route_request_params 2 2 [u ''task_id'', u ''candidates'', u ''timeout''] = Inl TypeError"
  by (simp add: bind_arguments_def route_request_params_def)

lemma demo_nodes_made:
  "map np_node (map (\<lambda>(k, n). connection_made (NetworkProtocol n) (port k)) (enumerate 0 (demo_mesh born)))
    = with_ports (\<lambda>k. case port k of None \<Rightarrow> 0 | Some p \<Rightarrow> p) (demo_mesh born)"
  by (simp add: demo_mesh_def with_ports_def split: option.split)

lemma demo_body_raises: "demo_body clock answer (with_ports port (demo_mesh born)) = Inl TypeError"
proof -
  obtain selected where "demo_select clock (with_ports port (demo_mesh born)) = Inr selected" "pl_node_id selected = u ''node-4''"
    using demo_selects by blast
  moreover have "find (\<lambda>n. nd_node_id n = u ''node-4'') (with_ports port (demo_mesh born)) \<noteq> None"
    by (simp add: demo_mesh_def with_ports_def)
  ultimately show ?thesis
    by (auto simp: demo_body_def demo_arguments)
qed

text \<open>
  The demo never returns. It ends with the exception of an endpoint that cannot be created or, when all five
  were created, with the \<open>TypeError\<close> of its route request, whose arguments do not fit the method: the request
  is not sent, and what follows is not run. In each case every endpoint that was opened is closed, with no
  request pending.
\<close>

theorem run_demo_stops:
  "(\<exists>e. fst (run_demo born create clock answer) = Inl e \<and> (e = TypeError \<or> (\<exists>k < 5. create k = Inl e))) \<and>
   ((\<forall>k < 5. \<not> isl (create k)) \<longrightarrow> fst (run_demo born create clock answer) = Inl TypeError) \<and>
   (\<forall>s \<in> set (snd (run_demo born create clock answer)). \<not> np_transport s \<and> np_pending s = [])"
proof -
  obtain r networks where opened: "open_endpoints create 0 (demo_mesh born) [] = (r, networks)" by fastforce
  have len: "length (demo_mesh born) = 5"
    by (simp add: demo_mesh_def)
  have closed: "\<forall>s \<in> set (snd (run_demo born create clock answer)). \<not> np_transport s \<and> np_pending s = []"
    by (auto simp: run_demo_def opened connection_lost_def split: sum.split)
  show ?thesis
  proof (cases r)
    case (Inl e)
    then obtain k where "k < 5" "create k = Inl e"
      using open_endpoints_exception [of create 0 "demo_mesh born" "[]" e] by (auto simp: opened len)
    with Inl closed show ?thesis
      by (auto simp: run_demo_def opened)
  next
    case (Inr u)
    have "\<forall>k. \<exists>port. k < 5 \<longrightarrow> create k = Inr port"
      using open_endpoints_created [of create 0 "demo_mesh born" "[]"] by (simp add: opened len Inr)
    then obtain port where port: "\<And>k. k < 5 \<Longrightarrow> create k = Inr (port k)" by metis
    have "networks = map (\<lambda>(k, n). connection_made (NetworkProtocol n) (port k)) (enumerate 0 (demo_mesh born))"
      using open_endpoints_map [of "demo_mesh born" create 0 port "[]"] port by (simp add: opened len)
    then have "fst (run_demo born create clock answer) = Inl TypeError"
      by (simp add: run_demo_def opened Inr demo_nodes_made demo_body_raises del: map_map)
    with closed show ?thesis by blast
  qed
qed

text \<open>With fitting arguments the demo would not return either: its last part reads an attribute that is missing.\<close>

lemma demo_rest_raises: "\<exists>e. demo_rest answer selected = Inl e"
proof (rule ccontr)
  assume "\<nexists>e. demo_rest answer selected = Inl e"
  then obtain x where "demo_rest answer selected = Inr x"
    by (cases "demo_rest answer selected") auto
  then show False
    by (auto simp: demo_rest_def res_simps)
qed

end
