(* ===== verification/Task_Record.thy ===== *)
theory Task_Record
  imports Json_Number
begin

text \<open>
  \<open>meshweaver/task_state.py\<close>, \<open>task_record.py\<close>, \<open>task_registry.py\<close> and \<open>task_config.py\<close>: the life of a task
  on the submitting node. The registry and its callers share the record objects, so a record lives in a
  store, the list of records created so far, and the registry maps a task id to an index of the store.
  \<open>uuid.uuid4()\<close> and \<open>time.time()\<close> are arguments; \<open>'v\<close> is the type of results.
\<close>

datatype task_state = PENDING | RUNNING | COMPLETED | FAILED

text \<open>\<open>task_config.py\<close>.\<close>

definition TASK_TIMEOUT_SECONDS :: pyfloat where
  "TASK_TIMEOUT_SECONDS = FFin 10"

definition MAX_RETRY_ATTEMPTS :: nat where
  "MAX_RETRY_ATTEMPTS = 3"

type_synonym address = "pystr \<times> int"

record 'v task_record =
  tr_task_id :: pystr
  tr_task_blob :: bytes
  tr_state :: task_state
  tr_assigned_node :: "address option"
  tr_attempt :: nat
  tr_created_at :: pyfloat
  tr_started_at :: "pyfloat option"
  tr_result :: "'v option"
  tr_error :: "pystr option"

definition TaskRecord :: "pystr \<Rightarrow> pyfloat \<Rightarrow> bytes \<Rightarrow> 'v task_record" where
  "TaskRecord uuid now blob =
     \<lparr>tr_task_id = uuid, tr_task_blob = blob, tr_state = PENDING, tr_assigned_node = None, tr_attempt = 0,
      tr_created_at = now, tr_started_at = None, tr_result = None, tr_error = None\<rparr>"

definition mark_running :: "'v task_record \<Rightarrow> address \<Rightarrow> pyfloat \<Rightarrow> 'v task_record" where
  "mark_running t node now =
     t\<lparr>tr_state := RUNNING, tr_assigned_node := Some node, tr_attempt := tr_attempt t + 1, tr_started_at := Some now\<rparr>"

definition mark_completed :: "'v task_record \<Rightarrow> 'v \<Rightarrow> 'v task_record" where
  "mark_completed t result = t\<lparr>tr_state := COMPLETED, tr_result := Some result\<rparr>"

definition mark_failed :: "'v task_record \<Rightarrow> pystr option \<Rightarrow> 'v task_record" where
  "mark_failed t error = t\<lparr>tr_state := FAILED, tr_error := error\<rparr>"

definition reset_for_retry :: "'v task_record \<Rightarrow> 'v task_record" where
  "reset_for_retry t = t\<lparr>tr_state := PENDING, tr_assigned_node := None, tr_started_at := None\<rparr>"

definition is_running_on :: "'v task_record \<Rightarrow> address \<Rightarrow> bool" where
  "is_running_on t node \<longleftrightarrow> tr_state t = RUNNING \<and> tr_assigned_node t = Some node"

section \<open>Registry\<close>

type_synonym task_ref = nat

type_synonym task_registry = "(pystr \<times> task_ref) list"

definition TaskRegistry :: task_registry where
  "TaskRegistry = []"

definition tg_add :: "'v task_record list \<Rightarrow> task_registry \<Rightarrow> task_ref \<Rightarrow> task_registry" where
  "tg_add store reg r = AList.update (tr_task_id (store ! r)) r reg"

definition tg_get :: "task_registry \<Rightarrow> pystr \<Rightarrow> task_ref option" where
  "tg_get reg task_id = map_of reg task_id"

definition tg_remove :: "task_registry \<Rightarrow> pystr \<Rightarrow> task_registry" where
  "tg_remove reg task_id = AList.delete task_id reg"

definition all_tasks :: "task_registry \<Rightarrow> task_ref list" where
  "all_tasks reg = map snd reg"

definition tasks_in_state :: "'v task_record list \<Rightarrow> task_registry \<Rightarrow> task_state \<Rightarrow> task_ref list" where
  "tasks_in_state store reg st = filter (\<lambda>r. tr_state (store ! r) = st) (all_tasks reg)"

definition running_tasks_on :: "'v task_record list \<Rightarrow> task_registry \<Rightarrow> address \<Rightarrow> task_ref list" where
  "running_tasks_on store reg node = filter (\<lambda>r. is_running_on (store ! r) node) (all_tasks reg)"

definition tg_len :: "task_registry \<Rightarrow> nat" where
  "tg_len reg = length reg"

section \<open>Histories\<close>

text \<open>The calls on a record, and the record they leave.\<close>

datatype 'v task_call =
    MarkRunning address pyfloat | MarkCompleted 'v | MarkFailed "pystr option" | ResetForRetry

fun run_call :: "'v task_record \<Rightarrow> 'v task_call \<Rightarrow> 'v task_record" where
  "run_call t (MarkRunning node now) = mark_running t node now"
| "run_call t (MarkCompleted result) = mark_completed t result"
| "run_call t (MarkFailed error) = mark_failed t error"
| "run_call t ResetForRetry = reset_for_retry t"

lemmas task_ops = mark_running_def mark_completed_def mark_failed_def reset_for_retry_def

text \<open>The steps on a store and a registry: a new record, a call on a record, registering, removing.\<close>

datatype 'v registry_op =
    NewTask pystr pyfloat bytes | CallTask task_ref "'v task_call" | AddTask task_ref | RemoveTask pystr

fun run_op :: "'v task_record list \<times> task_registry \<Rightarrow> 'v registry_op \<Rightarrow> 'v task_record list \<times> task_registry" where
  "run_op (store, reg) (NewTask uuid now blob) = (store @ [TaskRecord uuid now blob], reg)"
| "run_op (store, reg) (CallTask r c) = (store[r := run_call (store ! r) c], reg)"
| "run_op (store, reg) (AddTask r) = (if r < length store then (store, tg_add store reg r) else (store, reg))"
| "run_op (store, reg) (RemoveTask task_id) = (store, tg_remove reg task_id)"

definition registry_run :: "'v registry_op list \<Rightarrow> 'v task_record list \<times> task_registry" where
  "registry_run ops = foldl run_op ([], TaskRegistry) ops"

text \<open>What the operations keep: keys are the ids of the records they map to, once each.\<close>

definition registry_ok :: "'v task_record list \<Rightarrow> task_registry \<Rightarrow> bool" where
  "registry_ok store reg \<longleftrightarrow> distinct (map fst reg) \<and>
     (\<forall>(task_id, r) \<in> set reg. r < length store \<and> tr_task_id (store ! r) = task_id)"

lemma run_call_id [simp]: "tr_task_id (run_call t c) = tr_task_id t"
  by (cases c) (simp_all add: task_ops)

lemma registry_ok_op:
  assumes "registry_ok store reg" and "run_op (store, reg) x = (store', reg')"
  shows "registry_ok store' reg'"
proof (cases x)
  case (AddTask r)
  then show ?thesis
    using assms set_update_subset [of "tr_task_id (store ! r)" r reg]
    by (fastforce simp: registry_ok_def tg_add_def distinct_update split: if_splits)
next
  case (RemoveTask task_id)
  then show ?thesis
    using assms set_delete_subset [of task_id reg] by (fastforce simp: registry_ok_def tg_remove_def distinct_keys_delete)
next
  case (CallTask r c)
  have "tr_task_id (store[r := run_call (store ! r) c] ! i) = tr_task_id (store ! i)" if "i < length store" for i
    using that by (cases "i = r") simp_all
  then show ?thesis
    using assms CallTask by (fastforce simp: registry_ok_def)
qed (use assms in \<open>fastforce simp: registry_ok_def nth_append\<close>)

lemma registry_run_ok: "registry_run ops = (store, reg) \<Longrightarrow> registry_ok store reg"
proof (induction ops arbitrary: store reg rule: rev_induct)
  case (snoc x ops)
  obtain store0 reg0 where "registry_run ops = (store0, reg0)" by (cases "registry_run ops")
  with snoc show ?case
    by (auto simp: registry_run_def intro: registry_ok_op)
qed (simp add: registry_run_def registry_ok_def TaskRegistry_def)

lemma registry_ok_refs:
  assumes "registry_ok store reg"
  shows "distinct (all_tasks reg)" and "r \<in> set (all_tasks reg) \<longleftrightarrow> r < length store \<and> tg_get reg (tr_task_id (store ! r)) = Some r"
proof -
  have mem: "(k, r) \<in> set reg \<longleftrightarrow> r < length store \<and> k = tr_task_id (store ! r) \<and> map_of reg k = Some r" for k r
    using assms distinct_keys_map_of [of reg k r] unfolding registry_ok_def by (metis (mono_tags, lifting) case_prodD)
  have "inj_on snd (set reg)"
  proof (rule inj_onI)
    fix x y
    assume x: "x \<in> set reg" and y: "y \<in> set reg" and eq: "snd x = snd y"
    from x have "(fst x, snd x) \<in> set reg" by simp
    moreover from y have "(fst y, snd y) \<in> set reg" by simp
    ultimately show "x = y"
      using eq mem by (metis prod_eq_iff)
  qed
  moreover have "distinct reg"
    using assms by (simp add: registry_ok_def distinct_map)
  ultimately show "distinct (all_tasks reg)"
    by (simp add: all_tasks_def distinct_map)
  show "r \<in> set (all_tasks reg) \<longleftrightarrow> r < length store \<and> tg_get reg (tr_task_id (store ! r)) = Some r"
    using mem [of _ r] unfolding all_tasks_def tg_get_def set_map image_iff by (metis prod.collapse snd_conv)
qed

section \<open>Properties\<close>

text \<open>The record a history of calls leaves, read off the history.\<close>

fun history_state :: "'v task_call list \<Rightarrow> task_state" where
  "history_state [] = PENDING"
| "history_state (MarkRunning _ _ # _) = RUNNING"
| "history_state (MarkCompleted _ # _) = COMPLETED"
| "history_state (MarkFailed _ # _) = FAILED"
| "history_state (ResetForRetry # _) = PENDING"

fun history_node :: "'v task_call list \<Rightarrow> (address \<times> pyfloat) option" where
  "history_node [] = None"
| "history_node (MarkRunning node now # _) = Some (node, now)"
| "history_node (ResetForRetry # _) = None"
| "history_node (_ # cs) = history_node cs"

definition history_attempts :: "'v task_call list \<Rightarrow> nat" where
  "history_attempts cs = length (filter (\<lambda>c. case c of MarkRunning _ _ \<Rightarrow> True | _ \<Rightarrow> False) cs)"

definition history_result :: "'v task_call list \<Rightarrow> 'v option" where
  "history_result cs = (case List.map_filter (\<lambda>c. case c of MarkCompleted v \<Rightarrow> Some v | _ \<Rightarrow> None) cs of [] \<Rightarrow> None | v # _ \<Rightarrow> Some v)"

definition history_error :: "'v task_call list \<Rightarrow> pystr option" where
  "history_error cs = (case List.map_filter (\<lambda>c. case c of MarkFailed e \<Rightarrow> Some e | _ \<Rightarrow> None) cs of [] \<Rightarrow> None | e # _ \<Rightarrow> e)"

lemmas history_defs = history_attempts_def history_result_def history_error_def List.map_filter_simps

text \<open>
  C33. A task record after any calls of \<open>mark_running\<close>, \<open>mark_completed\<close>, \<open>mark_failed\<close> and \<open>reset_for_retry\<close>
  is determined by the history (latest call first): the state by the last call; node and start time by the
  last \<open>mark_running\<close> unless a reset came after it; \<open>attempt\<close> counts the \<open>mark_running\<close> calls; result and
  error are those of the last completion and the last failure, so a failure's error survives a later
  success. The id, the blob and the creation time never change.
\<close>

theorem task_record_history:
  "foldl run_call (TaskRecord uuid now blob) cs =
     \<lparr>tr_task_id = uuid, tr_task_blob = blob, tr_state = history_state (rev cs),
      tr_assigned_node = map_option fst (history_node (rev cs)), tr_attempt = history_attempts cs, tr_created_at = now,
      tr_started_at = map_option snd (history_node (rev cs)), tr_result = history_result (rev cs), tr_error = history_error (rev cs)\<rparr>"
proof (induction cs rule: rev_induct)
  case (snoc c cs)
  then show ?case
    by (cases c) (simp_all add: task_ops history_defs)
qed (simp add: TaskRecord_def history_defs)

text \<open>
  The registry a history leaves, read off the history (latest step first): the ids of the records created,
  in the order of their creation, and the record last registered under an id and not removed since.
\<close>

fun created_ids :: "'v registry_op list \<Rightarrow> pystr list" where
  "created_ids [] = []"
| "created_ids (NewTask uuid _ _ # h) = created_ids h @ [uuid]"
| "created_ids (_ # h) = created_ids h"

fun registered :: "'v registry_op list \<Rightarrow> pystr \<Rightarrow> task_ref option" where
  "registered [] task_id = None"
| "registered (AddTask r # h) task_id =
     (if r < length (created_ids h) \<and> created_ids h ! r = task_id then Some r else registered h task_id)"
| "registered (RemoveTask removed # h) task_id = (if task_id = removed then None else registered h task_id)"
| "registered (_ # h) task_id = registered h task_id"

lemma call_keeps_ids: "map tr_task_id (store[r := run_call (store ! r) c]) = map tr_task_id store"
proof (cases "r < length store")
  case True
  then show ?thesis by (auto intro!: nth_equalityI simp: nth_list_update)
qed (simp add: list_update_beyond)

lemma registry_run_history:
  assumes "registry_run ops = (store, reg)"
  shows "map tr_task_id store = created_ids (rev ops)" and "tg_get reg = registered (rev ops)"
proof -
  have "map tr_task_id store = created_ids (rev ops) \<and> tg_get reg = registered (rev ops)"
    using assms
  proof (induction ops arbitrary: store reg rule: rev_induct)
    case Nil
    then show ?case by (auto simp: registry_run_def TaskRegistry_def tg_get_def)
  next
    case (snoc x ops)
    obtain store0 reg0 where run: "registry_run ops = (store0, reg0)" by (cases "registry_run ops")
    have IH: "map tr_task_id store0 = created_ids (rev ops)" "tg_get reg0 = registered (rev ops)"
      using snoc.IH [OF run] by simp_all
    then have len: "length store0 = length (created_ids (rev ops))" and ids: "r < length store0 \<Longrightarrow> tr_task_id (store0 ! r) = created_ids (rev ops) ! r" for r
      by (metis length_map, metis nth_map)
    have "run_op (store0, reg0) x = (store, reg)"
      using snoc.prems run by (simp add: registry_run_def)
    then show ?case
      using IH len ids
      by (cases x) (auto simp: fun_eq_iff tg_get_def tg_add_def tg_remove_def update_conv' delete_conv' TaskRecord_def
          call_keeps_ids simp del: map_update split: if_splits)
  qed
  then show "map tr_task_id store = created_ids (rev ops)" and "tg_get reg = registered (rev ops)" by blast+
qed

text \<open>
  C32. A registry never loses or confuses a task, whatever the order in which records are created, changed,
  registered and removed: \<open>get\<close> returns, for every id, the record last registered under it and not removed
  since, and that record carries the id; the listed records are these, each once, and \<open>len\<close> counts the
  registered ids; the tasks in a state are the registered records that are in that state, each once; and
  the tasks running on a node are those whose state is RUNNING and whose assigned node is that node.
\<close>

theorem registry_exact:
  assumes "registry_run ops = (store, reg)"
  shows "(\<forall>task_id. tg_get reg task_id = registered (rev ops) task_id) \<and>
    map tr_task_id store = created_ids (rev ops) \<and>
    (\<forall>task_id r. registered (rev ops) task_id = Some r \<longrightarrow> r < length store \<and> tr_task_id (store ! r) = task_id) \<and>
    distinct (all_tasks reg) \<and> set (all_tasks reg) = ran (registered (rev ops)) \<and>
    tg_len reg = card (dom (registered (rev ops))) \<and>
    distinct (tasks_in_state store reg st) \<and>
    set (tasks_in_state store reg st) = {r \<in> ran (registered (rev ops)). tr_state (store ! r) = st} \<and>
    distinct (running_tasks_on store reg node) \<and>
    set (running_tasks_on store reg node) =
      {r \<in> ran (registered (rev ops)). tr_state (store ! r) = RUNNING \<and> tr_assigned_node (store ! r) = Some node}"
proof -
  note H = registry_run_history [OF assms]
  have ok: "registry_ok store reg"
    using assms by (rule registry_run_ok)
  then have keys: "distinct (map fst reg)" by (simp add: registry_ok_def)
  have get: "map_of reg = registered (rev ops)"
    using H(2) by (simp add: tg_get_def fun_eq_iff)
  have listed: "set (all_tasks reg) = ran (registered (rev ops))"
    using ran_distinct [OF keys] by (simp add: all_tasks_def get)
  moreover have "tg_len reg = card (dom (registered (rev ops)))"
    using keys distinct_card [OF keys] by (simp add: tg_len_def dom_map_of_conv_image_fst flip: get)
  moreover have "r < length store \<and> tr_task_id (store ! r) = task_id" if "registered (rev ops) task_id = Some r" for task_id r
    using ok that by (auto simp: registry_ok_def simp flip: get dest: map_of_SomeD)
  moreover note registry_ok_refs(1) [OF ok] H
  ultimately show ?thesis
    by (simp add: tasks_in_state_def running_tasks_on_def is_running_on_def)
qed

definition ex_registry_ops :: "nat registry_op list" where
  "ex_registry_ops =
     [NewTask (u ''t1'') FInf [1], NewTask (u ''t2'') FInf [2], NewTask (u ''t3'') FInf [3], AddTask 0, AddTask 1, AddTask 2,
      CallTask 1 (MarkRunning (u ''h'', 9) FInf), CallTask 0 (MarkRunning (u ''g'', 9) FInf), RemoveTask (u ''t3'')]"

theorem registry_exact_witness:
  "\<exists>store reg. registry_run ex_registry_ops = (store, reg) \<and> set (running_tasks_on store reg (u ''h'', 9)) = {1} \<and>
     tg_get reg (u ''t1'') = Some 0 \<and> tg_get reg (u ''t3'') = None \<and> set (all_tasks reg) = {0, 1}"
proof -
  obtain store reg where run: "registry_run ex_registry_ops = (store, reg)" by (cases "registry_run ex_registry_ops")
  note E = registry_exact [OF run, of _ "(u ''h'', 9)"]
  have spec: "registered (rev ex_registry_ops) = [u ''t1'' \<mapsto> 0, u ''t2'' \<mapsto> 1]"
    by (auto simp: ex_registry_ops_def fun_eq_iff)
  have recs: "map (\<lambda>t. (tr_state t, tr_assigned_node t)) store = [(RUNNING, Some (u ''g'', 9)), (RUNNING, Some (u ''h'', 9)), (PENDING, None)]"
    using run by (auto simp: ex_registry_ops_def registry_run_def TaskRecord_def task_ops)
  show ?thesis
    using run E spec recs by (intro exI [of _ store] exI [of _ reg]) (auto simp: Cons_eq_map_conv map_eq_Cons_conv)
qed

end
