(* ===== verification/Debug_Text.thy ===== *)
theory Debug_Text
  imports Task_Signing Peer_Lookup Discovery Load_Selector Task_Record Py_Format
begin

text \<open>
  The \<open>__repr__\<close> methods, whose texts end up in logs and consoles, and the \<open>TaskSigner\<close> object that holds a key
  pair. \<open>repr(x)\<close> of a string or of another value, and \<open>str(x)\<close> of a node address, are arguments. The lemmas say
  what the texts of the key holders give away.
\<close>

section \<open>The signer object\<close>

record task_signer =
  sg_keypair :: node_key_pair

text \<open>\<open>None\<close> is an argument that is no \<open>NodeKeyPair\<close>.\<close>

definition TaskSigner :: "node_key_pair option \<Rightarrow> task_signer res" where
  "TaskSigner keypair = (case keypair of None \<Rightarrow> Inl TypeError | Some kp \<Rightarrow> Inr \<lparr>sg_keypair = kp\<rparr>)"

definition signer_keypair :: "task_signer \<Rightarrow> node_key_pair" where
  "signer_keypair signer = sg_keypair signer"

definition signer_sign_request :: "task_signer \<Rightarrow> pydict \<Rightarrow> pydict res" where
  "signer_sign_request signer message = sign_request (signer_keypair signer) message"

section \<open>The texts\<close>

text \<open>The horizontal ellipsis that follows a shortened identifier.\<close>

definition ellipsis :: pystr where
  "ellipsis = [8230]"

definition short_hex :: "nat \<Rightarrow> bytes \<Rightarrow> pystr" where
  "short_hex n bs = take n (bytes_hex bs)"

definition nat_text :: "nat \<Rightarrow> pystr" where
  "nat_text n = int_repr (int n)"

definition key_pair_repr :: "node_key_pair \<Rightarrow> pystr" where
  "key_pair_repr kp = u ''NodeKeyPair(public_key='' @ short_hex 16 (kp_public_key kp) @ ellipsis @ u '')''"

definition signer_repr :: "task_signer \<Rightarrow> pystr" where
  "signer_repr signer = u ''TaskSigner(public_key='' @ short_hex 16 (kp_public_key (sg_keypair signer)) @ ellipsis @ u '')''"

definition verifier_repr :: pystr where
  "verifier_repr = u ''SignatureVerifier()''"

definition contact_repr :: "(pyval \<Rightarrow> pystr) \<Rightarrow> contact \<Rightarrow> pystr" where
  "contact_repr py_repr c = u ''KademliaContact(node_id='' @ short_hex 8 (c_node_id c) @ ellipsis @ u '', host='' @ py_repr (c_host c) @
     u '', port='' @ int_repr (c_port c) @ u '')''"

definition kbucket_repr :: "kbucket \<Rightarrow> pystr" where
  "kbucket_repr b = u ''KBucket(k='' @ int_repr (kb_k b) @ u '', contacts='' @ nat_text (length (kb_contacts b)) @ u '')''"

definition rtable_repr :: "rtable \<Rightarrow> pystr" where
  "rtable_repr rt = u ''RoutingTable(local='' @ short_hex 8 (rt_local rt) @ ellipsis @ u '', k='' @ int_repr (rt_k rt) @
     u '', contacts='' @ nat_text (rt_len rt) @ u '')''"

definition lookup_repr :: "peer_lookup \<Rightarrow> pystr" where
  "lookup_repr pl = u ''PeerLookup(local='' @ short_hex 8 (rt_local (pl_routing_table pl)) @ u ''..., k='' @ int_repr (pl_k pl) @ u '')''"

text \<open>The properties of a record are those of its contact.\<close>

definition pr_node_id :: "peer_record \<Rightarrow> bytes" where "pr_node_id r = c_node_id (pr_contact r)"
definition pr_host :: "peer_record \<Rightarrow> pyval" where "pr_host r = c_host (pr_contact r)"
definition pr_port :: "peer_record \<Rightarrow> int" where "pr_port r = c_port (pr_contact r)"

definition peer_record_repr :: "(pyval \<Rightarrow> pystr) \<Rightarrow> peer_record \<Rightarrow> pystr" where
  "peer_record_repr py_repr r = u ''PeerRecord(node_id='' @ short_hex 8 (pr_node_id r) @ ellipsis @ u '', host='' @ py_repr (pr_host r) @
     u '', port='' @ int_repr (pr_port r) @ u '', last_seen='' @ format_fixed 3 (pr_last_seen r) @ u '')''"

definition ps_len :: "peer_store \<Rightarrow> nat" where
  "ps_len s = length (ps_records s)"

definition peer_store_repr :: "peer_store \<Rightarrow> pystr" where
  "peer_store_repr s = u ''PeerStore(local='' @ short_hex 8 (ps_local s) @ ellipsis @ u '', peers='' @ nat_text (ps_len s) @ u '')''"

definition bootstrap_repr :: "bootstrap_client \<Rightarrow> pystr" where
  "bootstrap_repr c = u ''BootstrapClient(local='' @ take 8 (bc_local_id_hex c) @ ellipsis @ u '', peers_known='' @
     nat_text (peer_count (bc_peer_store c)) @ u '')''"

definition discovery_repr :: "peer_discovery \<Rightarrow> pystr" where
  "discovery_repr d = u ''PeerDiscovery(local='' @ take 8 (pd_local_id_hex d) @ ellipsis @ u '', peers_known='' @
     nat_text (peer_count (pd_peer_store d)) @ u '')''"

definition load_entry_repr :: "(pyval \<Rightarrow> pystr) \<Rightarrow> pyfloat \<Rightarrow> load_entry \<Rightarrow> pystr" where
  "load_entry_repr py_repr now e = u ''LoadEntry(node_id='' @ py_repr (PStr (le_node_id e)) @ u '', cpu='' @ format_fixed 1 (le_cpu_percent e) @
     u ''%, ram='' @ format_fixed 1 (le_ram_percent e) @ u ''%, age='' @ format_fixed 1 (age e now) @ u ''s)''"

definition selection_repr :: "(pyval \<Rightarrow> pystr) \<Rightarrow> selection_result \<Rightarrow> pystr" where
  "selection_repr py_repr r =
     u ''SelectionResult(winner='' @
     (case sr_winner r of
        Some w \<Rightarrow> py_repr (PStr (le_node_id w)) @ u '', cpu='' @ format_fixed 1 (le_cpu_percent w) @ u ''%''
      | None \<Rightarrow> u ''None'') @
     u '', candidates='' @ nat_text (length (sr_candidates r)) @ u '', stale='' @ nat_text (sr_excluded_stale r) @
     u '', local='' @ nat_text (sr_excluded_local r) @ u '')''"

definition selector_repr :: "(pyval \<Rightarrow> pystr) \<Rightarrow> load_selector \<Rightarrow> pystr" where
  "selector_repr py_repr s = u ''LoadSelector(local='' @ py_repr (PStr (ls_local_node_id s)) @ u '', stale_after='' @
     float_repr (ls_stale_after s) @ u ''s)''"

fun state_value :: "task_state \<Rightarrow> pystr" where
  "state_value PENDING = u ''PENDING''"
| "state_value RUNNING = u ''RUNNING''"
| "state_value COMPLETED = u ''COMPLETED''"
| "state_value FAILED = u ''FAILED''"

definition task_record_repr :: "(address option \<Rightarrow> pystr) \<Rightarrow> 'v task_record \<Rightarrow> pystr" where
  "task_record_repr py_str t = u ''TaskRecord(id='' @ take 8 (tr_task_id t) @ u '', state='' @ state_value (tr_state t) @ u '', attempt='' @
     nat_text (tr_attempt t) @ u '', node='' @ py_str (tr_assigned_node t) @ u '')''"

section \<open>What the texts give away\<close>

lemma take_bytes_hex: "take (2 * n) (bytes_hex bs) = bytes_hex (take n bs)"
proof (induction bs arbitrary: n)
  case (Cons b bs)
  then show ?case by (cases n) simp_all
qed simp

lemma short_hex_even: "short_hex (2 * n) bs = bytes_hex (take n bs)"
  by (simp add: short_hex_def take_bytes_hex)

lemma bytes_hex_inject: "bytes_hex as = bytes_hex bs \<longleftrightarrow> as = bs"
  by (metis fromhex_bytes_hex sum.inject(2))

text \<open>
  The texts of a key pair and of a signer tell two keys apart exactly by the first eight bytes of the public
  key: the private key has no other influence, and no more of the public key is shown.
\<close>

lemma key_pair_repr_iff: "key_pair_repr kp = key_pair_repr kp' \<longleftrightarrow> take 8 (kp_public_key kp) = take 8 (kp_public_key kp')"
  using short_hex_even [of 8] by (simp add: key_pair_repr_def bytes_hex_inject)

lemma signer_repr_iff:
  "signer_repr sg = signer_repr sg' \<longleftrightarrow> take 8 (kp_public_key (sg_keypair sg)) = take 8 (kp_public_key (sg_keypair sg'))"
  using short_hex_even [of 8] by (simp add: signer_repr_def bytes_hex_inject)

text \<open>In a consistent store the number the text shows is the number of contacts of the routing table.\<close>

lemma ps_len_count: "ps_len s = peer_count s"
  by (simp add: ps_len_def peer_count_def)

text \<open>A signer made of a key pair signs with it.\<close>

lemma signer_signs: "TaskSigner (Some kp) = Inr signer \<Longrightarrow> signer_sign_request signer message = sign_request kp message"
  by (auto simp: TaskSigner_def signer_sign_request_def signer_keypair_def)

end
