(* ===== verification/Network_Exchange.thy ===== *)
theory Network_Exchange
  imports Network Polling_Loop
begin

text \<open>
  Two nodes that talk over the UDP protocol: a request one of them sends, the reply of the other one's
  handler, and the return of the waiting call. The datagrams are the bytes the model of the codec produces,
  so the exchange goes through \<open>encode_message\<close> and \<open>decode_message\<close> on both sides.
\<close>

section \<open>The two halves of an exchange\<close>

definition wire :: "pydict \<Rightarrow> bytes" where
  "wire m = map byte_of (json_dumps (PDict m))"

lemma encode_wire: "encode_message m = Inr (wire m)"
  by (simp only: wire_def encode_message_ascii)

lemma decode_wire:
  assumes "val_ok (PDict m)" and "validate_dict m None = Inr ()"
  shows "decode_message (wire m) = Inr (sorted_dict m)"
  using decode_encoded [OF assms(1)] assms(2) by (simp add: wire_def)

lemma request_sent:
  assumes "np_transport s" and "ty \<noteq> []" and "nd_node_id (np_node s) \<noteq> []" and "uuid \<noteq> []"
    and "uuid \<notin> rq_id ` set (np_requests s)" and "net_reachable cbs n (s, w)"
  obtains q s' where "create_request uuid ty (nd_node_id (np_node s)) payload = Inr q"
    and "send_request s uuid ty addr payload None = (Inr (length (np_requests s)), s')"
    and "np_sent s' = np_sent s @ [(wire q, addr)]" and "np_node s' = np_node s" and "net_reachable cbs n (s', w)"
    and "np_requests s' = np_requests s @ [\<lparr>rq_id = uuid, rq_future = FPending, rq_outcome = None\<rparr>]"
proof -
  obtain q where q: "create_request uuid ty (nd_node_id (np_node s)) payload = Inr q"
    using assms(2,3) by (simp add: create_request_def create_message_def)
  define s' where "s' = snd (send_request s uuid ty addr payload None)"
  have send: "send_request s uuid ty addr payload None = (Inr (length (np_requests s)), s')"
    and fields: "np_sent s' = np_sent s @ [(wire q, addr)]" "np_node s' = np_node s"
      "np_requests s' = np_requests s @ [\<lparr>rq_id = uuid, rq_future = FPending, rq_outcome = None\<rparr>]"
    using assms(1) q by (simp_all add: s'_def send_request_def np_send_def encode_wire Let_def)
  have "net_reachable cbs n (s', w)"
    by (rule nr_step [OF assms(6) st_request [OF assms(4,5) send]])
  with q send fields show ?thesis by (intro that)
qed

text \<open>A datagram that no call waits for goes to the handlers, after the sender was noted.\<close>

lemma datagram_to_handler:
  assumes "decode_message data = Inr m" and "on_node_seen cbs = None"
    and "map_of m (u ''request_id'') = Some (PStr rid)" and "map_of (np_pending s) rid = None"
    and "map_of m (u ''sender_id'') = Some (PStr sid)" and "sid \<noteq> []"
  shows "datagram_received cbs t0 t1 t2 s data addr w =
    dispatch_message cbs t1 t2 (s\<lparr>np_last_seen := AList.update sid t0 (np_last_seen s)\<rparr>) m addr w"
  using assms by (simp add: datagram_received_def note_sender_def deliver_message_def call_back_def dict_get_def)

text \<open>The reply to the request that was sent last.\<close>

lemma reply_to_sent:
  assumes "net_reachable cbs n (s1, w)"
    and "np_requests s1 = rs @ [\<lparr>rq_id = uuid, rq_future = FPending, rq_outcome = None\<rparr>]"
    and "on_node_seen cbs = None" and "val_ok (PDict r)" and "validate_dict r None = Inr ()"
    and "map_of (sorted_dict r) (u ''request_id'') = Some (PStr uuid)"
  shows "\<exists>s2. datagram_received cbs t0 t1 t2 s1 (wire r) addr w = (Inr (), s2, w) \<and>
    rq_outcome (np_requests (resume_request s2 None (length rs)) ! length rs) = Some (Inr (sorted_dict r))"
  using waiting_reply [OF assms(1) _ refl _ _ decode_wire [OF assms(4,5)], of "length rs" addr w t0 t1 t2] assms(3,6)
  by (auto simp: assms(2) call_back_def)

section \<open>Two connected nodes\<close>

definition ex_net :: "string \<Rightarrow> pyfloat \<Rightarrow> nat network_protocol" where
  "ex_net n load = connection_made (NetworkProtocol (ex_node\<lparr>nd_node_id := u n, nd_cpu_load := load, nd_ram_percent := load\<rparr>)) None"

lemma ex_net_reachable: "net_reachable ex_callbacks (ex_node\<lparr>nd_node_id := u n, nd_cpu_load := load, nd_ram_percent := load\<rparr>) (ex_net n load, ())"
  unfolding ex_net_def by (rule nr_step [OF nr_new st_made])

lemma ex_net_fields [simp]: "np_transport (ex_net n load)" "np_requests (ex_net n load) = []" "np_pending (ex_net n load) = []"
  "nd_node_id (np_node (ex_net n load)) = u n" "nd_cpu_load (np_node (ex_net n load)) = load"
  "nd_ram_percent (np_node (ex_net n load)) = load" "np_sent (ex_net n load) = []" "on_node_seen ex_callbacks = None"
  by (simp_all add: ex_net_def connection_made_def NetworkProtocol_def ex_callbacks_def)

text \<open>
  What an exchange needs of its two ends, the sender \<open>s\<close> and the peer \<open>p\<close>: both are connected and named, the
  request ID is new to the sender and not awaited by the peer, all three texts survive UTF-8, and the
  \<open>on_node_seen\<close> callbacks are not set.
\<close>

definition exchange_ready :: "('a, 'w) net_callbacks \<Rightarrow> ('a, 'v) net_callbacks \<Rightarrow> pystr \<Rightarrow> 'a network_protocol \<Rightarrow> 'a network_protocol \<Rightarrow> bool" where
  "exchange_ready cbs pcbs uuid s p \<longleftrightarrow>
     np_transport s \<and> np_transport p \<and> on_node_seen cbs = None \<and> on_node_seen pcbs = None \<and>
     uuid \<noteq> [] \<and> uuid \<notin> rq_id ` set (np_requests s) \<and> map_of (np_pending p) uuid = None \<and>
     str_ok uuid \<and> str_ok (nd_node_id (np_node s)) \<and> str_ok (nd_node_id (np_node p)) \<and>
     nd_node_id (np_node s) \<noteq> [] \<and> nd_node_id (np_node p) \<noteq> []"

lemma ex_net_ready: "exchange_ready ex_callbacks ex_callbacks (u ''id1'') (ex_net ''a'' x) (ex_net ''b'' y)"
  by (simp add: exchange_ready_def)

text \<open>The peer after it has noted the sender, and a request as its handler sees it.\<close>

definition noted :: "pystr \<Rightarrow> pyfloat \<Rightarrow> 'a network_protocol \<Rightarrow> 'a network_protocol" where
  "noted sid t p = p\<lparr>np_last_seen := AList.update sid t (np_last_seen p)\<rparr>"

definition payload_value :: "pydict option \<Rightarrow> pyval" where
  "payload_value payload = (case payload of None \<Rightarrow> PNone | Some d \<Rightarrow> PDict d)"

definition is_request :: "pystr \<Rightarrow> pystr \<Rightarrow> pydict option \<Rightarrow> pydict \<Rightarrow> bool" where
  "is_request ty uuid payload m \<longleftrightarrow> dict_get m (u ''type'') = PStr ty \<and> dict_get m (u ''request_id'') = PStr uuid \<and>
     payload_of m = (case payload of None \<Rightarrow> [] | Some d \<Rightarrow> sorted_dict d)"

lemma created_request:
  assumes "create_request uuid ty sid (payload_value payload) = Inr q" and "str_ok uuid" "str_ok sid" "str_ok ty"
    and "pred_option (\<lambda>d. val_ok (PDict d)) payload"
  shows "decode_message (wire q) = Inr (sorted_dict q)" and "is_request ty uuid payload (sorted_dict q)"
    and "map_of (sorted_dict q) (u ''request_id'') = Some (PStr uuid)" and "map_of (sorted_dict q) (u ''sender_id'') = Some (PStr sid)"
proof -
  have q: "q = [(u ''type'', PStr ty), (u ''sender_id'', PStr sid), (u ''request_id'', PStr uuid)]
      @ (case payload of None \<Rightarrow> [] | Some d \<Rightarrow> [(u ''payload'', PDict d)])"
    and ne: "ty \<noteq> []" "sid \<noteq> []"
    using assms(1) by (auto simp: create_request_def create_message_def payload_value_def split: if_splits option.splits)
  have "val_ok (PDict q)" and d: "distinct (map fst q)" and "validate_dict q None = Inr ()"
    using assms(2-5) ne by (auto simp: q validate_dict_Inr split: option.split)
  then show "decode_message (wire q) = Inr (sorted_dict q)"
    by (intro decode_wire)
  show "map_of (sorted_dict q) (u ''request_id'') = Some (PStr uuid)" and "map_of (sorted_dict q) (u ''sender_id'') = Some (PStr sid)"
    unfolding map_of_sorted_dict [OF d] by (simp_all add: q)
  show "is_request ty uuid payload (sorted_dict q)"
    unfolding is_request_def payload_of_def dict_get_sorted_dict [OF d]
    by (cases payload) (simp_all add: q dict_get_def jnorm_sorted_dict del: jnorm.simps(7))
qed

text \<open>
  The exchange: when the peer's handler answers the request with one message that carries its ID, the
  waiting call returns that message.
\<close>

lemma exchange:
  assumes "net_reachable cbs n (s, w)" and "exchange_ready cbs pcbs uuid s p" and ty: "ty \<noteq> []" "str_ok ty"
    and "pred_option (\<lambda>d. val_ok (PDict d)) payload"
    and handler: "\<And>m. is_request ty uuid payload m \<Longrightarrow>
      dispatch_message pcbs t1 t2 (noted (nd_node_id (np_node s)) t0 p) m addr pw = (Inr (), p1, pw)"
    and r: "val_ok (PDict r)" "validate_dict r None = Inr ()" "map_of (sorted_dict r) (u ''request_id'') = Some (PStr uuid)"
  obtains q s1 s2 where "send_request s uuid ty paddr (payload_value payload) None = (Inr (length (np_requests s)), s1)"
    and "np_sent s1 = np_sent s @ [(q, paddr)]" and "datagram_received pcbs t0 t1 t2 p q addr pw = (Inr (), p1, pw)"
    and "datagram_received cbs t3 t4 t5 s1 (wire r) paddr w = (Inr (), s2, w)"
    and "rq_outcome (np_requests (resume_request s2 None (length (np_requests s))) ! length (np_requests s)) = Some (Inr (sorted_dict r))"
proof -
  note ready = assms(2) [unfolded exchange_ready_def]
  obtain q s1 where q: "create_request uuid ty (nd_node_id (np_node s)) (payload_value payload) = Inr q"
    and send: "send_request s uuid ty paddr (payload_value payload) None = (Inr (length (np_requests s)), s1)"
    and sent: "np_sent s1 = np_sent s @ [(wire q, paddr)]" and reach: "net_reachable cbs n (s1, w)"
    and reqs: "np_requests s1 = np_requests s @ [\<lparr>rq_id = uuid, rq_future = FPending, rq_outcome = None\<rparr>]"
    using request_sent [of s ty uuid cbs n w "payload_value payload" paddr] ready assms(1) ty(1) by metis
  have "str_ok uuid" "str_ok (nd_node_id (np_node s))"
    using ready by simp_all
  note m = created_request [OF q this ty(2) assms(5)]
  have "datagram_received pcbs t0 t1 t2 p (wire q) addr pw
      = dispatch_message pcbs t1 t2 (noted (nd_node_id (np_node s)) t0 p) (sorted_dict q) addr pw"
    unfolding noted_def using ready by (intro datagram_to_handler [OF m(1) _ m(3) _ m(4)]) simp_all
  then have peer: "datagram_received pcbs t0 t1 t2 p (wire q) addr pw = (Inr (), p1, pw)"
    using handler [OF m(2)] by simp
  have "on_node_seen cbs = None"
    using ready by simp
  then obtain s2 where "datagram_received cbs t3 t4 t5 s1 (wire r) paddr w = (Inr (), s2, w)"
    and "rq_outcome (np_requests (resume_request s2 None (length (np_requests s))) ! length (np_requests s)) = Some (Inr (sorted_dict r))"
    using reply_to_sent [OF reach reqs _ r] by blast
  with send sent peer show ?thesis by (rule that)
qed

text \<open>The message a handler answers with.\<close>

definition reply :: "pystr \<Rightarrow> pystr \<Rightarrow> pystr \<Rightarrow> pydict option \<Rightarrow> pydict" where
  "reply ty sid uuid payload = [(u ''type'', PStr ty), (u ''sender_id'', PStr sid), (u ''request_id'', PStr uuid)]
     @ (case payload of None \<Rightarrow> [] | Some d \<Rightarrow> [(u ''payload'', PDict d)])"

lemma reply_sent:
  "np_transport p \<Longrightarrow> ty \<noteq> [] \<Longrightarrow> sid \<noteq> [] \<Longrightarrow>
    send_created p (create_message ty sid (PStr uuid) (payload_value payload)) addr
      = (Inr (), p\<lparr>np_sent := np_sent p @ [(wire (reply ty sid uuid payload), addr)]\<rparr>)"
  by (cases payload) (simp_all add: create_message_def send_created_def np_send_def encode_wire payload_value_def reply_def)

lemma reply_ok:
  assumes "str_ok ty" "str_ok sid" "str_ok uuid" and "ty \<noteq> []" "sid \<noteq> []" and "pred_option (\<lambda>d. val_ok (PDict d)) payload"
  shows "val_ok (PDict (reply ty sid uuid payload))" and "validate_dict (reply ty sid uuid payload) None = Inr ()"
    and "map_of (sorted_dict (reply ty sid uuid payload)) (u ''type'') = Some (PStr ty)"
    and "map_of (sorted_dict (reply ty sid uuid payload)) (u ''sender_id'') = Some (PStr sid)"
    and "map_of (sorted_dict (reply ty sid uuid payload)) (u ''request_id'') = Some (PStr uuid)"
    and "map_of (sorted_dict (reply ty sid uuid payload)) (u ''payload'') = map_option (\<lambda>d. PDict (sorted_dict d)) payload"
proof -
  let ?r = "reply ty sid uuid payload"
  have d: "distinct (map fst ?r)"
    by (simp add: reply_def split: option.split)
  show "val_ok (PDict ?r)" and "validate_dict ?r None = Inr ()"
    using assms by (auto simp: reply_def validate_dict_Inr split: option.split)
  show "map_of (sorted_dict ?r) (u ''type'') = Some (PStr ty)" and "map_of (sorted_dict ?r) (u ''sender_id'') = Some (PStr sid)"
    and "map_of (sorted_dict ?r) (u ''request_id'') = Some (PStr uuid)"
    and "map_of (sorted_dict ?r) (u ''payload'') = map_option (\<lambda>d. PDict (sorted_dict d)) payload"
    unfolding map_of_sorted_dict [OF d] by (simp_all add: reply_def jnorm_sorted_dict del: jnorm.simps(7) split: option.split)
qed

lemma type_texts [simp]: "MSG_PING \<noteq> []" "str_ok MSG_PING" "MSG_PONG \<noteq> []" "str_ok MSG_PONG" "HEARTBEAT \<noteq> []" "str_ok HEARTBEAT"
  "HEARTBEAT_ACK \<noteq> []" "str_ok HEARTBEAT_ACK" "TASK_ROUTE_REQUEST \<noteq> []" "str_ok TASK_ROUTE_REQUEST"
  "ROUTE_CANDIDATE_RESPONSE \<noteq> []" "str_ok ROUTE_CANDIDATE_RESPONSE"
  by (simp_all add: message_types)

text \<open>A request that the peer's handler answers returns that answer.\<close>

lemma answered:
  assumes "net_reachable cbs n (s, w)" and ready: "exchange_ready cbs pcbs uuid s p"
    and types: "ty \<noteq> []" "str_ok ty" "ty' \<noteq> []" "str_ok ty'"
    and payloads: "pred_option (\<lambda>d. val_ok (PDict d)) payload" "pred_option (\<lambda>d. val_ok (PDict d)) payload'"
    and "\<And>m. is_request ty uuid payload m \<Longrightarrow>
      dispatch_message pcbs t1 t2 (noted (nd_node_id (np_node s)) t0 p) m addr pw = (Inr (), p1, pw)"
    and sent: "np_sent p1 = np_sent p @ [(wire (reply ty' (nd_node_id (np_node p)) uuid payload'), addr)]"
  shows "\<exists>i s1 q r s2 m. send_request s uuid ty paddr (payload_value payload) None = (Inr i, s1) \<and> np_sent s1 = np_sent s @ [(q, paddr)] \<and>
    datagram_received pcbs t0 t1 t2 p q addr pw = (Inr (), p1, pw) \<and> np_sent p1 = np_sent p @ [(r, addr)] \<and>
    datagram_received cbs t3 t4 t5 s1 r paddr w = (Inr (), s2, w) \<and>
    rq_outcome (np_requests (resume_request s2 None i) ! i) = Some (Inr m) \<and>
    map_of m (u ''type'') = Some (PStr ty') \<and> map_of m (u ''sender_id'') = Some (PStr (nd_node_id (np_node p))) \<and>
    map_of m (u ''payload'') = map_option (\<lambda>d. PDict (sorted_dict d)) payload'"
proof -
  let ?id = "nd_node_id (np_node p)" and ?r = "reply ty' (nd_node_id (np_node p)) uuid payload'"
  have "str_ok ?id" "str_ok uuid" "?id \<noteq> []"
    using ready by (simp_all add: exchange_ready_def)
  note r = reply_ok [OF types(4) this(1,2) types(3) this(3) payloads(2)]
  show ?thesis
    by (rule exchange [OF assms(1,2) types(1,2) payloads(1) assms(9) r(1,2,5), where paddr = paddr and ?t3.0 = t3 and ?t4.0 = t4 and ?t5.0 = t5])
      (use sent r(3,4,6) in blast)+
qed

lemma distinct_types: "HEARTBEAT \<noteq> MSG_PING" "HEARTBEAT \<noteq> MSG_PONG" "HEARTBEAT \<noteq> TASK_ROUTE_REQUEST"
    "TASK_ROUTE_REQUEST \<noteq> MSG_PING" "TASK_ROUTE_REQUEST \<noteq> MSG_PONG"
  by (simp_all add: message_types)

section \<open>A ping\<close>

text \<open>
  A PING request to a node that runs the protocol returns: the peer, whatever its state, answers the
  datagram with exactly one PONG to the sender that repeats the request ID, and the waiting call of the
  sender returns that PONG.
\<close>

theorem ping_request_returns:
  assumes "net_reachable cbs n (s, w)" and "exchange_ready cbs pcbs uuid s p"
  shows "\<exists>i s1 ping p1 pong s2 m.
      send_request s uuid MSG_PING paddr PNone None = (Inr i, s1) \<and> np_sent s1 = np_sent s @ [(ping, paddr)] \<and>
      datagram_received pcbs t0 t1 t2 p ping addr pw = (Inr (), p1, pw) \<and> np_sent p1 = np_sent p @ [(pong, addr)] \<and>
      datagram_received cbs t3 t4 t5 s1 pong paddr w = (Inr (), s2, w) \<and>
      rq_outcome (np_requests (resume_request s2 None i) ! i) = Some (Inr m) \<and>
      map_of m (u ''type'') = Some (PStr MSG_PONG) \<and> map_of m (u ''sender_id'') = Some (PStr (nd_node_id (np_node p)))"
proof -
  let ?id = "nd_node_id (np_node p)" and ?p0 = "noted (nd_node_id (np_node s)) t0 p"
  define p1 where "p1 = ?p0\<lparr>np_sent := np_sent p @ [(wire (reply MSG_PONG ?id uuid None), addr)]\<rparr>"
  have sent: "np_sent p1 = np_sent p @ [(wire (reply MSG_PONG ?id uuid None), addr)]"
    by (simp add: p1_def)
  have ok: "pred_option (\<lambda>d. val_ok (PDict d)) None"
    by simp
  have "np_transport p" "?id \<noteq> []"
    using assms(2) by (simp_all add: exchange_ready_def)
  then have "dispatch_message pcbs t1 t2 ?p0 m addr pw = (Inr (), p1, pw)" if "is_request MSG_PING uuid None m" for m
    using that reply_sent [of ?p0 MSG_PONG ?id uuid None addr]
    by (simp add: dispatch_message_def np_handle_ping_def is_request_def payload_value_def noted_def p1_def)
  from answered [OF assms type_texts(1-4) ok ok this sent, where paddr = paddr and ?t3.0 = t3 and ?t4.0 = t4 and ?t5.0 = t5]
  show ?thesis unfolding payload_value_def option.case by blast
qed

theorem ping_request_returns_witness:
  "\<exists>i s1 ping p1 pong. send_request (ex_net ''a'' (FFin 0)) (u ''id1'') MSG_PING 2 PNone None = (Inr i, s1) \<and> np_sent s1 = [(ping, 2)] \<and>
     datagram_received ex_callbacks (FFin 1) (FFin 1) (FFin 1) (ex_net ''b'' (FFin 5)) ping 1 () = (Inr (), p1, ()) \<and> np_sent p1 = [(pong, 1)]"
  using ping_request_returns [OF ex_net_reachable ex_net_ready, where x1 = "FFin 0" and y1 = "FFin 5" and paddr = 2 and addr = 1 and pw = "()"
      and ?t0.0 = "FFin 1" and ?t1.0 = "FFin 1" and ?t2.0 = "FFin 1"]
  by fastforce

section \<open>A heartbeat\<close>

text \<open>What a connected node does with a heartbeat that carries two float loads.\<close>

definition touched :: "node \<Rightarrow> pyfloat \<Rightarrow> pyfloat \<Rightarrow> pyfloat \<Rightarrow> node" where
  "touched n now c r = n\<lparr>nd_last_seen := now, nd_state := u ''ALIVE'', nd_cpu_load := c, nd_ram_percent := r\<rparr>"

definition loads :: "node \<Rightarrow> pyfloat \<Rightarrow> pydict" where
  "loads n now = [(u ''timestamp'', PFloat now), (u ''cpu_load'', PFloat (nd_cpu_load n)), (u ''ram_percent'', PFloat (nd_ram_percent n))]"

lemma load_payload_loads: "load_payload n t = payload_value (Some (loads n t))"
  by (simp add: load_payload_def payload_value_def loads_def)

lemma val_ok_loads: "val_ok (PDict (loads n t)) \<longleftrightarrow> float_ok t \<and> float_ok (nd_cpu_load n) \<and> float_ok (nd_ram_percent n)"
  by (auto simp: loads_def)

lemma sorted_loads: "dict_get (sorted_dict (loads n t)) (u ''cpu_load'') = PFloat (nd_cpu_load n)"
    "dict_get (sorted_dict (loads n t)) (u ''ram_percent'') = PFloat (nd_ram_percent n)"
    "map_of (sorted_dict (loads n t)) (u ''cpu_load'') = Some (PFloat (nd_cpu_load n))"
  by (simp_all add: loads_def dict_get_sorted_dict map_of_sorted_dict) (simp_all add: dict_get_def)

lemma heartbeat_dispatched:
  assumes "np_transport p" and "nd_node_id (np_node p) \<noteq> []" and "is_request HEARTBEAT uuid (Some (loads n t)) m"
    and "n' = touched (np_node p) t1 (nd_cpu_load n) (nd_ram_percent n)"
  shows "dispatch_message cbs t1 t2 p m addr w = (Inr (), p\<lparr>np_node := n',
    np_sent := np_sent p @ [(wire (reply HEARTBEAT_ACK (nd_node_id n') uuid (Some (loads n' t2))), addr)]\<rparr>, w)"
proof -
  have "touch (np_node p) t1 (PFloat (nd_cpu_load n)) (PFloat (nd_ram_percent n)) = (Inr (), n')"
    by (subst touch_ok [where x = "nd_cpu_load n" and y = "nd_ram_percent n"]) (simp_all add: py_float_def touched_def assms(4))
  moreover have "nd_node_id n' \<noteq> []"
    using assms(2,4) by (simp add: touched_def)
  ultimately have "handle_heartbeat p t1 t2 m addr = (Inr (), p\<lparr>np_node := n',
      np_sent := np_sent p @ [(wire (reply HEARTBEAT_ACK (nd_node_id n') uuid (Some (loads n' t2))), addr)]\<rparr>)"
    using assms(1,3) reply_sent [of "p\<lparr>np_node := n'\<rparr>" HEARTBEAT_ACK "nd_node_id n'" uuid "Some (loads n' t2)" addr]
    by (simp add: handle_heartbeat_def is_request_def sorted_loads load_payload_loads)
  then show ?thesis
    using assms(3) by (simp add: dispatch_message_def is_request_def distinct_types)
qed

text \<open>
  C29. A heartbeat to a node that runs the protocol returns an acknowledgement. The peer stores the
  \<^emph>\<open>sender's\<close> CPU load and RAM use as its own (\<open>handle_heartbeat\<close> passes the payload to \<open>node.touch\<close>), so the
  acknowledgement reports to the sender the sender's own load under the peer's name, whatever the load of
  the peer is. The loads and clock readings are floats whose JSON text reads back.
\<close>

theorem heartbeat_request_returns:
  assumes "net_reachable cbs n (s, w)" and "exchange_ready cbs pcbs uuid s p"
    and "float_ok t" and "float_ok t2" and "float_ok (nd_cpu_load (np_node s))" and "float_ok (nd_ram_percent (np_node s))"
  shows "\<exists>i s1 beat p1 ack s2 m load.
      np_heartbeat s uuid t paddr = (Inr i, s1) \<and> np_sent s1 = np_sent s @ [(beat, paddr)] \<and>
      datagram_received pcbs t0 t1 t2 p beat addr pw = (Inr (), p1, pw) \<and> np_sent p1 = np_sent p @ [(ack, addr)] \<and>
      nd_cpu_load (np_node p1) = nd_cpu_load (np_node s) \<and> nd_ram_percent (np_node p1) = nd_ram_percent (np_node s) \<and>
      datagram_received cbs t3 t4 t5 s1 ack paddr w = (Inr (), s2, w) \<and>
      rq_outcome (np_requests (resume_request s2 None i) ! i) = Some (Inr m) \<and>
      map_of m (u ''type'') = Some (PStr HEARTBEAT_ACK) \<and> map_of m (u ''sender_id'') = Some (PStr (nd_node_id (np_node p))) \<and>
      map_of m (u ''payload'') = Some (PDict load) \<and> map_of load (u ''cpu_load'') = Some (PFloat (nd_cpu_load (np_node s)))"
proof -
  let ?n = "np_node s" and ?p0 = "noted (nd_node_id (np_node s)) t0 p"
  define n' where "n' = touched (np_node p) t1 (nd_cpu_load ?n) (nd_ram_percent ?n)"
  define p1 where "p1 = ?p0\<lparr>np_node := n', np_sent := np_sent p @ [(wire (reply HEARTBEAT_ACK (nd_node_id (np_node p)) uuid (Some (loads n' t2))), addr)]\<rparr>"
  have n': "nd_node_id n' = nd_node_id (np_node p)" "nd_cpu_load n' = nd_cpu_load ?n" "nd_ram_percent n' = nd_ram_percent ?n"
    by (simp_all add: n'_def touched_def)
  have sent: "np_sent p1 = np_sent p @ [(wire (reply HEARTBEAT_ACK (nd_node_id (np_node p)) uuid (Some (loads n' t2))), addr)]"
    and node: "np_node p1 = n'"
    by (simp_all add: p1_def)
  have ok: "pred_option (\<lambda>d. val_ok (PDict d)) (Some (loads ?n t))" "pred_option (\<lambda>d. val_ok (PDict d)) (Some (loads n' t2))"
    using assms(3-6) n' by (simp_all add: val_ok_loads del: val_ok.simps)
  have "np_transport p" "nd_node_id (np_node p) \<noteq> []"
    using assms(2) by (simp_all add: exchange_ready_def)
  then have "dispatch_message pcbs t1 t2 ?p0 m addr pw = (Inr (), p1, pw)" if "is_request HEARTBEAT uuid (Some (loads ?n t)) m" for m
    using heartbeat_dispatched [of ?p0 uuid ?n t m n' t1 pcbs t2 addr pw] that n' by (simp add: p1_def noted_def n'_def)
  from answered [OF assms(1,2) type_texts(5-8) ok this sent, where paddr = paddr and ?t3.0 = t3 and ?t4.0 = t4 and ?t5.0 = t5]
  show ?thesis
    using n' node sorted_loads(3) [of n' t2] unfolding np_heartbeat_def load_payload_loads option.map by (metis (no_types))
qed

theorem heartbeat_request_returns_witness:
  "\<exists>i s1 beat p1. np_heartbeat (ex_net ''a'' (FFin 0)) (u ''id1'') (FFin 0) 2 = (Inr i, s1) \<and> np_sent s1 = [(beat, 2)] \<and>
     datagram_received ex_callbacks (FFin 1) (FFin 1) (FFin 0) (ex_net ''b'' (FFin 5)) beat 1 () = (Inr (), p1, ()) \<and>
     nd_cpu_load (np_node p1) = FFin 0"
proof -
  have "float_ok (FFin 0)" by (simp add: float_ok_def rnd_def)
  then show ?thesis
    using heartbeat_request_returns [OF ex_net_reachable ex_net_ready, where x1 = "FFin 0" and y1 = "FFin 5" and t = "FFin 0" and paddr = 2 and addr = 1
        and pw = "()" and ?t0.0 = "FFin 1" and ?t1.0 = "FFin 1" and ?t2.0 = "FFin 0"]
    by fastforce
qed

section \<open>A route request\<close>

definition route_question :: "pystr \<Rightarrow> pystr \<Rightarrow> pyval list \<Rightarrow> pyfloat \<Rightarrow> pydict" where
  "route_question tid source candidates now = [(u ''task_id'', PStr tid), (u ''source_node'', PStr source), (u ''candidate_node'', PNone),
     (u ''cpu_load'', PNone), (u ''candidates'', PList candidates), (u ''timestamp'', PFloat now)]"

definition route_answer :: "pystr \<Rightarrow> pystr \<Rightarrow> node \<Rightarrow> pyfloat \<Rightarrow> pydict" where
  "route_answer tid source n now = [(u ''task_id'', PStr tid), (u ''source_node'', PStr source), (u ''candidate_node'', PStr (nd_node_id n)),
     (u ''cpu_load'', PFloat (nd_cpu_load n)), (u ''timestamp'', PFloat now)]"

lemma sorted_question: "dict_get (sorted_dict (route_question tid source candidates t)) (u ''task_id'') = PStr tid"
    "dict_get (sorted_dict (route_question tid source candidates t)) (u ''source_node'') = PStr source"
    "dict_get (sorted_dict (route_question tid source candidates t)) (u ''cpu_load'') = PNone"
  by (simp_all add: route_question_def dict_get_sorted_dict) (simp_all add: dict_get_def)

lemma sorted_answer: "map_of (sorted_dict (route_answer tid source n t)) (u ''task_id'') = Some (PStr tid)"
    "map_of (sorted_dict (route_answer tid source n t)) (u ''source_node'') = Some (PStr source)"
    "map_of (sorted_dict (route_answer tid source n t)) (u ''candidate_node'') = Some (PStr (nd_node_id n))"
    "map_of (sorted_dict (route_answer tid source n t)) (u ''cpu_load'') = Some (PFloat (nd_cpu_load n))"
  by (simp_all add: route_answer_def map_of_sorted_dict)

lemma route_dispatched:
  assumes "np_transport p" and "nd_node_id (np_node p) \<noteq> []" and "is_request TASK_ROUTE_REQUEST uuid (Some (route_question tid source candidates t)) m"
    and "tid \<noteq> []" and "source \<noteq> []"
  shows "dispatch_message cbs t1 t2 p m addr w = (Inr (), p\<lparr>np_sent := np_sent p @
    [(wire (reply ROUTE_CANDIDATE_RESPONSE (nd_node_id (np_node p)) uuid (Some (route_answer tid source (np_node p) t1))), addr)]\<rparr>, w)"
proof -
  have "handle_task_route_request p t1 m addr = send_created p (create_message ROUTE_CANDIDATE_RESPONSE (nd_node_id (np_node p)) (PStr uuid)
      (payload_value (Some (route_answer tid source (np_node p) t1)))) addr"
    using assms(3-5) by (simp add: handle_task_route_request_def is_request_def sorted_question payload_value_def route_answer_def)
  then show ?thesis
    using assms(1-3) by (simp add: dispatch_message_def is_request_def distinct_types reply_sent)
qed

text \<open>
  C37. A route request returns the answer of the peer: the candidate it names is the peer itself, with the
  peer's own CPU load, for the task and the source node of the request. The peer's node is left as it was
  (unlike by a heartbeat). The task id and the candidates are texts that survive UTF-8, the load and the
  clock readings floats whose JSON text reads back.
\<close>

theorem route_request_returns:
  assumes "net_reachable cbs n (s, w)" and "exchange_ready cbs pcbs uuid s p"
    and "tid \<noteq> []" and "str_ok tid" and "list_all str_ok candidates"
    and "float_ok t" and "float_ok t1" and "float_ok (nd_cpu_load (np_node p))"
  shows "\<exists>i s1 question p1 answer s2 m payload.
      send_task_route_request s uuid t paddr (PStr tid) (map PStr candidates) None = (Inr i, s1) \<and> np_sent s1 = np_sent s @ [(question, paddr)] \<and>
      datagram_received pcbs t0 t1 t2 p question addr pw = (Inr (), p1, pw) \<and> np_sent p1 = np_sent p @ [(answer, addr)] \<and> np_node p1 = np_node p \<and>
      datagram_received cbs t3 t4 t5 s1 answer paddr w = (Inr (), s2, w) \<and>
      rq_outcome (np_requests (resume_request s2 None i) ! i) = Some (Inr m) \<and>
      map_of m (u ''type'') = Some (PStr ROUTE_CANDIDATE_RESPONSE) \<and> map_of m (u ''sender_id'') = Some (PStr (nd_node_id (np_node p))) \<and>
      map_of m (u ''payload'') = Some (PDict payload) \<and> map_of payload (u ''candidate_node'') = Some (PStr (nd_node_id (np_node p))) \<and>
      map_of payload (u ''cpu_load'') = Some (PFloat (nd_cpu_load (np_node p))) \<and>
      map_of payload (u ''task_id'') = Some (PStr tid) \<and> map_of payload (u ''source_node'') = Some (PStr (nd_node_id (np_node s)))"
proof -
  let ?me = "nd_node_id (np_node s)" and ?id = "nd_node_id (np_node p)" and ?p0 = "noted (nd_node_id (np_node s)) t0 p"
  let ?q = "route_question tid ?me (map PStr candidates) t" and ?a = "route_answer tid ?me (np_node p) t1"
  define p1 where "p1 = ?p0\<lparr>np_sent := np_sent p @ [(wire (reply ROUTE_CANDIDATE_RESPONSE ?id uuid (Some ?a)), addr)]\<rparr>"
  have sent: "np_sent p1 = np_sent p @ [(wire (reply ROUTE_CANDIDATE_RESPONSE ?id uuid (Some ?a)), addr)]" and node: "np_node p1 = np_node p"
    by (simp_all add: p1_def noted_def)
  have ready: "np_transport p" "?id \<noteq> []" "?me \<noteq> []" "str_ok ?me" "str_ok ?id"
    using assms(2) by (simp_all add: exchange_ready_def)
  then have ok: "pred_option (\<lambda>d. val_ok (PDict d)) (Some ?q)" "pred_option (\<lambda>d. val_ok (PDict d)) (Some ?a)"
    using assms(4-8) by (auto simp: route_question_def route_answer_def list_all_iff)
  have "dispatch_message pcbs t1 t2 ?p0 m addr pw = (Inr (), p1, pw)" if "is_request TASK_ROUTE_REQUEST uuid (Some ?q) m" for m
    using route_dispatched [of ?p0 uuid tid ?me "map PStr candidates" t m pcbs t1 t2 addr pw] that ready(1-3) assms(3)
    by (simp add: p1_def noted_def)
  from answered [OF assms(1,2) type_texts(9-12) ok this sent, where paddr = paddr and ?t3.0 = t3 and ?t4.0 = t4 and ?t5.0 = t5]
  show ?thesis
    using node sorted_answer unfolding send_task_route_request_def payload_value_def option.case option.map route_question_def by (metis (no_types))
qed

theorem route_request_returns_witness:
  "\<exists>i s1 q p1. send_task_route_request (ex_net ''a'' (FFin 3)) (u ''id1'') (FFin 0) 2 (PStr (u ''t'')) (map PStr [u ''b'']) None = (Inr i, s1) \<and>
     np_sent s1 = [(q, 2)] \<and> datagram_received ex_callbacks (FFin 1) (FFin 0) (FFin 1) (ex_net ''b'' (FFin 0)) q 1 () = (Inr (), p1, ()) \<and>
     np_node p1 = np_node (ex_net ''b'' (FFin 0))"
proof -
  have "float_ok (FFin 0)" by (simp add: float_ok_def rnd_def)
  then show ?thesis
    using route_request_returns [OF ex_net_reachable ex_net_ready, where x1 = "FFin 3" and y1 = "FFin 0" and tid = "u ''t''" and candidates = "[u ''b'']"
        and t = "FFin 0" and paddr = 2 and addr = 1 and pw = "()" and ?t0.0 = "FFin 1" and ?t1.0 = "FFin 0" and ?t2.0 = "FFin 1"]
    by fastforce
qed

section \<open>Probing a list of peers\<close>

text \<open>
  One round of \<open>heartbeat_loop\<close>: the addresses with what the awaited \<open>heartbeat\<close> calls end with, in order. A
  timeout or a connection failure is recorded as \<open>None\<close>; any other exception ends the generator.
\<close>

fun heartbeat_round :: "('a \<times> pydict res) list \<Rightarrow> ('a \<times> pydict option) list \<Rightarrow> ('a \<times> pydict option) list res" where
  "heartbeat_round [] results = Inr results"
| "heartbeat_round ((address, ended) # probes) results =
     (case ended of
        Inr response \<Rightarrow> heartbeat_round probes (AList.update address (Some response) results)
      | Inl e \<Rightarrow>
          if e = TimeoutError \<or> e = ConnectionError \<or> is_OSError e then heartbeat_round probes (AList.update address None results)
          else Inl e)"

lemma update_new_key: "k \<notin> fst ` set kvs \<Longrightarrow> AList.update k v kvs = kvs @ [(k, v)]"
  by (induction kvs) auto

lemma heartbeat_round_results:
  assumes "\<forall>(address, ended) \<in> set probes. \<forall>e. ended = Inl e \<longrightarrow> is_OSError e" and "distinct (map fst results @ map fst probes)"
  shows "heartbeat_round probes results =
    Inr (results @ map (\<lambda>(address, ended). (address, case ended of Inr response \<Rightarrow> Some response | Inl _ \<Rightarrow> None)) probes)"
  using assms
proof (induction probes arbitrary: results)
  case (Cons call probes)
  obtain address ended where call: "call = (address, ended)" by fastforce
  have "AList.update address x results = results @ [(address, x)]" for x
    using Cons.prems(2) by (intro update_new_key) (auto simp: call)
  moreover have "heartbeat_round probes (results @ [(address, x)]) = Inr ((results @ [(address, x)]) @
      map (\<lambda>(address, ended). (address, case ended of Inr response \<Rightarrow> Some response | Inl _ \<Rightarrow> None)) probes)" for x
    using Cons.prems by (intro Cons.IH) (auto simp: call)
  ultimately show ?case
    using Cons.prems(1) by (auto simp: call split: sum.split)
qed simp

text \<open>
  The generator: it yields the results of round after round and sleeps in between, until a probe ends with
  another exception. The state is the list of what was yielded.
\<close>

definition heartbeat_yield ::
    "('a \<times> pydict res) list \<Rightarrow> ('a \<times> pydict option) list list \<Rightarrow> unit res \<times> ('a \<times> pydict option) list list" where
  "heartbeat_yield probes yielded =
     (case heartbeat_round probes [] of Inl e \<Rightarrow> (Inl e, yielded) | Inr results \<Rightarrow> (Inr (), yielded @ [results]))"

definition heartbeat_loop ::
    "(nat \<Rightarrow> ('a \<times> pydict res) list) \<Rightarrow> (unit res \<times> nat \<times> ('a \<times> pydict option) list list) option" where
  "heartbeat_loop rounds = poll_from (\<lambda>_. True) heartbeat_yield (\<lambda>(_ :: unit) s. s) rounds (\<lambda>_. []) 0 []"

interpretation nhl: polling_loop "\<lambda>_. True" heartbeat_yield "\<lambda>(_ :: unit) s. s" "\<lambda>_. False"
  by unfold_locales simp_all

lemma heartbeat_round_raises_iff:
  "isl (heartbeat_round probes results) \<longleftrightarrow> (\<exists>(address, ended) \<in> set probes. \<exists>e. ended = Inl e \<and> \<not> is_OSError e)"
  by (induction probes results rule: heartbeat_round.induct) (auto simp: is_OSError_def split: sum.splits)

text \<open>The generator goes on as long as every probe is answered, times out or fails with an \<open>OSError\<close>.\<close>

lemma heartbeat_loop_forever:
  "heartbeat_loop rounds = None \<longleftrightarrow> (\<forall>k. \<forall>(address, ended) \<in> set (rounds k). \<forall>e. ended = Inl e \<longrightarrow> is_OSError e)"
proof -
  have "nhl.round_ok rounds (\<lambda>_. []) [] k \<longleftrightarrow> \<not> isl (heartbeat_round (rounds k) [])" for k
    by (simp add: nhl.round_ok_def heartbeat_yield_def isl_def split: sum.split)
  then show ?thesis
    unfolding heartbeat_loop_def nhl.never_ends_iff [OF TrueI] heartbeat_round_raises_iff by blast
qed

end
