(* ===== verification/Task_Transport.thy ===== *)
theory Task_Transport
  imports Task_Record Framing Protocol
begin

text \<open>
  \<open>meshweaver/serializer.py\<close>, \<open>task_transport.py\<close> and \<open>fault_tolerant_execution.py\<close>: a task sent to a peer
  over a TCP stream, run there, and its result awaited with a timeout.

  \<open>cloudpickle\<close> and the calls into Python objects of type \<open>'o\<close> are parameters, as are \<open>create_task_message\<close>
  and \<open>extract_task_blob\<close>, which \<open>task_transport.py\<close> imports from \<open>protocol.py\<close> but that module does not
  define. An exception of foreign code is its class and its text.
\<close>

type_synonym failure = "pyexc \<times> pystr"

text \<open>
  What a blob unpickles to: a dictionary, or an object that raises on a subscript with a string.
\<close>

datatype 'o task_object = TaskDict "(pystr \<times> 'o) list" | OtherObject failure

definition task_item :: "'o task_object \<Rightarrow> pystr \<Rightarrow> failure + 'o" where
  "task_item task k =
     (case task of
        OtherObject f \<Rightarrow> Inl f
      | TaskDict d \<Rightarrow> (case map_of d k of None \<Rightarrow> Inl (KeyError, [39] @ k @ [39]) | Some v \<Rightarrow> Inr v))"

section \<open>Serializer\<close>

text \<open>
  The empty tuple and the empty dictionary stand in for missing arguments; \<open>false\<close> tells which objects
  Python treats as false.
\<close>

definition serialize_task ::
    "('o task_object \<Rightarrow> bytes res) \<Rightarrow> ('o \<Rightarrow> bool) \<Rightarrow> 'o \<Rightarrow> 'o \<Rightarrow> 'o \<Rightarrow> 'o \<Rightarrow> 'o \<Rightarrow> bytes res" where
  "serialize_task dumps false empty_tuple empty_dict func args kwargs =
     dumps (TaskDict [(u ''func'', func), (u ''args'', if false args then empty_tuple else args),
            (u ''kwargs'', if false kwargs then empty_dict else kwargs)])"

definition deserialize_task :: "(bytes \<Rightarrow> 'o task_object res) \<Rightarrow> bytes \<Rightarrow> 'o task_object res" where
  "deserialize_task loads blob = loads blob"

definition execute_task :: "('o \<Rightarrow> 'o \<Rightarrow> 'o \<Rightarrow> failure + 'o) \<Rightarrow> 'o task_object \<Rightarrow> failure + 'o" where
  "execute_task call task =
     (case (task_item task (u ''func''), task_item task (u ''args''), task_item task (u ''kwargs'')) of
        (Inl f, _, _) \<Rightarrow> Inl f
      | (Inr _, Inl f, _) \<Rightarrow> Inl f
      | (Inr _, Inr _, Inl f) \<Rightarrow> Inl f
      | (Inr func, Inr args, Inr kwargs) \<Rightarrow> call func args kwargs)"

section \<open>Transport\<close>

text \<open>\<open>struct.pack(">I", n)\<close>; \<open>struct.unpack(">I", bs)[0]\<close> is \<open>from_bytes_big bs\<close>.\<close>

definition pack_I :: "nat \<Rightarrow> bytes res" where
  "pack_I n = (if n < 2 ^ 32 then Inr (to_bytes_big 4 n) else Inl StructError)"

text \<open>A frame read from a stream: four bytes of length, then the body.\<close>

definition read_frame :: "bytes \<Rightarrow> bytes res" where
  "read_frame stream =
     (case readexactly stream 4 of
        (Inl e, _) \<Rightarrow> Inl e
      | (Inr length_bytes, rest) \<Rightarrow> fst (readexactly rest (from_bytes_big length_bytes)))"

text \<open>
  The peer: connecting fails, or what becomes of the bytes written to it. No answer comes; the connection is
  lost with an exception, in \<open>drain\<close> or while the answer is awaited; or these bytes come back, and then
  \<open>wait_closed\<close> returns or raises. The result \<open>None\<close> of \<open>send_task\<close> is a call that never returns.
\<close>

datatype peer_answer = Silent | Lost pyexc | Answer bytes "unit res"

type_synonym peer = "(bytes \<Rightarrow> peer_answer) res"

definition task_request :: "(pystr \<Rightarrow> bytes \<Rightarrow> pydict res) \<Rightarrow> pystr \<Rightarrow> bytes \<Rightarrow> bytes res" where
  "task_request create_task_message sender_id task_blob =
     and_then (create_task_message sender_id task_blob) (\<lambda>message.
     and_then (encode_message message) (\<lambda>data.
     and_then (pack_I (length data)) (\<lambda>prefix. Inr (prefix @ data))))"

definition task_reply :: "bytes \<Rightarrow> unit res \<Rightarrow> pyval res" where
  "task_reply incoming closing =
     and_then (read_frame incoming) (\<lambda>result_data.
     and_then (decode_message result_data) (\<lambda>result_message.
     and_then closing (\<lambda>_.
     and_then (dict_item result_message (u ''payload'')) (\<lambda>payload.
       case payload of PDict p \<Rightarrow> dict_item p (u ''result'') | _ \<Rightarrow> Inl TypeError))))"

definition send_task :: "(pystr \<Rightarrow> bytes \<Rightarrow> pydict res) \<Rightarrow> peer \<Rightarrow> pystr \<Rightarrow> bytes \<Rightarrow> pyval res option" where
  "send_task create_task_message peer sender_id task_blob =
     (case peer of
        Inl e \<Rightarrow> Some (Inl e)
      | Inr answer \<Rightarrow>
          (case task_request create_task_message sender_id task_blob of
             Inl e \<Rightarrow> Some (Inl e)
           | Inr data \<Rightarrow>
               (case answer data of
                  Silent \<Rightarrow> None
                | Lost e \<Rightarrow> Some (Inl e)
                | Answer incoming closing \<Rightarrow> Some (task_reply incoming closing))))"

text \<open>
  The response of the peer. \<open>to_json\<close> is what \<open>json.dumps\<close> makes of a Python object: its JSON value, or an
  exception for an object with none, which is raised outside the \<open>try\<close> of the handler.
\<close>

definition task_response :: "('o \<Rightarrow> 'o \<Rightarrow> 'o \<Rightarrow> failure + 'o) \<Rightarrow> ('o \<Rightarrow> pyval res) \<Rightarrow> pystr \<Rightarrow> 'o task_object \<Rightarrow> pydict res" where
  "task_response call to_json node_id task =
     (case execute_task call task of
        Inr result \<Rightarrow>
          and_then (to_json result) (\<lambda>r.
            Inr [(u ''type'', PStr (u ''TASK_RESULT'')), (u ''sender_id'', PStr node_id), (u ''payload'', PDict [(u ''result'', r)])])
      | Inl (e, msg) \<Rightarrow>
          Inr [(u ''type'', PStr (u ''TASK_ERROR'')), (u ''sender_id'', PStr node_id), (u ''payload'', PDict [(u ''error'', PStr msg)])])"

definition handle_task_connection ::
    "(pydict \<Rightarrow> bytes res) \<Rightarrow> (bytes \<Rightarrow> 'o task_object res) \<Rightarrow> ('o \<Rightarrow> 'o \<Rightarrow> 'o \<Rightarrow> failure + 'o) \<Rightarrow> ('o \<Rightarrow> pyval res) \<Rightarrow>
     pystr \<Rightarrow> bytes \<Rightarrow> unit res \<times> bytes" where
  "handle_task_connection extract_task_blob loads call to_json node_id incoming =
     (case and_then (read_frame incoming) (\<lambda>data.
           and_then (decode_message data) (\<lambda>message.
           and_then (extract_task_blob message) (\<lambda>task_blob.
           and_then (deserialize_task loads task_blob) (\<lambda>task.
           and_then (task_response call to_json node_id task) (\<lambda>response.
           and_then (encode_message response) (\<lambda>response_data.
           and_then (pack_I (length response_data)) (\<lambda>prefix. Inr (prefix @ response_data)))))))) of
        Inl e \<Rightarrow> (Inl e, [])
      | Inr out \<Rightarrow> (Inr (), out))"

section \<open>Execution with a timeout\<close>

definition wait_for :: "'a res option \<Rightarrow> 'a res" where
  "wait_for r = (case r of None \<Rightarrow> Inl TimeoutError | Some x \<Rightarrow> x)"

definition timeout_text :: "address \<Rightarrow> pystr" where
  "timeout_text node = u ''timed out after '' @ float_repr TASK_TIMEOUT_SECONDS @ u ''s waiting for '' @ fst node @ u '':'' @ int_repr (snd node)"

definition connection_text :: "address \<Rightarrow> pystr \<Rightarrow> pystr" where
  "connection_text node msg = u ''connection error to '' @ fst node @ u '':'' @ int_repr (snd node) @ u '': '' @ msg"

text \<open>The end of the call, on the record as it is when the answer or the timeout arrives.\<close>

definition execute_finish ::
    "(pyexc \<Rightarrow> pystr) \<Rightarrow> address \<Rightarrow> 'v res \<Rightarrow> 'v task_record \<Rightarrow> 'v option res \<times> 'v task_record" where
  "execute_finish exc_text node outcome t =
     (case outcome of
        Inr result \<Rightarrow> (Inr (Some result), mark_completed t result)
      | Inl e \<Rightarrow>
          if e = TimeoutError then (Inr None, mark_failed t (Some (timeout_text node)))
          else if is_OSError e then (Inr None, mark_failed t (Some (connection_text node (exc_text e))))
          else (Inl e, t))"

definition execute_with_timeout ::
    "(pystr \<Rightarrow> bytes \<Rightarrow> pydict res) \<Rightarrow> (pyexc \<Rightarrow> pystr) \<Rightarrow> (address \<Rightarrow> peer) \<Rightarrow> pyval task_record \<Rightarrow> pyval option res \<times> pyval task_record" where
  "execute_with_timeout create_task_message exc_text network t =
     (case tr_assigned_node t of
        None \<Rightarrow> (Inl TypeError, t)
      | Some node \<Rightarrow>
          execute_finish exc_text node
            (wait_for (send_task create_task_message (network node) (u ''sender-node'') (tr_task_blob t))) t)"

section \<open>The length of a JSON text\<close>

lemma length_escape_str: "length (escape_str s) \<le> 12 * length s"
proof (induction s)
  case (Cons c s)
  have "length (escape_char c) \<le> 12"
    by (simp add: escape_char_def u_escape_def hex4_text_def)
  with Cons show ?case
    by (simp add: escape_str_def)
qed (simp add: escape_str_def)

lemma length_dumps_PStr: "length (json_dumps (PStr s)) \<le> 12 * length s + 2"
  using length_escape_str [of s] by (simp add: str_text_def)

lemma length_join_comma: "length (join_comma ts) \<le> sum_list (map (\<lambda>t. length t + 1) ts)"
  by (induction ts rule: join_comma.induct) auto

lemma length_dumps_PDict:
  "length (json_dumps (PDict kvs)) \<le> 2 + sum_list (map (\<lambda>(k, v). 12 * length k + 4 + length (json_dumps v)) kvs)"
proof -
  let ?w = "\<lambda>kv. length (member_text (fst kv, json_dumps (snd kv))) + 1"
  have "sum_list (map ?w (sort_key fst kvs)) = sum_list (map ?w kvs)"
    by (simp only: sum_mset_sum_list [symmetric] mset_map mset_sort)
  also have "\<dots> \<le> sum_list (map (\<lambda>(k, v). 12 * length k + 4 + length (json_dumps v)) kvs)"
  proof (rule sum_list_mono)
    fix kv :: "pystr \<times> pyval"
    show "?w kv \<le> (case kv of (k, v) \<Rightarrow> 12 * length k + 4 + length (json_dumps v))"
      using length_escape_str [of "fst kv"] by (cases kv) (simp add: member_text_def str_text_def)
  qed
  finally show ?thesis
    using length_join_comma [of "map (\<lambda>kv. member_text (fst kv, json_dumps (snd kv))) (sort_key fst kvs)"]
    unfolding dumps_PDict by (simp add: comp_def)
qed

section \<open>An exchange\<close>

lemma read_frame_written: "pack_I (length d) = Inr p \<Longrightarrow> read_frame (p @ d) = Inr d"
  by (auto simp: pack_I_def read_frame_def readexactly_def from_to_bytes_big split: if_splits)

lemma read_frame_Nil: "read_frame [] = Inl IncompleteReadError"
  by (simp add: read_frame_def readexactly_def)

lemma message_frame:
  assumes "val_ok (PDict m)" and "validate_dict m None = Inr ()" and "length (json_dumps (PDict m)) < 2 ^ 32"
  obtains data prefix where "encode_message m = Inr data" and "decode_message data = Inr (sorted_dict m)"
    and "pack_I (length data) = Inr prefix" and "read_frame (prefix @ data) = Inr data"
proof
  let ?data = "map byte_of (json_dumps (PDict m))"
  show "encode_message m = Inr ?data"
    by (rule encode_message_ascii)
  show "decode_message ?data = Inr (sorted_dict m)"
    using decode_encoded [OF assms(1)] assms(2) by simp
  show pack: "pack_I (length ?data) = Inr (to_bytes_big 4 (length ?data))"
    using assms(3) by (simp only: pack_I_def length_map if_True)
  show "read_frame (to_bytes_big 4 (length ?data) @ ?data) = Inr ?data"
    by (rule read_frame_written [OF pack])
qed

lemma task_response_valid:
  assumes "task_response call to_json node_id task = Inr r" and "node_id \<noteq> []"
  shows "validate_dict r None = Inr ()"
  using assms by (auto simp: task_response_def res_simps validate_dict_Inr split: sum.splits prod.splits)

text \<open>The task a peer finds in the bytes it receives, and what it writes when there is one: its response in a frame.\<close>

definition task_found :: "(pydict \<Rightarrow> bytes res) \<Rightarrow> (bytes \<Rightarrow> 'o task_object res) \<Rightarrow> bytes \<Rightarrow> 'o task_object res" where
  "task_found extract_task_blob loads incoming =
     and_then (read_frame incoming) (\<lambda>data.
     and_then (decode_message data) (\<lambda>message.
     and_then (extract_task_blob message) (deserialize_task loads)))"

lemma handle_task_connection_found:
  "handle_task_connection get_blob loads call to_json node_id incoming =
     (case and_then (task_found get_blob loads incoming) (\<lambda>task.
           and_then (task_response call to_json node_id task) (\<lambda>response.
           and_then (encode_message response) (\<lambda>response_data.
           and_then (pack_I (length response_data)) (\<lambda>prefix. Inr (prefix @ response_data))))) of
        Inl e \<Rightarrow> (Inl e, [])
      | Inr out \<Rightarrow> (Inr (), out))"
proof -
  have assoc: "and_then (and_then x f) g = and_then x (\<lambda>a. and_then (f a) g)" for x :: "'x res" and f :: "'x \<Rightarrow> 'y res" and g :: "'y \<Rightarrow> 'z res"
    by (cases x) simp_all
  show ?thesis
    unfolding handle_task_connection_def task_found_def assoc ..
qed

lemma handle_request_frame:
  assumes "task_found get_blob loads request = Inr task" and "node_id \<noteq> []"
    and resp: "task_response call to_json node_id task = Inr r"
      "val_ok (PDict r)" "length (json_dumps (PDict r)) < 2 ^ 32"
  shows "\<exists>out. handle_task_connection get_blob loads call to_json node_id request = (Inr (), out) \<and>
    task_reply out (Inr ()) = (case sorted_dict r of d \<Rightarrow> and_then (dict_item d (u ''payload'')) (\<lambda>payload.
       case payload of PDict p \<Rightarrow> dict_item p (u ''result'') | _ \<Rightarrow> Inl TypeError))"
proof -
  obtain out prefix where "encode_message r = Inr out" "decode_message out = Inr (sorted_dict r)"
    "pack_I (length out) = Inr prefix" "read_frame (prefix @ out) = Inr out"
    using message_frame [OF resp(2) task_response_valid [OF resp(1) assms(2)] resp(3)] .
  then show ?thesis
    using assms by (simp add: handle_task_connection_found task_reply_def)
qed

lemma payload_of_response:
  assumes "task_response call to_json node_id task = Inr r" and "val_ok (PDict r)"
  shows "and_then (dict_item (sorted_dict r) (u ''payload'')) (\<lambda>payload.
       case payload of PDict p \<Rightarrow> dict_item p (u ''result'') | _ \<Rightarrow> Inl TypeError) =
    (case execute_task call task of Inr v \<Rightarrow> and_then (to_json v) (\<lambda>j. Inr (jnorm j)) | Inl _ \<Rightarrow> Inl KeyError)"
proof -
  have "distinct (map fst r)"
    using assms(2) by simp
  moreover have "jnorm (PDict [(k, v)]) = PDict [(k, jnorm v)]" for k v
    by (simp add: jnorm_PDict)
  ultimately show ?thesis
    using assms(1)
    by (auto simp: task_response_def dict_item_def map_of_sorted_dict res_simps split: sum.splits)
qed

lemma task_reply_raises:
  assumes "task_reply incoming closing = Inl e"
  shows "closing = Inl e \<or> e = IncompleteReadError \<or> e = KeyError \<or> is_ValueError e"
proof -
  have "\<exists>p. payload = PDict p" if "decode_message data = Inr m" "dict_item m (u ''payload'') = Inr payload" for data m payload
    using decode_message_valid [OF that(1)] that(2) by (auto simp: validate_dict_Inr dict_item_def split: option.splits)
  moreover have "read_frame incoming = Inl e \<Longrightarrow> e = IncompleteReadError"
    by (auto simp: read_frame_def readexactly_def split: if_splits)
  moreover have "dict_item d k = Inl x \<Longrightarrow> x = KeyError" for d k x
    by (auto simp: dict_item_def split: option.splits)
  ultimately show ?thesis
    using assms decode_message_raises unfolding task_reply_def and_then_Inl_iff by fastforce
qed

section \<open>Properties\<close>

text \<open>
  C30. A task sent to a peer that runs \<open>handle_task_connection\<close>, whatever message \<open>create_task_message\<close> makes of
  it and whatever \<open>extract_task_blob\<close> and the unpickler make of that message. The four ends: the peer finds
  no task in the bytes it receives (no frame, no valid message, or one of the two functions raises): it closes
  without an answer, the caller fails with \<open>IncompleteReadError\<close> and the record stays as it was. The task
  raises: the peer answers TASK_ERROR, but the caller fails with \<open>KeyError\<close> and the record stays as it was.
  It returns a value without a JSON form: again no answer, \<open>IncompleteReadError\<close> and an unchanged record. It
  returns a value with a JSON form: the caller gets that value and the record is COMPLETED with it. The
  response is assumed to be a JSON value of Python (distinct keys, code points) of less than 4 GB.
\<close>

theorem remote_execution:
  assumes "tr_assigned_node t = Some node"
    and "network node = Inr (\<lambda>req. Answer (snd (handle_task_connection get_blob loads call to_json peer_id req)) (Inr ()))"
    and "task_request create (u ''sender-node'') (tr_task_blob t) = Inr req" and "peer_id \<noteq> []"
    and resp: "\<And>task r. task_found get_blob loads req = Inr task \<Longrightarrow> task_response call to_json peer_id task = Inr r \<Longrightarrow>
      val_ok (PDict r) \<and> length (json_dumps (PDict r)) < 2 ^ 32"
  shows "execute_with_timeout create exc_text network t =
    (case task_found get_blob loads req of
       Inl _ \<Rightarrow> (Inl IncompleteReadError, t)
     | Inr task \<Rightarrow>
         (case execute_task call task of
            Inl _ \<Rightarrow> (Inl KeyError, t)
          | Inr v \<Rightarrow>
              (case to_json v of
                 Inr j \<Rightarrow> (Inr (Some (jnorm j)), mark_completed t (jnorm j))
               | Inl _ \<Rightarrow> (Inl IncompleteReadError, t))))"
proof -
  let ?serve = "handle_task_connection get_blob loads call to_json peer_id req"
  have sent: "execute_with_timeout create exc_text network t = execute_finish exc_text node (task_reply (snd ?serve) (Inr ())) t"
    using assms(1-3) by (simp add: execute_with_timeout_def send_task_def wait_for_def)
  have silent: "execute_with_timeout create exc_text network t = (Inl IncompleteReadError, t)" if "snd ?serve = []"
    using that by (simp add: sent task_reply_def read_frame_Nil execute_finish_def is_OSError_def)
  show ?thesis
  proof (cases "task_found get_blob loads req")
    case (Inl e)
    then show ?thesis
      using silent by (simp add: handle_task_connection_found)
  next
    case (Inr task)
    show ?thesis
    proof (cases "task_response call to_json peer_id task")
      case (Inl e)
      then have "snd ?serve = []"
        by (simp add: handle_task_connection_found Inr)
      moreover obtain v where "execute_task call task = Inr v" "to_json v = Inl e"
        using Inl by (auto simp: task_response_def res_simps split: sum.splits)
      ultimately show ?thesis
        using silent by (simp add: Inr)
    next
      case r: (Inr r)
      note ok = resp [OF Inr r]
      have "task_reply (snd ?serve) (Inr ()) = (case execute_task call task of Inr v \<Rightarrow> and_then (to_json v) (\<lambda>j. Inr (jnorm j)) | Inl _ \<Rightarrow> Inl KeyError)"
        using handle_request_frame [OF Inr assms(4) r conjunct1 [OF ok] conjunct2 [OF ok]] payload_of_response [OF r conjunct1 [OF ok]] by auto
      with sent r show ?thesis
        by (auto simp: Inr execute_finish_def is_OSError_def task_response_def split: sum.splits)
    qed
  qed
qed

definition ex_create :: "pystr \<Rightarrow> bytes \<Rightarrow> pydict res" where
  "ex_create sender blob = Inr [(u ''type'', PStr MSG_TASK_REQUEST), (u ''sender_id'', PStr sender),
     (u ''payload'', PDict [(u ''blob'', PStr (bytes_hex blob))])]"

definition ex_extract :: "pydict \<Rightarrow> bytes res" where
  "ex_extract m = (case dict_get m (u ''payload'') of
     PDict p \<Rightarrow> (case dict_get p (u ''blob'') of PStr s \<Rightarrow> fromhex s | _ \<Rightarrow> Inl ValueError) | _ \<Rightarrow> Inl ValueError)"

definition ex_loads :: "bytes \<Rightarrow> pyval task_object res" where
  "ex_loads blob = Inr (TaskDict [(u ''func'', PNone), (u ''args'', PInt (int (length blob))), (u ''kwargs'', PDict [])])"

definition ex_call :: "pyval \<Rightarrow> pyval \<Rightarrow> pyval \<Rightarrow> failure + pyval" where
  "ex_call f args kwargs = Inr args"

definition ex_running :: "pyval task_record" where
  "ex_running = mark_running (TaskRecord (u ''t'') FInf [7, 8]) (u ''h'', 9) FInf"

lemma ex_running_blob: "tr_task_blob ex_running = [7, 8]" "tr_assigned_node ex_running = Some (u ''h'', 9)"
  by (simp_all add: ex_running_def mark_running_def TaskRecord_def)

lemma bytes_hex_small: "c \<in> set (bytes_hex bs) \<Longrightarrow> c < 0xD800"
  using bytes_hex_ascii by fastforce

lemma ex_task_message_ok:
  obtains m where "ex_create (u ''sender-node'') [7, 8] = Inr m" "val_ok (PDict m)" "validate_dict m None = Inr ()"
    "length (json_dumps (PDict m)) < 2 ^ 32" "ex_extract (sorted_dict m) = Inr [7, 8]"
proof -
  let ?m = "[(u ''type'', PStr MSG_TASK_REQUEST), (u ''sender_id'', PStr (u ''sender-node'')),
     (u ''payload'', PDict [(u ''blob'', PStr (bytes_hex [7, 8]))])]"
  have ok: "val_ok (PDict ?m)"
    using str_ok_small [of "bytes_hex [7, 8]"] bytes_hex_small by (simp add: message_types del: bytes_hex.simps)
  have "length (json_dumps (PDict ?m)) < 2 ^ 32"
    using length_dumps_PDict [of ?m] length_dumps_PDict [of "[(u ''blob'', PStr (bytes_hex [7, 8]))]"]
      length_dumps_PStr [of MSG_TASK_REQUEST] length_dumps_PStr [of "u ''sender-node''"] length_dumps_PStr [of "bytes_hex [7, 8]"]
    by (simp add: message_types u_def del: json_dumps.simps)
  moreover have "validate_dict ?m None = Inr ()"
    by (simp add: validate_dict_def dict_get_def is_str_def is_dict_def message_types)
  moreover have "ex_extract (sorted_dict ?m) = Inr [7, 8]"
    using ok dict_get_sorted_dict [of ?m "u ''payload''"] by (simp add: ex_extract_def dict_get_def del: bytes_hex.simps)
  ultimately show ?thesis
    using ok by (intro that [of ?m]) (simp_all only: ex_create_def)
qed

text \<open>With these stand-ins the peer finds the blob that was sent.\<close>

lemma ex_request_found:
  obtains req where "task_request ex_create (u ''sender-node'') (tr_task_blob ex_running) = Inr req"
    and "task_found ex_extract ex_loads req = Inr (TaskDict [(u ''func'', PNone), (u ''args'', PInt 2), (u ''kwargs'', PDict [])])"
proof -
  obtain m where m: "ex_create (u ''sender-node'') [7, 8] = Inr m" "val_ok (PDict m)" "validate_dict m None = Inr ()"
    "length (json_dumps (PDict m)) < 2 ^ 32" "ex_extract (sorted_dict m) = Inr [7, 8]"
    by (rule ex_task_message_ok)
  obtain data prefix where "encode_message m = Inr data" "decode_message data = Inr (sorted_dict m)"
    "pack_I (length data) = Inr prefix" "read_frame (prefix @ data) = Inr data"
    using message_frame [OF m(2-4)] .
  then show ?thesis
    using m(1,5) by (intro that [of "prefix @ data"])
      (simp_all add: task_request_def ex_running_blob task_found_def deserialize_task_def ex_loads_def)
qed

theorem remote_execution_witness:
  "execute_with_timeout ex_create (\<lambda>_. [])
     (\<lambda>_. Inr (\<lambda>req. Answer (snd (handle_task_connection ex_extract ex_loads ex_call Inr (u ''b'') req)) (Inr ()))) ex_running
   = (Inr (Some (PInt 2)), mark_completed ex_running (PInt 2))"
proof -
  let ?task = "TaskDict [(u ''func'', PNone), (u ''args'', PInt 2), (u ''kwargs'', PDict [])]"
  have exec: "execute_task ex_call ?task = Inr (PInt 2)"
    by (simp add: execute_task_def task_item_def ex_call_def)
  obtain req where req: "task_request ex_create (u ''sender-node'') (tr_task_blob ex_running) = Inr req"
    and found: "task_found ex_extract ex_loads req = Inr ?task"
    by (rule ex_request_found)
  have resp: "val_ok (PDict r) \<and> length (json_dumps (PDict r)) < 2 ^ 32"
    if "task_found ex_extract ex_loads req = Inr task" "task_response ex_call Inr (u ''b'') task = Inr r" for task r
  proof -
    have r: "r = [(u ''type'', PStr (u ''TASK_RESULT'')), (u ''sender_id'', PStr (u ''b'')), (u ''payload'', PDict [(u ''result'', PInt 2)])]"
      using that exec found by (simp add: task_response_def)
    have "length (json_dumps (PInt 2)) = 1"
      by code_simp
    then have "length (json_dumps (PDict r)) < 2 ^ 32"
      using length_dumps_PDict [of r] length_dumps_PDict [of "[(u ''result'', PInt 2)]"]
        length_dumps_PStr [of "u ''TASK_RESULT''"] length_dumps_PStr [of "u ''b''"]
      unfolding r by (simp add: u_def del: json_dumps.simps)
    moreover have "val_ok (PDict r)"
      unfolding r by simp
    ultimately show ?thesis by blast
  qed
  show ?thesis
    using remote_execution [where node = "(u ''h'', 9)" and get_blob = ex_extract and loads = ex_loads and call = ex_call and to_json = Inr
        and peer_id = "u ''b''" and create = ex_create and req = req and t = ex_running
        and network = "\<lambda>_. Inr (\<lambda>req. Answer (snd (handle_task_connection ex_extract ex_loads ex_call Inr (u ''b'') req)) (Inr ()))"
        and exc_text = "\<lambda>_. []", OF ex_running_blob(2) refl req _ resp] exec found
    by simp
qed

text \<open>
  C31. \<open>execute_with_timeout\<close> against any peer. An unreachable peer (an \<open>OSError\<close>), a lost connection and a
  silent peer make it return \<open>None\<close> with the record FAILED and the address in its error text; any other
  exception of the connection escapes with the record unchanged. A peer that answers, with whatever bytes, and
  closes normally never makes the record FAILED: either the answer holds a result, which is returned and
  stored, or one of \<open>IncompleteReadError\<close>, \<open>KeyError\<close> and \<open>ValueError\<close> (or a subclass) escapes and the record is
  unchanged, RUNNING if it was. When closing the connection raises after a well-formed answer, the result is
  dropped and the outcome is that of a lost connection.
\<close>

theorem execute_with_timeout_outcome:
  assumes "tr_assigned_node t = Some node" and "task_request create (u ''sender-node'') (tr_task_blob t) = Inr req"
  shows "let run = execute_with_timeout create exc_text network t;
      broken = (\<lambda>e. if e = TimeoutError then (Inr None, mark_failed t (Some (timeout_text node)))
        else if is_OSError e then (Inr None, mark_failed t (Some (connection_text node (exc_text e)))) else (Inl e, t)) in
    case network node of
      Inl e \<Rightarrow> run = broken e
    | Inr answer \<Rightarrow>
        (case answer req of
           Silent \<Rightarrow> run = (Inr None, mark_failed t (Some (timeout_text node)))
         | Lost e \<Rightarrow> run = broken e
         | Answer incoming closing \<Rightarrow>
             (\<exists>v. task_reply incoming closing = Inr v \<and> run = (Inr (Some v), mark_completed t v)) \<or>
             (\<exists>e. run = (Inl e, t) \<and> (e = IncompleteReadError \<or> e = KeyError \<or> is_ValueError e)) \<or>
             (\<exists>e. closing = Inl e \<and> task_reply incoming closing = Inl e \<and> run = broken e))"
proof -
  have sent: "execute_with_timeout create exc_text network t = execute_finish exc_text node
      (wait_for (case network node of Inl e \<Rightarrow> Some (Inl e)
         | Inr answer \<Rightarrow> (case answer req of Silent \<Rightarrow> None | Lost e \<Rightarrow> Some (Inl e)
             | Answer incoming closing \<Rightarrow> Some (task_reply incoming closing)))) t"
    using assms by (simp add: execute_with_timeout_def send_task_def split: sum.split)
  have own: "\<not> is_OSError e \<and> e \<noteq> TimeoutError" if "e = IncompleteReadError \<or> e = KeyError \<or> is_ValueError e" for e
    using that by (cases e) (auto simp: is_OSError_def)
  show ?thesis
  proof (cases "network node")
    case (Inr answer)
    show ?thesis
    proof (cases "answer req")
      case (Answer incoming closing)
      show ?thesis
      proof (cases "task_reply incoming closing")
        case (Inl e)
        then show ?thesis
          using task_reply_raises [OF Inl] own [of e]
          unfolding sent by (auto simp: \<open>network node = Inr answer\<close> Answer wait_for_def execute_finish_def)
      qed (simp add: sent \<open>network node = Inr answer\<close> Answer wait_for_def execute_finish_def)
    qed (simp_all add: sent Inr wait_for_def execute_finish_def)
  qed (simp add: sent wait_for_def execute_finish_def)
qed

theorem execute_with_timeout_outcome_witness:
  "execute_with_timeout ex_create (\<lambda>_. []) (\<lambda>_. Inr (\<lambda>_. Silent)) ex_running =
     (Inr None, mark_failed ex_running (Some (timeout_text (u ''h'', 9))))"
proof -
  obtain req where "task_request ex_create (u ''sender-node'') (tr_task_blob ex_running) = Inr req"
    by (rule ex_request_found)
  with ex_running_blob show ?thesis
    using execute_with_timeout_outcome [where t = ex_running and network = "\<lambda>_. Inr (\<lambda>_. Silent)" and create = ex_create] by simp
qed

end
