(* ===== verification/Spec2Isabelle.thy ===== *)
theory Spec2Isabelle
  imports Discovery_Honest Task_Signing Load_Selector Dht Background_Loops Tls_Context Failover Gossip_Mesh Console_Demo Local_Demo Debug_Text Mesh_Node Network_Exchange Task_Transport Execution
begin

text \<open>
  MeshWeaver is a peer-to-peer task broker written in Python. A node finds peers through a Kademlia table
  (\<open>meshweaver/kademlia\<close>), exchanges JSON datagrams with them (\<open>protocol.py\<close>, \<open>network.py\<close>), spreads and
  collects load information (\<open>gossip.py\<close>, \<open>monitoring.py\<close>, \<open>heartbeat.py\<close>), chooses where a task should
  run (\<open>load_selector.py\<close>, \<open>dht.py\<close>, \<open>routing.py\<close>), signs and verifies task requests (\<open>identity.py\<close>,
  \<open>signer.py\<close>, \<open>verifier.py\<close>, \<open>security.py\<close>) and runs tasks (\<open>execution.py\<close>, \<open>task_*.py\<close>,
  \<open>fault_tolerant_execution.py\<close>). This library models these parts as functional programs over explicit
  states and proves what each promises and how they work together.

  \<^bold>\<open>How Python is modelled.\<close> A method becomes a function from a state record to a result and a new state; a
  raised exception is \<open>Inl e\<close> of the sum type \<open>res\<close>, and the state an exception leaves behind is returned
  where a caller can see it. Strings are lists of code points, \<open>bytes\<close> lists of 8-bit words, dictionaries
  association lists in insertion order, integers \<open>int\<close>, floats IEEE doubles with round-half-even
  (\<open>Py_Float\<close>), JSON values the type \<open>pyval\<close>. Objects shared by reference (task records, request futures)
  live in a store and are named by index. Coroutines are split at their \<open>await\<close>; what may happen in between
  is a step of an inductive relation, so that properties hold under every interleaving. A background loop
  is a \<open>while_option\<close> over its body and the calls other coroutines make while it sleeps (\<open>Polling_Loop\<close>); its
  result \<open>None\<close> means that it never ends. Time, random bytes, uuids, sensor readings, transports, callbacks, \<open>str()\<close> of a
  non-string, \<open>repr()\<close> of a value, \<open>pickle\<close> and \<open>cloudpickle\<close>, and the functions a task calls are arguments.

  \<^bold>\<open>Shared theories.\<close> \<open>Mesh_Prelude\<close> (exceptions, results, bytes, hexadecimal, sorting, dictionaries),
  \<open>Py_Text\<close> (UTF-8), \<open>Py_Float\<close>, \<open>Py_Value\<close>, \<open>Py_Convert\<close> (\<open>float()\<close> and \<open>int()\<close> of a value), \<open>Py_Dict\<close> (hash
  keys), \<open>Json_Number\<close>, \<open>Json_String\<close>, \<open>Json\<close> (\<open>json.dumps\<close> and \<open>json.loads\<close>, with the theorem that they are
  inverse on values JSON carries exactly), \<open>Json_Depth\<close> (\<open>json.loads\<close> under the recursion and digit limits of the
  interpreter), \<open>Base64\<close>, \<open>Sha256\<close> (SHA-256 and HMAC on 32-bit words),
  \<open>Key_Order\<close> (the locale of orders by a key, \<open>sorted\<close> and \<open>min\<close>), \<open>Py_Format\<close> (fixed-point formatting, padding
  and \<open>round\<close>).

  \<^bold>\<open>Interfaces.\<close> \<open>Contact_Table\<close> is the contract of a bounded contact map that the routing table and the
  peer store implement; \<open>Signed_Message\<close> the contract of a keyed signature, interpreted by
  \<open>sign_message\<close>/\<open>verify_message_signature\<close> and by \<open>sign_request\<close>/\<open>verify_request\<close>; \<open>Failure_Detector\<close> the
  contract of a detector driven by beats and checks, interpreted by the heartbeat monitor and the
  heartbeat manager; \<open>Polling_Loop\<close> the contract of a background loop, interpreted by the four loops of the
  monitors and of gossip, by the UDP heartbeat generator and by the dashboard; \<open>key_order\<close> is interpreted by the orders of floats and of loads with node ids.

  \<^bold>\<open>Components and what is shown of them.\<close>
  \<^item> \<open>Node_Id\<close>, \<open>Routing_Table\<close>, \<open>Peer_Lookup\<close>, \<open>Peer_Store\<close> (\<open>node_id.py\<close>, \<open>routing_table.py\<close>, \<open>lookup.py\<close>,
    \<open>peer_store.py\<close>): the invariant of every reachable table and store, refinement of an abstract bounded
    map, exactness of the closest-peer query.
  \<^item> \<open>Protocol\<close>, \<open>Rpc\<close> (\<open>protocol.py\<close>, \<open>rpc.py\<close>): encode/decode round trip, what decoding arbitrary bytes
    can give or raise, signatures, the FIND_NODE exchange.
  \<^item> \<open>Peer_Growth\<close>, \<open>Bootstrap\<close>, \<open>Discovery\<close>, \<open>Discovery_Honest\<close> (\<open>bootstrap.py\<close>, \<open>discovery.py\<close>): joining and
    discovery against arbitrary transports, which of the contacts offered to them they store, and what they
    achieve with peers that run the modelled handlers.
  \<^item> \<open>Identity\<close>, \<open>Task_Signing\<close> (\<open>identity.py\<close>, \<open>signer.py\<close>, \<open>verifier.py\<close>, \<open>security.py\<close>): key files, and
    which requests a signature is accepted for, up to collisions of HMAC-SHA256.
  \<^item> \<open>Load_Selector\<close>, \<open>Dht\<close> (\<open>load_selector.py\<close>, \<open>routing.py\<close>, \<open>dht.py\<close>): the least loaded peer over IEEE
    doubles, with malformed, stale, local and NaN entries.
  \<^item> \<open>Monitoring\<close>, \<open>Heartbeat\<close> (\<open>monitoring.py\<close>, \<open>heartbeat.py\<close>): the verdict on a peer after any history of
    beats and checks, and the callbacks fired.
  \<^item> \<open>Background_Loops\<close> (the loops of \<open>heartbeat.py\<close>, \<open>monitoring.py\<close> and \<open>gossip.py\<close>): after which round each loop
    ends, by a stop or by an exception (exactly, for the monitor, in terms of what its callback does), what a
    stopped heartbeat loop leaves behind, and that the broadcast loop runs on as long as gossiped timestamps
    are numbers.
  \<^item> \<open>Gossip\<close> (\<open>gossip.py\<close>): the table after every history and where each of its entries comes from, expiry, and (in this theory) that a gossiped
    load reaches the load selector.
  \<^item> \<open>Gossip_Mesh\<close> (\<open>week2_gossip_demo.py\<close>): two connected gossip managers as a refinement of an abstract board of
    who knows which status of whom.
  \<^item> \<open>Mesh_Node\<close>, \<open>Network\<close>, \<open>Network_Exchange\<close> (\<open>node.py\<close>, \<open>network.py\<close>): the pending table and the futures under
    every order of replies, timeouts, cancellations and connection loss, as a refinement of an abstract
    table of calls; PING, HEARTBEAT and route requests between two nodes, from the call to its result.
  \<^item> \<open>Framing\<close>, \<open>Tls_Context\<close> (\<open>secure_network.py\<close>): length-prefixed frames and their limits; whom the server and
    client contexts accept. The certificate files and the validation of chains are parameters.
  \<^item> \<open>Task_Record\<close>, \<open>Task_Transport\<close> (\<open>task_state.py\<close>, \<open>task_record.py\<close>, \<open>task_registry.py\<close>, \<open>task_config.py\<close>,
    \<open>serializer.py\<close>, \<open>task_transport.py\<close>, \<open>fault_tolerant_execution.py\<close>): the life of a task record, the
    registry as a function of its history, and the outcome of a remote execution. \<open>create_task_message\<close> and \<open>extract_task_blob\<close>, which
    no module defines, are parameters.
  \<^item> \<open>Execution\<close> (\<open>execution.py\<close>): the task manager with several executions in flight, acceptance of results,
    validation of signed tasks.
  \<^item> \<open>Failover\<close> (\<open>examples/full_stack_demo.py\<close>): peer table, task manager, node identity and monitor together:
    selection, detection of the lost node, retry on the next one.
  \<^item> \<open>Dashboard\<close> (\<open>dashboard.py\<close>): the rendering of the nodes and the refresh loop. \<open>Console_Demo\<close>
    (\<open>week4_dashboard_demo.py\<close>): the tables of the console demo and its frames.
  \<^item> \<open>Local_Demo\<close> (\<open>demo.py\<close>): the demo over UDP, where it stops and that it closes what it opened.
  \<^item> \<open>Debug_Text\<close>: the \<open>__repr__\<close> methods, and that those of key holders show eight bytes of the public key only.

  \<^bold>\<open>Bounds.\<close> The JSON reader recurses on fuel of twice the length of the text plus one, which its round-trip
  theorem shows to suffice; no other function has fuel, and the loops are not bounded. \<open>repr\<close> of a float searches the decimals of up to 17
  digits, and \<open>Json_Number\<close> proves that 17 digits identify every double (\<open>float_ok\<close> is being one: the
  rationals that \<open>round64\<close> gives).

  \<^bold>\<open>Limits of the interpreter.\<close> The recursion limit of \<open>json.loads\<close> and the limit of 4300 digits that \<open>int\<close> reads are
  parameters of \<open>decode_message_within\<close>; C26 shows that they only add \<open>RecursionError\<close> (for a text with more
  opening brackets than levels left) and \<open>ValueError\<close> to the results of \<open>decode_message\<close>, the function without
  limits, which the other theories use.

  \<^bold>\<open>Not modelled.\<close> Python's recursion limit outside \<open>decode_message\<close> and the digit limit when integers are written;
  exceptions that are not an \<open>Exception\<close>, cancellation of a request or an execution apart; the identity of NaN objects in
  dictionaries; the asyncio servers and the TLS handshake itself; a second start of a loop that runs, and
  the cancellation of its task; \<open>psutil\<close>, rich, logging and printing; the other demos, and
  the copies of modules at the root of the repository, which nothing imports.
\<close>

section \<open>From gossip to load selection\<close>

text \<open>The gossip table as the load selector reads it.\<close>

definition load_table :: "'w gossip_manager \<Rightarrow> (pyval \<times> pyval) list" where
  "load_table m = map (\<lambda>(k, info). (k, PDict info)) (gm_peer_table m)"

definition status_entry :: "(pyval \<Rightarrow> pystr) \<Rightarrow> resource_status \<Rightarrow> load_entry" where
  "status_entry py_str s =
     \<lparr>le_node_id = py_str (rs_node_id s), le_cpu_percent = rs_cpu_percent s, le_ram_percent = rs_ram_percent s, le_timestamp = rs_timestamp s\<rparr>"

lemma from_dict_status: "from_dict py_str (PDict (rs_to_dict s)) = Inr (status_entry py_str s)"
  by (simp add: from_dict_def raw_item_def rs_to_dict_def dict_item_def py_float_def status_entry_def)

lemma handle_status:
  assumes "rs_node_id s = PStr peer" and "peer \<noteq> gm_node_id m"
  shows "handle_incoming_gossip m (PDict (build_status_msg s)) =
    (Inr (), m\<lparr>gm_peer_table := AList.update (PStr peer) (rs_to_dict s) (gm_peer_table m)\<rparr>)"
  using assms by (simp add: handle_incoming_gossip_def build_status_msg_def dict_get_def rs_to_dict_def dict_item_def)

lemma entries_of_table:
  assumes "map_of (gm_peer_table m) k = Some info" and "from_dict py_str (PDict info) = Inr e"
  shows "e \<in> set (entries py_str (load_table m))"
proof -
  have "(k, PDict info) \<in> set (load_table m)"
    using map_of_SomeD [OF assms(1)] by (force simp: load_table_def)
  with assms(2) show ?thesis
    by (force simp: entries_def List.map_filter_def)
qed

text \<open>
  C17. A status that a node gossips reaches the load selector of the peer that receives it. After
  \<open>handle_incoming_gossip\<close> the message's load is a candidate of \<open>select\<close> exactly when its age is below the
  staleness threshold; then, if no candidate's load is NaN, a winner is chosen, it is not the selecting node
  itself, and its CPU load is at most the gossiped one.
\<close>

theorem gossiped_load_selected:
  assumes "rs_node_id s = PStr peer" and "peer \<noteq> gm_node_id m" and "py_str (PStr peer) = peer"
    and "ls_local_node_id ls = gm_node_id m" and "handle_incoming_gossip m (PDict (build_status_msg s)) = (res, m')"
    and "select py_str ls (load_table m') now = Inr r"
  shows "res = Inr () \<and>
    (status_entry py_str s \<in> set (sr_candidates r) \<longleftrightarrow> \<not> fle (ls_stale_after ls) (fsub now (rs_timestamp s))) \<and>
    (\<not> fle (ls_stale_after ls) (fsub now (rs_timestamp s)) \<and> (\<forall>e \<in> set (sr_candidates r). \<not> is_nan (le_cpu_percent e)) \<longrightarrow>
       (\<exists>w. sr_winner r = Some w \<and> le_node_id w \<noteq> gm_node_id m \<and> fle (le_cpu_percent w) (rs_cpu_percent s)))"
proof -
  let ?e = "status_entry py_str s"
  have m': "m' = m\<lparr>gm_peer_table := AList.update (PStr peer) (rs_to_dict s) (gm_peer_table m)\<rparr>" and res: "res = Inr ()"
    using assms(5) unfolding handle_status [OF assms(1,2)] by simp_all
  have "map_of (gm_peer_table m') (PStr peer) = Some (rs_to_dict s)"
    by (simp add: m' update_conv')
  then have entry: "?e \<in> set (entries py_str (load_table m'))"
    by (rule entries_of_table) (rule from_dict_status)
  have in_range: "floats_in_range py_str (load_table m')"
    using assms(6) select_out_of_range by fastforce
  obtain r' where r': "select py_str ls (load_table m') now = Inr r'"
    and cands: "sr_candidates r' = filter (eligible ls now) (entries py_str (load_table m'))"
    and winner: "(\<forall>e \<in> set (sr_candidates r'). \<not> is_nan (le_cpu_percent e)) \<longrightarrow>
      (case sr_winner r' of None \<Rightarrow> sr_candidates r' = []
       | Some w \<Rightarrow> w \<in> set (sr_candidates r') \<and> (\<forall>e \<in> set (sr_candidates r'). fle (le_cpu_percent w) (le_cpu_percent e)))"
    using select_in_range [OF in_range, of ls now] by (elim exE conjE)
  have r: "r' = r"
    using r' assms(6) by simp
  have iff: "?e \<in> set (sr_candidates r) \<longleftrightarrow> \<not> fle (ls_stale_after ls) (fsub now (rs_timestamp s))"
    using entry assms(1-4) by (simp add: cands [unfolded r] eligible_def status_entry_def age_def)
  moreover have "\<exists>w. sr_winner r = Some w \<and> le_node_id w \<noteq> gm_node_id m \<and> fle (le_cpu_percent w) (rs_cpu_percent s)"
    if cand: "?e \<in> set (sr_candidates r)" and no_nan: "\<forall>e \<in> set (sr_candidates r). \<not> is_nan (le_cpu_percent e)"
  proof -
    obtain w where w: "sr_winner r = Some w" "w \<in> set (sr_candidates r)" "\<forall>e \<in> set (sr_candidates r). fle (le_cpu_percent w) (le_cpu_percent e)"
      using winner [unfolded r] cand no_nan by (cases "sr_winner r") auto
    then have "le_node_id w \<noteq> gm_node_id m"
      using assms(4) by (simp add: cands [unfolded r] eligible_def)
    moreover have "fle (le_cpu_percent w) (rs_cpu_percent s)"
      using bspec [OF w(3) cand] by (simp add: status_entry_def)
    ultimately show ?thesis
      using w(1) by blast
  qed
  ultimately show ?thesis
    using res by blast
qed

definition ex_status :: resource_status where
  "ex_status = \<lparr>rs_node_id = PStr (u ''b''), rs_cpu_percent = FFin 10, rs_ram_percent = FFin 1, rs_timestamp = FFin 100\<rparr>"

theorem gossiped_load_selected_witness:
  "\<exists>m' r w. handle_incoming_gossip (GossipManager (u ''me'') (FFin 3) (FFin 15) :: nat gossip_manager) (PDict (build_status_msg ex_status)) = (Inr (), m') \<and>
     select ex_str ex_selector (load_table m') (FFin 100) = Inr r \<and> status_entry ex_str ex_status \<in> set (sr_candidates r)"
proof -
  let ?m = "GossipManager (u ''me'') (FFin 3) (FFin 15) :: nat gossip_manager"
  have me: "gm_node_id ?m = u ''me''" "gm_peer_table ?m = []"
    by (simp_all add: GossipManager_def)
  have peer: "rs_node_id ex_status = PStr (u ''b'')" "u ''b'' \<noteq> gm_node_id ?m"
    by (simp_all add: ex_status_def me)
  obtain m' where m': "handle_incoming_gossip ?m (PDict (build_status_msg ex_status)) = (Inr (), m')"
    and table: "gm_peer_table m' = [(PStr (u ''b''), rs_to_dict ex_status)]"
    using handle_status [OF peer] me by simp
  have "floats_in_range ex_str (load_table m')"
    by (simp add: floats_in_range_def load_table_def table from_dict_status)
  then obtain r where r: "select ex_str ex_selector (load_table m') (FFin 100) = Inr r"
    using select_in_range [of ex_str "load_table m'" ex_selector "FFin 100"] by blast
  have "\<not> fle (ls_stale_after ex_selector) (fsub (FFin 100) (rs_timestamp ex_status))"
    by (simp add: ex_selector_def ex_status_def ex_age fval_def del: fsub.simps)
  then have "status_entry ex_str ex_status \<in> set (sr_candidates r)"
    using gossiped_load_selected [OF peer _ _ m' r] by (simp add: ex_str_def ex_selector_def me)
  with m' r show ?thesis by blast
qed

end
